(* ===== verification/Prelude.thy ===== *)
theory Prelude
  imports Main "HOL-Library.Word"
begin

text \<open>
  Shared vocabulary of the development: identifiers and byte strings, the
  machine integers of the configuration, instants and durations of the
  \<^verbatim>\<open>time\<close> crate, and the generic facts on lists that the table
  model rests on.

  An instant (\<^verbatim>\<open>OffsetDateTime\<close>) is the number of nanoseconds since the
  Unix epoch; the crate's range is years -9999 to 9999 and its saturating
  addition clamps to it. A duration is a signed number of nanoseconds.
\<close>

named_theorems wp_simps \<open>weakest precondition equations of the service actions\<close>
named_theorems table_simps \<open>lookup after update of the modelled tables\<close>
named_theorems frame_intros \<open>what best-effort actions leave alone\<close>
named_theorems session_frame \<open>writes that leave the sessions alone\<close>
named_theorems link_intros \<open>what keeps a used link used\<close>
named_theorems throws_intros \<open>the errors an action may end in\<close>

section \<open>Identifiers, byte strings, machine integers\<close>

type_synonym uuid = nat
type_synonym bytes = "8 word list"
type_synonym u64 = "64 word"
type_synonym u32 = "32 word"
type_synonym instant = int
type_synonym duration = int

text \<open>\<^verbatim>\<open>i64::try_from(n).unwrap_or(i64::MAX)\<close> of an unsigned 64-bit integer.\<close>

definition i64_max :: int where
  "i64_max = 9223372036854775807"

definition i64_of_u64 :: "u64 \<Rightarrow> int" where
  "i64_of_u64 n = (if uint n \<le> i64_max then uint n else i64_max)"

section \<open>Instants and durations\<close>

definition ns_per_sec :: int where
  "ns_per_sec = 1000000000"

definition max_instant :: instant where
  "max_instant = 253402300799 * 1000000000 + 999999999"

definition min_instant :: instant where
  "min_instant = - 377705116800 * 1000000000"

definition seconds :: "int \<Rightarrow> duration" where
  "seconds n = n * ns_per_sec"

text \<open>\<^verbatim>\<open>unix_timestamp\<close> rounds down, \<^verbatim>\<open>whole_seconds\<close> toward zero.\<close>

definition unix_timestamp :: "instant \<Rightarrow> int" where
  "unix_timestamp t = t div ns_per_sec"

definition whole_seconds :: "duration \<Rightarrow> int" where
  "whole_seconds d = (if 0 \<le> d then d div ns_per_sec else - ((- d) div ns_per_sec))"

definition saturating_add :: "instant \<Rightarrow> duration \<Rightarrow> instant" where
  "saturating_add t d =
     (if max_instant < t + d then max_instant
      else if t + d < min_instant then min_instant
      else t + d)"

definition valid_instant :: "instant \<Rightarrow> bool" where
  "valid_instant t \<longleftrightarrow> min_instant \<le> t \<and> t \<le> max_instant"

text \<open>\<^verbatim>\<open>Clock::in_secs\<close>: a number of seconds after the instant the clock shows.\<close>

definition in_secs :: "instant \<Rightarrow> u64 \<Rightarrow> instant" where
  "in_secs now secs = saturating_add now (seconds (i64_of_u64 secs))"

lemma i64_of_u64_nonneg [simp]: "0 \<le> i64_of_u64 n"
  by (simp add: i64_of_u64_def i64_max_def)

lemma i64_of_u64_pos: "n \<noteq> 0 \<Longrightarrow> 0 < i64_of_u64 n"
  using uint_ge_0 [of n] by (auto simp: i64_of_u64_def i64_max_def unsigned_eq_0_iff less_le)

lemma seconds_mono_iff [simp]: "seconds a \<le> seconds b \<longleftrightarrow> a \<le> b"
  by (simp add: seconds_def ns_per_sec_def)

lemma seconds_nonneg_iff [simp]: "0 \<le> seconds a \<longleftrightarrow> 0 \<le> a"
  by (simp add: seconds_def ns_per_sec_def)

lemma seconds_pos_iff [simp]: "0 < seconds a \<longleftrightarrow> 0 < a"
  by (simp add: seconds_def ns_per_sec_def)

lemma whole_seconds_less_iff:
  assumes "0 < n"
  shows "whole_seconds d < n \<longleftrightarrow> d < seconds n"
proof (cases "0 \<le> d")
  case True
  then show ?thesis
    by (auto simp: whole_seconds_def seconds_def ns_per_sec_def)
next
  case False
  have "- ((- d) div ns_per_sec) \<le> 0"
    using False by (simp add: ns_per_sec_def pos_imp_zdiv_nonneg_iff)
  moreover have "d < seconds n"
    using False assms by (simp add: seconds_def ns_per_sec_def)
  ultimately show ?thesis
    using False assms by (auto simp: whole_seconds_def)
qed

lemma saturating_add_valid [simp]: "valid_instant (saturating_add t d)"
  by (simp add: valid_instant_def saturating_add_def max_instant_def min_instant_def)

lemma saturating_add_le: "valid_instant t \<Longrightarrow> 0 \<le> d \<Longrightarrow> saturating_add t d \<le> t + d"
  by (simp add: valid_instant_def saturating_add_def)

lemma saturating_add_ge: "valid_instant t \<Longrightarrow> 0 \<le> d \<Longrightarrow> t \<le> saturating_add t d"
  by (simp add: valid_instant_def saturating_add_def)

lemma saturating_add_gt:
  "valid_instant t \<Longrightarrow> t < max_instant \<Longrightarrow> 0 < d \<Longrightarrow> t < saturating_add t d"
  by (simp add: valid_instant_def saturating_add_def)

section \<open>Lists as tables\<close>

text \<open>
  A table is the list of its rows. Selecting one row by its key is
  \<^const>\<open>find\<close>, selecting many is \<^const>\<open>filter\<close>, updating is \<^const>\<open>map\<close>
  with a condition.
\<close>

definition update_where :: "('r \<Rightarrow> bool) \<Rightarrow> ('r \<Rightarrow> 'r) \<Rightarrow> 'r list \<Rightarrow> 'r list" where
  "update_where P f rows = map (\<lambda>r. if P r then f r else r) rows"

lemma length_update_where [simp]: "length (update_where P f rows) = length rows"
  by (simp add: update_where_def)

lemma set_update_where:
  "set (update_where P f rows) = f ` {r \<in> set rows. P r} \<union> {r \<in> set rows. \<not> P r}"
  by (auto simp: update_where_def)

lemma map_update_where [table_simps]:
  "(\<And>r. g (f r) = g r) \<Longrightarrow> map g (update_where P f rows) = map g rows"
  by (simp add: update_where_def comp_def if_distrib cong: if_cong)

lemma find_update_where:
  assumes "\<And>r. Q (f r) = Q r"
  shows "find Q (update_where P f rows) =
         map_option (\<lambda>r. if P r then f r else r) (find Q rows)"
  using assms by (induction rows) (auto simp: update_where_def)

lemma find_Some_set: "find P xs = Some x \<Longrightarrow> x \<in> set xs \<and> P x"
  by (auto simp: find_Some_iff)

lemma find_append:
  "find P (xs @ ys) = (case find P xs of Some x \<Rightarrow> Some x | None \<Rightarrow> find P ys)"
  by (induction xs) auto

lemma find_by_distinct_key:
  assumes "distinct (map key rows)" "r \<in> set rows"
  shows "find (\<lambda>r'. key r' = key r) rows = Some r"
  using assms by (induction rows) auto

lemma distinct_key_eq:
  "distinct (map key rows) \<Longrightarrow> r \<in> set rows \<Longrightarrow> r' \<in> set rows \<Longrightarrow> key r = key r' \<Longrightarrow> r = r'"
  by (metis inj_onD distinct_map)

lemma length_filter_key_le_1:
  "distinct (map key rows) \<Longrightarrow> length (filter (\<lambda>r. key r = k) rows) \<le> 1"
  by (induction rows) (auto simp: filter_empty_conv image_iff)

lemma unix_timestamp_mono: "s \<le> t \<Longrightarrow> unix_timestamp s \<le> unix_timestamp t"
  by (simp add: unix_timestamp_def ns_per_sec_def zdiv_mono1)

end
