(* ===== verification/Net.thy ===== *)
theory Net
  imports Prelude
begin

text \<open>
  Client addresses. \<^verbatim>\<open>IpAddr\<close> and \<^verbatim>\<open>IpNetwork\<close> are machine words
  with a prefix length; the bucket of an address
  (\<^verbatim>\<open>middleware/rate_limit.rs\<close>) is what every per-address budget is keyed
  by, and \<^verbatim>\<open>same_network\<close> (\<^verbatim>\<open>services/auth/session.rs\<close>) is how a
  replay compares two of them.
\<close>

unbundle bit_operations_syntax

section \<open>Addresses\<close>

datatype ipaddr = V4 "32 word" | V6 "128 word"

datatype ipnetwork = IpNetwork (net_ip: ipaddr) (net_prefix: nat)

fun address_bits :: "ipaddr \<Rightarrow> nat" where
  "address_bits (V4 _) = 32"
| "address_bits (V6 _) = 128"

definition is_ipv4 :: "ipaddr \<Rightarrow> bool" where
  "is_ipv4 ip = (case ip of V4 _ \<Rightarrow> True | V6 _ \<Rightarrow> False)"

definition ipnetwork_new :: "ipaddr \<Rightarrow> nat \<Rightarrow> ipnetwork option" where
  "ipnetwork_new ip len = (if len \<le> address_bits ip then Some (IpNetwork ip len) else None)"

text \<open>The network address: the bits after the prefix cleared.\<close>

definition clear_low :: "nat \<Rightarrow> 'a::len word \<Rightarrow> 'a word" where
  "clear_low k w = push_bit k (drop_bit k w)"

fun network_address :: "ipnetwork \<Rightarrow> ipaddr" where
  "network_address (IpNetwork (V4 w) len) = V4 (clear_low (32 - len) w)"
| "network_address (IpNetwork (V6 w) len) = V6 (clear_low (128 - len) w)"

definition segment :: "nat \<Rightarrow> 128 word \<Rightarrow> nat" where
  "segment i w = unat (drop_bit (16 * (7 - i)) w) mod 65536"

definition octet :: "nat \<Rightarrow> 32 word \<Rightarrow> nat" where
  "octet i w = unat (drop_bit (8 * (3 - i)) w) mod 256"

text \<open>\<^verbatim>\<open>Ipv6Addr::to_ipv4_mapped\<close>: ::ffff:a.b.c.d only.\<close>

definition to_ipv4_mapped :: "128 word \<Rightarrow> (32 word) option" where
  "to_ipv4_mapped w = (if drop_bit 32 w = 0xffff then Some (ucast w) else None)"

section \<open>Rendering\<close>

definition digit_char :: "nat \<Rightarrow> char" where
  "digit_char n = (if n < 10 then char_of (48 + n) else char_of (87 + n))"

fun show_base :: "nat \<Rightarrow> nat \<Rightarrow> string" where
  "show_base b n =
     (if b < 2 \<or> n < b then [digit_char n] else show_base b (n div b) @ [digit_char (n mod b)])"

declare show_base.simps [simp del]

definition show_ipv4 :: "32 word \<Rightarrow> string" where
  "show_ipv4 w =
     show_base 10 (octet 0 w) @ ''.'' @ show_base 10 (octet 1 w) @ ''.'' @
     show_base 10 (octet 2 w) @ ''.'' @ show_base 10 (octet 3 w)"

definition ip_bucket :: "ipaddr \<Rightarrow> string" where
  "ip_bucket ip =
     (case ip of
        V4 v4 \<Rightarrow> show_ipv4 v4
      | V6 v6 \<Rightarrow>
         (case to_ipv4_mapped v6 of
            Some v4 \<Rightarrow> show_ipv4 v4
          | None \<Rightarrow>
              show_base 16 (segment 0 v6) @ '':'' @ show_base 16 (segment 1 v6) @ '':'' @
              show_base 16 (segment 2 v6) @ '':'' @ show_base 16 (segment 3 v6) @ ''::/64''))"

definition ip_bucket_network :: "ipaddr \<Rightarrow> ipnetwork" where
  "ip_bucket_network ip =
     (case ip of
        V4 v4 \<Rightarrow> IpNetwork (V4 v4) 32
      | V6 v6 \<Rightarrow>
         (case to_ipv4_mapped v6 of
            Some v4 \<Rightarrow> IpNetwork (V4 v4) 32
          | None \<Rightarrow> IpNetwork (V6 (clear_low 64 v6)) 64))"

text \<open>Whether two client addresses fall in the same /24 or /48.\<close>

definition network_prefix :: "ipaddr \<Rightarrow> ipnetwork option" where
  "network_prefix ip =
     (let len = (if is_ipv4 ip then 24 else 48) in
      case ipnetwork_new ip len of
        None \<Rightarrow> None
      | Some n \<Rightarrow> ipnetwork_new (network_address n) len)"

definition same_network :: "ipnetwork option \<Rightarrow> ipnetwork option \<Rightarrow> bool option" where
  "same_network a b =
     (case (a, b) of
        (Some a, Some b) \<Rightarrow>
          (case (network_prefix (net_ip a), network_prefix (net_ip b)) of
             (Some p, Some q) \<Rightarrow> Some (p = q)
           | _ \<Rightarrow> None)
      | _ \<Rightarrow> None)"

section \<open>Rendering is injective\<close>

definition digit_val :: "char \<Rightarrow> nat" where
  "digit_val c = (let n = of_char c in if n < 58 then n - 48 else n - 87)"

definition read_base :: "nat \<Rightarrow> string \<Rightarrow> nat" where
  "read_base b s = foldl (\<lambda>a c. a * b + digit_val c) 0 s"

lemma digit_val_digit_char: "n < 16 \<Longrightarrow> digit_val (digit_char n) = n"
  by (auto simp: digit_val_def digit_char_def Let_def)

lemma read_show_base:
  assumes "2 \<le> b" "b \<le> 16"
  shows "read_base b (show_base b n) = n"
proof (induction n rule: less_induct)
  case (less n)
  show ?case
  proof (cases "n < b")
    case True
    then show ?thesis
      using assms by (simp add: show_base.simps [of b n] read_base_def digit_val_digit_char)
  next
    case False
    then have "read_base b (show_base b (n div b)) = n div b"
      using assms by (intro less.IH) (simp add: div_less_dividend)
    moreover have "n mod b < 16"
      using assms mod_less_divisor [of b n] by linarith
    ultimately show ?thesis
      using assms False
      by (simp add: show_base.simps [of b n] read_base_def digit_val_digit_char)
  qed
qed

lemma show_base_inj: "2 \<le> b \<Longrightarrow> b \<le> 16 \<Longrightarrow> show_base b m = show_base b n \<longleftrightarrow> m = n"
  by (metis read_show_base)

lemma digit_char_plain: "n < 16 \<Longrightarrow> digit_char n \<notin> {CHR ''.'', CHR '':''}"
proof -
  assume "n < 16"
  then have "n \<in> set [0..<16]" by simp
  moreover have "\<forall>n \<in> set [0..<16]. digit_char n \<notin> {CHR ''.'', CHR '':''}"
    by code_simp
  ultimately show ?thesis by blast
qed

lemma show_base_plain:
  assumes "2 \<le> b" "b \<le> 16"
  shows "set (show_base b n) \<inter> {CHR ''.'', CHR '':''} = {}"
proof (induction n rule: less_induct)
  case (less n)
  have "n < b \<Longrightarrow> n < 16" and "n mod b < 16"
    using assms mod_less_divisor [of b n] by linarith+
  then show ?case
    using assms less [of "n div b"] digit_char_plain [of n] digit_char_plain [of "n mod b"]
    by (auto simp: show_base.simps [of b n] div_less_dividend)
qed

lemma show_base_no_sep [simp]:
  "2 \<le> b \<Longrightarrow> b \<le> 16 \<Longrightarrow> CHR ''.'' \<notin> set (show_base b n)"
  "2 \<le> b \<Longrightarrow> b \<le> 16 \<Longrightarrow> CHR '':'' \<notin> set (show_base b n)"
  using show_base_plain by blast+

lemma split_at_separator:
  "c \<notin> set xs \<Longrightarrow> c \<notin> set xs' \<Longrightarrow> xs @ c # ys = xs' @ c # ys' \<longleftrightarrow> xs = xs' \<and> ys = ys'"
proof (induction xs arbitrary: xs')
  case Nil
  then show ?case by (cases xs') auto
next
  case (Cons a xs)
  then show ?case by (cases xs') auto
qed

section \<open>Words and their octets and segments\<close>

lemma four_digits:
  fixes n b :: nat
  assumes "n < b * b * b * b"
  shows "n = (n div (b * b * b) mod b) * (b * b * b) + (n div (b * b) mod b) * (b * b) +
             (n div b mod b) * b + n mod b"
proof -
  have "n = n div b * b + n mod b"
    by simp
  also have "n div b = n div (b * b) * b + n div b mod b"
    by (metis div_mult2_eq div_mult_mod_eq)
  also have "n div (b * b) = n div (b * b * b) * b + n div (b * b) mod b"
    by (metis div_mult2_eq div_mult_mod_eq)
  also have "n div (b * b * b) = n div (b * b * b) mod b"
    using assms by (metis div_mult2_eq less_mult_imp_div_less mod_less mult.assoc mult.commute)
  finally show ?thesis
    by (simp add: algebra_simps)
qed

lemma unat_octets:
  "unat w = octet 0 w * 16777216 + octet 1 w * 65536 + octet 2 w * 256 + octet 3 w"
proof -
  have "unat w < 4294967296"
    using unsigned_less [where ?'a = nat, of w] by simp
  then show ?thesis
    using four_digits [of "unat w" 256]
    by (simp add: octet_def unat_drop_bit_eq drop_bit_eq_div [where ?'a = nat])
qed

lemma unat_segments:
  "unat (drop_bit 64 w) =
   segment 0 w * 281474976710656 + segment 1 w * 4294967296 + segment 2 w * 65536 + segment 3 w"
proof -
  have "unat w < 340282366920938463463374607431768211456"
    using unsigned_less [where ?'a = nat, of w] by simp
  then have "unat w div 18446744073709551616 < 18446744073709551616"
    by (simp add: less_mult_imp_div_less)
  then show ?thesis
    using four_digits [of "unat w div 18446744073709551616" 65536]
    by (simp add: segment_def unat_drop_bit_eq drop_bit_eq_div [where ?'a = nat]
        flip: div_mult2_eq)
qed

lemma clear_low_eq_iff:
  fixes v w :: "'a::len word"
  assumes "k \<le> LENGTH('a)"
  shows "clear_low k v = clear_low k w \<longleftrightarrow> drop_bit k v = drop_bit k w"
proof
  assume "clear_low k v = clear_low k w"
  then have eq: "bit (push_bit k (drop_bit k v)) n = bit (push_bit k (drop_bit k w)) n" for n
    by (simp add: clear_low_def)
  show "drop_bit k v = drop_bit k w"
  proof (rule bit_word_eqI)
    fix n assume n: "n < LENGTH('a)"
    show "bit (drop_bit k v) n \<longleftrightarrow> bit (drop_bit k w) n"
    proof (cases "k + n < LENGTH('a)")
      case True
      then show ?thesis
        using eq [of "k + n"] by (simp add: bit_simps)
    next
      case False
      then show ?thesis
        using bit_imp_le_length by (auto simp: bit_simps)
    qed
  qed
qed (simp add: clear_low_def)

lemma show_ipv4_inj: "show_ipv4 v = show_ipv4 w \<longleftrightarrow> v = w"
proof
  assume "show_ipv4 v = show_ipv4 w"
  then have "octet 0 v = octet 0 w \<and> octet 1 v = octet 1 w \<and> octet 2 v = octet 2 w \<and> octet 3 v = octet 3 w"
    by (simp add: show_ipv4_def split_at_separator show_base_inj)
  then have "unat v = unat w"
    by (simp only: unat_octets)
  then show "v = w" by (rule unsigned_word_eqI)
qed simp

lemma show_ipv4_no_colon: "CHR '':'' \<notin> set (show_ipv4 w)"
  by (simp add: show_ipv4_def)

lemma same_network_V4 [simp]:
  "same_network (Some (IpNetwork (V4 v) p)) (Some (IpNetwork (V4 w) q)) =
   Some (drop_bit 8 v = drop_bit 8 w)"
  by (simp add: same_network_def network_prefix_def is_ipv4_def ipnetwork_new_def clear_low_eq_iff)

lemma same_network_V6 [simp]:
  "same_network (Some (IpNetwork (V6 v) p)) (Some (IpNetwork (V6 w) q)) =
   Some (drop_bit 80 v = drop_bit 80 w)"
  by (simp add: same_network_def network_prefix_def is_ipv4_def ipnetwork_new_def clear_low_eq_iff)

lemma same_network_refl: "same_network (Some n) (Some n) = Some True"
  by (cases n; cases "net_ip n") auto

lemma ip_bucket_V6_shape:
  "to_ipv4_mapped w = None \<Longrightarrow> CHR '':'' \<in> set (ip_bucket (V6 w))"
  by (simp add: ip_bucket_def)

lemma ip_bucket_V6_inj:
  assumes "to_ipv4_mapped v = None" "to_ipv4_mapped w = None"
  shows "ip_bucket (V6 v) = ip_bucket (V6 w) \<longleftrightarrow> drop_bit 64 v = drop_bit 64 w"
proof
  assume "ip_bucket (V6 v) = ip_bucket (V6 w)"
  then have "segment 0 v = segment 0 w \<and> segment 1 v = segment 1 w \<and>
             segment 2 v = segment 2 w \<and> segment 3 v = segment 3 w"
    using assms by (simp add: ip_bucket_def split_at_separator show_base_inj)
  then have "unat (drop_bit 64 v) = unat (drop_bit 64 w)"
    by (simp only: unat_segments)
  then show "drop_bit 64 v = drop_bit 64 w"
    by (rule unsigned_word_eqI)
next
  assume eq: "drop_bit 64 v = drop_bit 64 w"
  have "drop_bit (16 * (7 - i)) v = drop_bit (16 * (7 - i)) w" if "i \<le> 3" for i
  proof -
    have "drop_bit (16 * (7 - i) - 64) (drop_bit 64 u) = drop_bit (16 * (7 - i)) u" for u :: "128 word"
      using that by (simp add: drop_bit_drop_bit)
    then show ?thesis
      using eq by metis
  qed
  then have "segment i v = segment i w" if "i \<le> 3" for i
    using that by (simp add: segment_def)
  then show "ip_bucket (V6 v) = ip_bucket (V6 w)"
    using assms by (simp add: ip_bucket_def)
qed

definition is_v6_bucket :: "ipaddr \<Rightarrow> bool" where
  "is_v6_bucket ip = (case ip of V4 _ \<Rightarrow> False | V6 w \<Rightarrow> to_ipv4_mapped w = None)"

lemma is_v6_bucket_iff: "is_v6_bucket ip \<longleftrightarrow> (\<exists>w. ip = V6 w \<and> to_ipv4_mapped w = None)"
  by (simp add: is_v6_bucket_def split: ipaddr.split)

lemma v4_bucket:
  "\<not> is_v6_bucket ip \<Longrightarrow> \<exists>w. ip_bucket ip = show_ipv4 w \<and> ip_bucket_network ip = IpNetwork (V4 w) 32"
  by (auto simp: is_v6_bucket_def ip_bucket_def ip_bucket_network_def split: ipaddr.splits)

lemma mixed_buckets:
  assumes "is_v6_bucket a" "\<not> is_v6_bucket b"
  shows "ip_bucket a \<noteq> ip_bucket b \<and> ip_bucket_network a \<noteq> ip_bucket_network b"
proof -
  obtain v where v: "a = V6 v" "to_ipv4_mapped v = None"
    using assms(1) by (auto simp: is_v6_bucket_iff)
  obtain w where w: "ip_bucket b = show_ipv4 w" "ip_bucket_network b = IpNetwork (V4 w) 32"
    using assms(2) v4_bucket by blast
  have "ip_bucket a \<noteq> ip_bucket b"
    using v w ip_bucket_V6_shape [of v] show_ipv4_no_colon [of w] by metis
  moreover have "ip_bucket_network a \<noteq> ip_bucket_network b"
    using v w by (simp add: ip_bucket_network_def)
  ultimately show ?thesis ..
qed

text \<open>C21: The string key under which an address is budgeted in Redis and the
  network it is grouped by in SQL agree: two addresses share a bucket string
  exactly when they share a bucket network, so an IPv4 client, its IPv4-mapped
  IPv6 form, and every address of one IPv6 /64 count together in both stores,
  and nobody else does.\<close>

theorem ip_bucket_agrees_with_network:
  "ip_bucket a = ip_bucket b \<longleftrightarrow> ip_bucket_network a = ip_bucket_network b"
proof (cases "is_v6_bucket a"; cases "is_v6_bucket b")
  assume "is_v6_bucket a" "is_v6_bucket b"
  then show ?thesis
    by (auto simp: is_v6_bucket_iff ip_bucket_V6_inj ip_bucket_network_def clear_low_eq_iff)
next
  assume "is_v6_bucket a" "\<not> is_v6_bucket b"
  then show ?thesis
    using mixed_buckets by blast
next
  assume "\<not> is_v6_bucket a" "is_v6_bucket b"
  then show ?thesis
    using mixed_buckets by metis
next
  assume "\<not> is_v6_bucket a" "\<not> is_v6_bucket b"
  then show ?thesis
    using v4_bucket [of a] v4_bucket [of b] by (auto simp: show_ipv4_inj)
qed

end
