(* ===== verification/Session_Domain.thy ===== *)
theory Session_Domain
  imports Net
begin

text \<open>
  The pure rules of \<^verbatim>\<open>domain/session.rs\<close>: the session row, the device label,
  the capped expiry of a rotation, the verdict on a presented refresh token, the
  first-party test and the per-request token state read from Redis.

  Text in which single characters matter (device labels) is a list of Unicode
  code points.
\<close>

section \<open>Device labels\<close>

type_synonym unicode = "nat list"

definition DEVICE_NAME_MAX_CHARS :: nat where
  "DEVICE_NAME_MAX_CHARS = 100"

text \<open>\<^verbatim>\<open>char::is_control\<close> (category Cc) and \<^verbatim>\<open>char::is_whitespace\<close>
  (property White\_Space).\<close>

definition is_control :: "nat \<Rightarrow> bool" where
  "is_control c \<longleftrightarrow> c \<le> 0x1F \<or> (0x7F \<le> c \<and> c \<le> 0x9F)"

definition is_whitespace :: "nat \<Rightarrow> bool" where
  "is_whitespace c \<longleftrightarrow>
     (0x9 \<le> c \<and> c \<le> 0xD) \<or> c = 0x20 \<or> c = 0x85 \<or> c = 0xA0 \<or> c = 0x1680 \<or>
     (0x2000 \<le> c \<and> c \<le> 0x200A) \<or> c = 0x2028 \<or> c = 0x2029 \<or> c = 0x202F \<or> c = 0x205F \<or> c = 0x3000"

definition trim_start :: "unicode \<Rightarrow> unicode" where
  "trim_start s = dropWhile is_whitespace s"

definition trim_end :: "unicode \<Rightarrow> unicode" where
  "trim_end s = rev (dropWhile is_whitespace (rev s))"

definition device_label :: "unicode \<Rightarrow> unicode option" where
  "device_label raw =
     (let cleaned = filter (\<lambda>c. \<not> is_control c) raw;
          label = take DEVICE_NAME_MAX_CHARS (trim_end (trim_start cleaned));
          label = trim_end label
      in if label \<noteq> [] then Some label else None)"

section \<open>Sessions\<close>

definition capped_expiry :: "instant \<Rightarrow> u64 \<Rightarrow> instant \<Rightarrow> u64 \<Rightarrow> instant" where
  "capped_expiry now ttl_secs family_started_at max_lifetime_secs =
     min (saturating_add now (seconds (i64_of_u64 ttl_secs)))
         (saturating_add family_started_at (seconds (i64_of_u64 max_lifetime_secs)))"

datatype session_type = Web | Device | PersonalAccessToken

fun session_type_as_str :: "session_type \<Rightarrow> string" where
  "session_type_as_str Web = ''web''"
| "session_type_as_str Device = ''device''"
| "session_type_as_str PersonalAccessToken = ''personal_access_token''"

datatype session_compromise_reason =
  RefreshTokenReuse | ManualSecurityAction | CredentialsRotated

record session =
  s_id :: uuid
  s_user_id :: uuid
  s_session_family_id :: uuid
  s_last_used_at :: instant
  s_expires_at :: instant
  s_created_at :: instant
  s_family_created_at :: instant
  s_scopes :: "string list option"
  s_revoked_at :: "instant option"
  s_rotated_at :: "instant option"
  s_compromised_at :: "instant option"
  s_replaced_by_session_id :: "uuid option"
  s_ip_address :: "ipnetwork option"
  s_device_name :: "unicode option"
  s_remember_me :: bool
  s_token_hash :: bytes
  s_user_agent :: "string option"
  s_session_type :: session_type
  s_client_id :: "string option"
  s_compromise_reason :: "session_compromise_reason option"
  s_mfa :: bool
  s_auth_time :: "instant option"

definition is_active :: "session \<Rightarrow> instant \<Rightarrow> bool" where
  "is_active s now \<longleftrightarrow> s_revoked_at s = None \<and> now < s_expires_at s"

definition is_compromised :: "session \<Rightarrow> bool" where
  "is_compromised s \<longleftrightarrow> s_compromised_at s \<noteq> None"

definition rotated_within :: "session \<Rightarrow> duration \<Rightarrow> instant \<Rightarrow> bool" where
  "rotated_within s grace now \<longleftrightarrow>
     s_compromised_at s = None \<and>
     (case s_rotated_at s of None \<Rightarrow> False | Some rotated \<Rightarrow> now - rotated \<le> grace)"

datatype refresh_verdict = Rotate | ConcurrentRefresh | Replay | Expired | AddressMismatch

record refresh_policy =
  rp_reuse_grace :: duration
  rp_max_lifetime_secs :: u64
  rp_strict_binding :: bool

definition refresh_verdict :: "session \<Rightarrow> instant \<Rightarrow> ipaddr option \<Rightarrow> refresh_policy \<Rightarrow> refresh_verdict" where
  "refresh_verdict s now request_ip policy =
     (if s_revoked_at s \<noteq> None then
        (if rotated_within s (rp_reuse_grace policy) now then ConcurrentRefresh else Replay)
      else if \<not> is_active s now then Expired
      else if i64_of_u64 (rp_max_lifetime_secs policy) \<le> whole_seconds (now - s_family_created_at s) then Expired
      else if rp_strict_binding policy \<and> map_option net_ip (s_ip_address s) \<noteq> request_ip then AddressMismatch
      else Rotate)"

definition is_first_party :: "session_type \<Rightarrow> bool \<Rightarrow> bool \<Rightarrow> bool \<Rightarrow> bool" where
  "is_first_party ty scoped for_client primary_client \<longleftrightarrow>
     ty \<noteq> PersonalAccessToken \<and> \<not> scoped \<and> (\<not> for_client \<or> primary_client)"

section \<open>The cached state of a token\<close>

datatype token_state = Revoked | Active bool | Ended | Unknown

definition CACHED_ENDED :: "8 word" where "CACHED_ENDED = 0"
definition CACHED_FIRST_PARTY :: "8 word" where "CACHED_FIRST_PARTY = 1"
definition CACHED_DELEGATED :: "8 word" where "CACHED_DELEGATED = 2"

definition cached_value :: "bool \<Rightarrow> bool \<Rightarrow> 8 word" where
  "cached_value active first_party =
     (if \<not> active then CACHED_ENDED
      else if first_party then CACHED_FIRST_PARTY else CACHED_DELEGATED)"

definition token_state :: "bool \<Rightarrow> (8 word) option \<Rightarrow> token_state" where
  "token_state blocklisted cached =
     (if blocklisted then Revoked
      else case cached of
        None \<Rightarrow> Unknown
      | Some v \<Rightarrow> if v = CACHED_FIRST_PARTY then Active True
                  else if v = CACHED_DELEGATED then Active False
                  else Ended)"

section \<open>Labels\<close>

lemma trim_start_hd: "trim_start s \<noteq> [] \<Longrightarrow> \<not> is_whitespace (hd (trim_start s))"
  by (simp add: trim_start_def hd_dropWhile)

lemma trim_end_last: "trim_end s \<noteq> [] \<Longrightarrow> \<not> is_whitespace (last (trim_end s))"
  by (simp add: trim_end_def last_rev hd_dropWhile)

lemma trim_end_Nil: "trim_end [] = []"
  by (simp add: trim_end_def)

lemma trim_end_hd: "trim_end s \<noteq> [] \<Longrightarrow> hd (trim_end s) = hd s"
proof -
  assume ne: "trim_end s \<noteq> []"
  have "s = trim_end s @ rev (takeWhile is_whitespace (rev s))"
    unfolding trim_end_def by (metis rev_append rev_rev_ident takeWhile_dropWhile_id)
  then show ?thesis using ne by (metis hd_append2)
qed

lemma trim_start_id: "s = [] \<or> \<not> is_whitespace (hd s) \<Longrightarrow> trim_start s = s"
  by (cases s) (auto simp: trim_start_def)

lemma trim_end_id: "s = [] \<or> \<not> is_whitespace (last s) \<Longrightarrow> trim_end s = s"
  by (cases s rule: rev_cases) (auto simp: trim_end_def)

lemma set_trim_start: "set (trim_start s) \<subseteq> set s"
  by (auto simp: trim_start_def dest: set_dropWhileD)

lemma set_trim_end: "set (trim_end s) \<subseteq> set s"
  by (auto simp: trim_end_def dest: set_dropWhileD)

lemma length_trim_end: "length (trim_end s) \<le> length s"
  by (simp add: trim_end_def length_dropWhile_le [THEN order_trans])

lemma trim_end_Nil_iff: "trim_end s = [] \<longleftrightarrow> (\<forall>c \<in> set s. is_whitespace c)"
  by (simp add: trim_end_def dropWhile_eq_Nil_conv)

lemma trim_start_Nil_iff: "trim_start s = [] \<longleftrightarrow> (\<forall>c \<in> set s. is_whitespace c)"
  by (simp add: trim_start_def dropWhile_eq_Nil_conv)

text \<open>A label as it is stored.\<close>

definition clean_label :: "unicode \<Rightarrow> bool" where
  "clean_label l \<longleftrightarrow>
     l \<noteq> [] \<and> length l \<le> DEVICE_NAME_MAX_CHARS \<and> (\<forall>c \<in> set l. \<not> is_control c) \<and>
     \<not> is_whitespace (hd l) \<and> \<not> is_whitespace (last l)"

lemma device_label_clean:
  assumes "device_label raw = Some l"
  shows "clean_label l"
proof -
  let ?c = "filter (\<lambda>c. \<not> is_control c) raw"
  let ?t = "trim_end (trim_start ?c)"
  let ?k = "take DEVICE_NAME_MAX_CHARS ?t"
  have l: "l = trim_end ?k" and ne: "l \<noteq> []"
    using assms by (auto simp: device_label_def Let_def split: if_splits)
  have k: "?k \<noteq> []"
    using l ne trim_end_Nil by metis
  then have t: "?t \<noteq> []" by auto
  then have s: "trim_start ?c \<noteq> []" using trim_end_Nil by metis
  have "hd l = hd (trim_start ?c)"
    using l ne k t by (metis hd_take length_greater_0_conv take_eq_Nil trim_end_hd neq0_conv)
  then have "\<not> is_whitespace (hd l)"
    using s trim_start_hd by metis
  moreover have "set l \<subseteq> set ?c"
    unfolding l using set_trim_end set_trim_start by (meson order_trans set_take_subset)
  moreover have "length l \<le> DEVICE_NAME_MAX_CHARS"
    unfolding l using length_trim_end [of ?k] by simp
  ultimately show ?thesis
    using ne trim_end_last [of ?k] l by (auto simp: clean_label_def)
qed

lemma device_label_of_clean: "clean_label l \<Longrightarrow> device_label l = Some l"
  by (simp add: clean_label_def device_label_def Let_def trim_start_id trim_end_id filter_id_conv)

lemma device_label_None:
  "device_label raw = None \<longleftrightarrow> (\<forall>c \<in> set raw. is_control c \<or> is_whitespace c)"
proof -
  let ?s = "trim_start (filter (\<lambda>c. \<not> is_control c) raw)"
  have "trim_end (take DEVICE_NAME_MAX_CHARS (trim_end ?s)) = [] \<longleftrightarrow> ?s = []"
  proof
    assume "trim_end (take DEVICE_NAME_MAX_CHARS (trim_end ?s)) = []"
    then have ws: "\<forall>c \<in> set (take DEVICE_NAME_MAX_CHARS (trim_end ?s)). is_whitespace c"
      by (simp add: trim_end_Nil_iff)
    show "?s = []"
    proof (rule ccontr)
      assume s: "?s \<noteq> []"
      then have "\<not> is_whitespace (hd ?s)" by (rule trim_start_hd)
      moreover from this s have "trim_end ?s \<noteq> []"
        by (meson hd_in_set trim_end_Nil_iff)
      moreover from this have "hd ?s \<in> set (take DEVICE_NAME_MAX_CHARS (trim_end ?s))"
        by (metis DEVICE_NAME_MAX_CHARS_def hd_in_set hd_take take_eq_Nil trim_end_hd zero_less_numeral zero_neq_numeral)
      ultimately show False using ws by blast
    qed
  qed (simp add: trim_end_def)
  then show ?thesis
    by (auto simp: device_label_def Let_def trim_start_Nil_iff)
qed

text \<open>C22: A device label is either refused, exactly when nothing printable is
  left of it, or it is stored clean: at most 100 characters, no control
  character, no leading or trailing whitespace; and normalising a stored label
  again changes nothing.\<close>

theorem device_label_normalises:
  "(case device_label raw of
      None \<Rightarrow> list_all (\<lambda>c. is_control c \<or> is_whitespace c) raw
    | Some l \<Rightarrow> clean_label l \<and> device_label l = Some l \<and>
                list_ex (\<lambda>c. \<not> is_control c \<and> \<not> is_whitespace c) raw)"
  using device_label_clean [of raw] device_label_of_clean device_label_None [of raw]
  by (auto simp: list_all_iff list_ex_iff split: option.split)

section \<open>Expiry and verdict\<close>

lemma capped_expiry_valid: "valid_instant (capped_expiry now ttl fam mx)"
  by (simp add: capped_expiry_def min_def)

lemma capped_expiry_le:
  assumes "valid_instant now" "valid_instant fam"
  shows "capped_expiry now ttl fam mx \<le> now + seconds (i64_of_u64 ttl)"
    and "capped_expiry now ttl fam mx \<le> fam + seconds (i64_of_u64 mx)"
  using assms saturating_add_le [of now "seconds (i64_of_u64 ttl)"]
    saturating_add_le [of fam "seconds (i64_of_u64 mx)"]
  by (auto simp: capped_expiry_def)

lemma lifetime_check_iff:
  assumes "mx \<noteq> 0"
  shows "i64_of_u64 mx \<le> whole_seconds (t - fam) \<longleftrightarrow> fam + seconds (i64_of_u64 mx) \<le> t"
proof -
  have "whole_seconds (t - fam) < i64_of_u64 mx \<longleftrightarrow> t - fam < seconds (i64_of_u64 mx)"
    using assms by (intro whole_seconds_less_iff i64_of_u64_pos)
  then show ?thesis by linarith
qed

lemma Rotate_iff:
  "refresh_verdict s now ip p = Rotate \<longleftrightarrow>
     s_revoked_at s = None \<and> now < s_expires_at s \<and>
     whole_seconds (now - s_family_created_at s) < i64_of_u64 (rp_max_lifetime_secs p) \<and>
     (rp_strict_binding p \<longrightarrow> map_option net_ip (s_ip_address s) = ip)"
  by (auto simp: refresh_verdict_def is_active_def)

lemma Replay_iff:
  "refresh_verdict s now ip p = Replay \<longleftrightarrow>
     s_revoked_at s \<noteq> None \<and> \<not> rotated_within s (rp_reuse_grace p) now"
  by (auto simp: refresh_verdict_def)

lemma Concurrent_iff:
  "refresh_verdict s now ip p = ConcurrentRefresh \<longleftrightarrow>
     s_revoked_at s \<noteq> None \<and> rotated_within s (rp_reuse_grace p) now"
  by (auto simp: refresh_verdict_def)

text \<open>C18: The session a rotation creates expires exactly when the sign-in does
  at the latest: with a non-zero absolute lifetime, at no instant before the
  capped expiry does the lifetime rule alone refuse it, the expiry is never later than the
  absolute end of the family, and a session that may be rotated (with a
  non-zero refresh lifetime) gets an expiry in the future.\<close>

theorem capped_expiry_is_exact:
  assumes "valid_instant now" "valid_instant (s_family_created_at s)" "now < max_instant"
    and "ttl \<noteq> 0" "rp_max_lifetime_secs p \<noteq> 0"
  defines "e \<equiv> capped_expiry now ttl (s_family_created_at s) (rp_max_lifetime_secs p)"
  shows "e \<le> s_family_created_at s + seconds (i64_of_u64 (rp_max_lifetime_secs p))
    \<and> (t < e \<longrightarrow> whole_seconds (t - s_family_created_at s) < i64_of_u64 (rp_max_lifetime_secs p))
    \<and> (refresh_verdict s now ip p = Rotate \<longrightarrow> now < e)"
proof -
  let ?fam = "s_family_created_at s" and ?mx = "i64_of_u64 (rp_max_lifetime_secs p)"
  have le: "e \<le> ?fam + seconds ?mx"
    unfolding e_def using assms(1,2) by (rule capped_expiry_le(2))
  have life: "whole_seconds (u - ?fam) < ?mx \<longleftrightarrow> u < ?fam + seconds ?mx" for u
    using lifetime_check_iff [OF assms(5), of u ?fam] by linarith
  have "now < e" if "refresh_verdict s now ip p = Rotate"
  proof -
    have "now < ?fam + seconds ?mx"
      using that life by (simp add: Rotate_iff)
    then have "now < saturating_add ?fam (seconds ?mx)"
      using assms(1,3) by (auto simp: saturating_add_def valid_instant_def)
    moreover have "now < saturating_add now (seconds (i64_of_u64 ttl))"
      using assms(1,3,4) i64_of_u64_pos by (intro saturating_add_gt) auto
    ultimately show ?thesis by (simp add: e_def capped_expiry_def)
  qed
  then show ?thesis using le life by auto
qed

lemma whole_seconds_mono: "a \<le> b \<Longrightarrow> whole_seconds a \<le> whole_seconds b"
proof -
  assume le: "a \<le> b"
  have neg: "- (- a div ns_per_sec) \<le> 0" if "\<not> 0 \<le> a"
    using that by (simp add: ns_per_sec_def pos_imp_zdiv_nonneg_iff)
  have pos: "0 \<le> b div ns_per_sec" if "0 \<le> b"
    using that by (simp add: ns_per_sec_def pos_imp_zdiv_nonneg_iff)
  show ?thesis
  proof (cases "0 \<le> a")
    case True
    then show ?thesis
      using le by (simp add: whole_seconds_def zdiv_mono1 ns_per_sec_def)
  next
    case False
    show ?thesis
    proof (cases "0 \<le> b")
      case True
      then have "- (- a div ns_per_sec) \<le> b div ns_per_sec"
        using neg [OF False] pos [OF True] by linarith
      then show ?thesis
        using True False by (simp add: whole_seconds_def)
    next
      case b: False
      have "- b div ns_per_sec \<le> - a div ns_per_sec"
        using le by (simp add: zdiv_mono1 ns_per_sec_def)
      then show ?thesis
        using False b by (simp add: whole_seconds_def)
    qed
  qed
qed

lemma rotated_within_antimono:
  "now \<le> later \<Longrightarrow> rotated_within s g later \<Longrightarrow> rotated_within s g now"
  by (auto simp: rotated_within_def split: option.splits)

text \<open>C19: A refusal of a refresh token is final. A token judged expired or
  replayed at one instant is judged the same at every later one, from any
  address; and a token that may be rotated was not expired or replayed at any
  earlier instant.\<close>

theorem refresh_refusal_is_final:
  assumes "now \<le> later" and "refresh_verdict s now ip p \<in> {Expired, Replay}"
  shows "refresh_verdict s later ip' p = refresh_verdict s now ip p"
proof (cases "s_revoked_at s = None")
  case True
  have "whole_seconds (now - s_family_created_at s) \<le> whole_seconds (later - s_family_created_at s)"
    using assms(1) by (intro whole_seconds_mono) simp
  then show ?thesis
    using True assms by (auto simp: refresh_verdict_def is_active_def split: if_splits)
next
  case False
  then show ?thesis
    using assms rotated_within_antimono [OF assms(1), of s "rp_reuse_grace p"]
    by (auto simp: refresh_verdict_def split: if_splits)
qed

section \<open>Token state\<close>

lemma token_state_Active_iff:
  "token_state b c = Active fp \<longleftrightarrow> \<not> b \<and> c = Some (cached_value True fp)"
  by (cases fp) (auto simp: token_state_def cached_value_def CACHED_ENDED_def CACHED_FIRST_PARTY_def
      CACHED_DELEGATED_def split: option.split)

lemma token_state_cached:
  "token_state False (Some (cached_value active fp)) = (if active then Active fp else Ended)"
  by (simp add: token_state_def cached_value_def CACHED_ENDED_def CACHED_FIRST_PARTY_def
      CACHED_DELEGATED_def)

lemma token_state_blocklisted [simp]: "token_state True c = Revoked"
  by (simp add: token_state_def)

lemma token_state_None [simp]: "token_state False None = Unknown"
  by (simp add: token_state_def)

lemma token_state_ended [simp]: "token_state False (Some CACHED_ENDED) = Ended"
  by (simp add: token_state_def CACHED_ENDED_def CACHED_FIRST_PARTY_def CACHED_DELEGATED_def)

text \<open>C23: What is cached of a session is read back as it was (first party and
  delegated kept apart), the logout blocklist wins over any cached value, and a
  value other than the two active ones never reads as active.\<close>

theorem token_cache_round_trip:
  "token_state blocked (Some (cached_value active fp)) =
     (if blocked then Revoked else if active then Active fp else Ended)
   \<and> (v \<notin> {CACHED_FIRST_PARTY, CACHED_DELEGATED} \<longrightarrow> token_state False (Some v) = Ended)"
  by (auto simp: token_state_def cached_value_def CACHED_ENDED_def CACHED_FIRST_PARTY_def
      CACHED_DELEGATED_def)

section \<open>Witnesses\<close>

definition demo_session :: session where
  "demo_session = \<lparr>s_id = 2, s_user_id = 1, s_session_family_id = 3, s_last_used_at = 0,
     s_expires_at = seconds 86400, s_created_at = 0, s_family_created_at = 0, s_scopes = None,
     s_revoked_at = None, s_rotated_at = None, s_compromised_at = None, s_replaced_by_session_id = None,
     s_ip_address = None, s_device_name = None, s_remember_me = False, s_token_hash = replicate 32 7,
     s_user_agent = None, s_session_type = Web, s_client_id = None, s_compromise_reason = None,
     s_mfa = False, s_auth_time = None\<rparr>"

definition demo_policy :: refresh_policy where
  "demo_policy = \<lparr>rp_reuse_grace = seconds 1, rp_max_lifetime_secs = 7776000, rp_strict_binding = False\<rparr>"

lemma capped_expiry_is_exact_witness:
  "0 < capped_expiry 0 86400 (s_family_created_at demo_session) (rp_max_lifetime_secs demo_policy)"
proof -
  have "refresh_verdict demo_session 0 None demo_policy = Rotate"
    by (simp add: refresh_verdict_def is_active_def demo_session_def demo_policy_def whole_seconds_def
        seconds_def ns_per_sec_def i64_of_u64_def i64_max_def)
  then show ?thesis
    using capped_expiry_is_exact [of 0 demo_session 86400 demo_policy 5 None]
    by (simp add: demo_session_def demo_policy_def valid_instant_def min_instant_def max_instant_def)
qed

lemma refresh_refusal_is_final_witness:
  "refresh_verdict demo_session (seconds 99999) (Some (V4 7)) demo_policy = Expired"
proof -
  have e: "refresh_verdict demo_session (seconds 86400) None demo_policy = Expired"
    by (simp add: refresh_verdict_def is_active_def demo_session_def)
  then show ?thesis
    using refresh_refusal_is_final [of "seconds 86400" "seconds 99999" demo_session None demo_policy "Some (V4 7)"]
    by simp
qed

lemma token_cache_round_trip_witness:
  "token_state False (Some (cached_value True False)) = Active False \<and> token_state False (Some 9) = Ended"
  using token_cache_round_trip [of False True False 9]
  by (simp add: CACHED_FIRST_PARTY_def CACHED_DELEGATED_def)

end
