(* ===== verification/Domain.thy ===== *)
theory Domain
  imports Session_Domain "HOL-Library.Char_ord" "HOL-Library.List_Lexorder"
begin

text \<open>
  The rows and the pure rules of the other domain types: accounts
  (\<^verbatim>\<open>domain/user.rs\<close>), sign-in attempts (\<^verbatim>\<open>domain/login_attempt.rs\<close>), second
  factors (\<^verbatim>\<open>domain/two_factor.rs\<close>), known devices
  (\<^verbatim>\<open>domain/known_device.rs\<close>), the audit log (\<^verbatim>\<open>domain/audit.rs\<close>),
  registered clients and their scopes (\<^verbatim>\<open>domain/registered_client.rs\<close>,
  \<^verbatim>\<open>domain/oauth.rs\<close>) and the access token claims (\<^verbatim>\<open>utils/jwt.rs\<close>).
\<close>

section \<open>Accounts\<close>

datatype user_status = UserActive | Inactive | Suspended | PendingVerification

record user =
  u_id :: uuid
  u_created_at :: instant
  u_email_verified_at :: "instant option"
  u_last_login_at :: "instant option"
  u_locked_until :: "instant option"
  u_lockout_cleared_at :: "instant option"
  u_status :: user_status
  u_preferred_locale :: string
  u_username :: string
  u_email :: string
  u_password_hash :: string

definition is_locked :: "user \<Rightarrow> instant \<Rightarrow> bool" where
  "is_locked u now = (case u_locked_until u of None \<Rightarrow> False | Some t \<Rightarrow> now < t)"

definition ascii_upper :: "char \<Rightarrow> bool" where
  "ascii_upper c \<longleftrightarrow> CHR ''A'' \<le> c \<and> c \<le> CHR ''Z''"

definition ascii_lower :: "char \<Rightarrow> bool" where
  "ascii_lower c \<longleftrightarrow> CHR ''a'' \<le> c \<and> c \<le> CHR ''z''"

definition ascii_alphabetic :: "char \<Rightarrow> bool" where
  "ascii_alphabetic c \<longleftrightarrow> ascii_upper c \<or> ascii_lower c"

definition ascii_digit :: "char \<Rightarrow> bool" where
  "ascii_digit c \<longleftrightarrow> CHR ''0'' \<le> c \<and> c \<le> CHR ''9''"

definition ascii_alphanumeric :: "char \<Rightarrow> bool" where
  "ascii_alphanumeric c \<longleftrightarrow> ascii_alphabetic c \<or> ascii_digit c"

definition is_ascii :: "string \<Rightarrow> bool" where
  "is_ascii s \<longleftrightarrow> list_all (\<lambda>c. (of_char c :: nat) < 128) s"

text \<open>Case folding of SQL \<^verbatim>\<open>lower\<close> and of the \<^verbatim>\<open>citext\<close> columns, on ASCII.\<close>

definition lower_char :: "char \<Rightarrow> char" where
  "lower_char c = (if ascii_upper c then char_of (of_char c + 32 :: nat) else c)"

definition lower :: "string \<Rightarrow> string" where
  "lower s = map lower_char s"

definition is_valid_username :: "string \<Rightarrow> bool" where
  "is_valid_username s \<longleftrightarrow> s \<noteq> [] \<and> list_all (\<lambda>b. ascii_alphanumeric b \<or> b = CHR ''_'') s"

fun split_once :: "char \<Rightarrow> string \<Rightarrow> (string \<times> string) option" where
  "split_once c [] = None"
| "split_once c (x # xs) =
     (if x = c then Some ([], xs) else map_option (\<lambda>(a, b). (x # a, b)) (split_once c xs))"

definition rsplit_once :: "char \<Rightarrow> string \<Rightarrow> (string \<times> string) option" where
  "rsplit_once c s = map_option (\<lambda>(a, b). (rev b, rev a)) (split_once c (rev s))"

definition is_storable_email :: "string \<Rightarrow> bool" where
  "is_storable_email email \<longleftrightarrow>
     (if 254 < length email \<or> \<not> is_ascii email then False
      else case split_once (CHR ''@'') email of
        None \<Rightarrow> False
      | Some (local, domain) \<Rightarrow>
         (case rsplit_once (CHR ''.'') domain of
            None \<Rightarrow> False
          | Some (host, tld) \<Rightarrow>
              local \<noteq> [] \<and>
              list_all (\<lambda>b. ascii_alphanumeric b \<or> b \<in> set ''._%+-'') local \<and>
              host \<noteq> [] \<and>
              list_all (\<lambda>b. ascii_alphanumeric b \<or> b \<in> set ''.-'') host \<and>
              2 \<le> length tld \<and> list_all ascii_alphabetic tld))"

section \<open>Sign-in attempts\<close>

datatype login_failure_reason =
    UnknownIdentifier | InvalidPassword | FailedEmailNotVerified | FailedAccountInactive
  | FailedAccountSuspended | FailedAccountDisabled | FailedTwoFactorRequired
  | FailedTwoFactor | RateLimited | FailedAccountLocked

record login_attempt =
  la_user_id :: "uuid option"
  la_attempted_at :: instant
  la_identifier :: string
  la_successful :: bool
  la_failure_reason :: "login_failure_reason option"
  la_request_ip :: "ipnetwork option"
  la_user_agent :: "string option"

record recent_failures =
  rf_by_ip :: int
  rf_distinct_identifiers_by_ip :: int
  rf_by_identifier :: int

text \<open>\<^verbatim>\<open>FailureCeilings\<close> has the same three fields.\<close>

definition reach :: "recent_failures \<Rightarrow> recent_failures \<Rightarrow> bool" where
  "reach recent ceilings \<longleftrightarrow>
     rf_by_ip ceilings \<le> rf_by_ip recent \<or>
     rf_distinct_identifiers_by_ip ceilings \<le> rf_distinct_identifiers_by_ip recent \<or>
     rf_by_identifier ceilings \<le> rf_by_identifier recent"

definition UNRECOGNIZED_IDENTIFIER :: string where
  "UNRECOGNIZED_IDENTIFIER = ''<unrecognized>''"

definition storable_identifier :: "string \<Rightarrow> string" where
  "storable_identifier typed =
     (if (3 \<le> length typed \<and> length typed \<le> 50 \<and> is_valid_username typed) \<or> is_storable_email typed
      then typed else UNRECOGNIZED_IDENTIFIER)"

section \<open>Second factors\<close>

datatype two_factor_type = Totp | Email

record two_factor_method =
  tf_id :: uuid
  tf_user_id :: uuid
  tf_created_at :: instant
  tf_method_type :: two_factor_type
  tf_is_primary :: bool
  tf_is_verified :: bool
  tf_totp_secret :: "string option"

record recovery_code =
  rc_id :: uuid
  rc_user_id :: uuid
  rc_created_at :: instant
  rc_expires_at :: "instant option"
  rc_used_at :: "instant option"
  rc_code_position :: int
  rc_code_hash :: bytes

record used_totp_code =
  ut_user_id :: uuid
  ut_code_hash :: bytes
  ut_used_at :: instant

record email_2fa_code =
  ec_id :: uuid
  ec_user_id :: uuid
  ec_code_hash :: bytes
  ec_created_at :: instant
  ec_expires_at :: instant
  ec_used_at :: "instant option"

text \<open>\<^verbatim>\<open>ChallengeMethod\<close> and \<^verbatim>\<open>PreAuthState\<close> of \<^verbatim>\<open>services/auth/mod.rs\<close>.\<close>

datatype challenge_method = ChallengeTotp | ChallengeEmail

fun challenge_method_as_str :: "challenge_method \<Rightarrow> string" where
  "challenge_method_as_str ChallengeTotp = ''totp''"
| "challenge_method_as_str ChallengeEmail = ''email''"

record pre_auth_state =
  pa_user_id :: uuid
  pa_remember_me :: bool
  pa_method :: "challenge_method option"

section \<open>Known devices\<close>

record device_family =
  df_browser :: string
  df_os :: string

definition describe :: "device_family \<Rightarrow> string" where
  "describe f = df_browser f @ '' on '' @ df_os f"

text \<open>What \<^verbatim>\<open>fingerprint\<close> hashes.\<close>

definition fingerprint_input :: "device_family \<Rightarrow> string" where
  "fingerprint_input f = df_browser f @ ''|'' @ df_os f"

fun contains_sub :: "string \<Rightarrow> string \<Rightarrow> bool" where
  "contains_sub pat [] = (pat = [])"
| "contains_sub pat (x # xs) = (take (length pat) (x # xs) = pat \<or> contains_sub pat xs)"

definition trim_ascii :: "string \<Rightarrow> string" where
  "trim_ascii s =
     rev (dropWhile (\<lambda>c. is_whitespace (of_char c)) (rev (dropWhile (\<lambda>c. is_whitespace (of_char c)) s)))"

definition device_family :: "string option \<Rightarrow> device_family" where
  "device_family user_agent =
     (let ua = trim_ascii (case user_agent of None \<Rightarrow> [] | Some s \<Rightarrow> s);
          has = (\<lambda>token. contains_sub token ua);
          os = (if has ''Android'' then ''Android''
                else if has ''iPhone'' \<or> has ''iPad'' \<or> has ''iPod'' then ''iOS''
                else if has ''CrOS'' then ''ChromeOS''
                else if has ''Windows'' then ''Windows''
                else if has ''Macintosh'' \<or> has ''Mac OS X'' then ''macOS''
                else if has ''Linux'' then ''Linux''
                else ''an unknown system'');
          browser = (if ua = [] then ''an unknown client''
                else if has ''Edg/'' \<or> has ''Edge/'' \<or> has ''EdgiOS'' \<or> has ''EdgA/'' then ''Edge''
                else if has ''OPR/'' \<or> has ''Opera'' then ''Opera''
                else if has ''Firefox/'' \<or> has ''FxiOS'' then ''Firefox''
                else if has ''SamsungBrowser'' then ''Samsung Internet''
                else if has ''Chrome/'' \<or> has ''CriOS'' then ''Chrome''
                else if has ''Safari/'' then ''Safari''
                else ''another client'')
      in \<lparr>df_browser = browser, df_os = os\<rparr>)"

record known_device =
  kd_user_id :: uuid
  kd_fingerprint :: bytes
  kd_first_seen_at :: instant
  kd_last_seen_at :: instant

section \<open>Audit log\<close>

text \<open>JSON values, as the metadata of the entries uses them.\<close>

datatype json = JNull | JBool bool | JNum int | JStr string | JUuid uuid | JArr "json list" | JObj "(string \<times> json) list"

datatype audit_action =
    AuditLogin | AuditLoginFailed | AuditLogout | AuditRegister | EmailVerificationSent
  | EmailVerified | PasswordChanged | PasswordResetRequested | PasswordResetCompleted
  | TwoFactorEnabled | TwoFactorDisabled | TwoFactorVerified | AuditTwoFactorFailed
  | RoleAssigned | RoleRevoked | SessionRevoked | SessionReplayDetected
  | SessionFamilyRevoked | AuditAccountSuspended | AccountReactivated
  | AuditRateLimitExceeded | SuspiciousLogin | NewDeviceLogin | AccountDeleted
  | Reauthenticated | UsernameChanged | RecoveryCodeUsed | EmailChanged
  | EncryptionKeyRotated | AccountUnlocked | PasswordResetForced | AccessFactorsRemoved
  | ClientAuthorized | DeviceApproved | DeviceDenied | AdminDataRead | RoleCreated
  | RoleDeleted | RolePermissionsChanged | ClientRegistered | ClientUpdated | ClientDeleted
  | DataExported | MagicLinkSent | PersonalAccessTokenCreated | PersonalAccessTokenRevoked
  | WebhookCreated | WebhookUpdated | WebhookDeleted | WebhookSecretRotated
  | ClientSecretRotated | PasskeyRegistered | PasskeyRemoved | ExternalIdentityLinked
  | ExternalIdentityUnlinked

record audit_entry =
  au_user_id :: "uuid option"
  au_request_id :: "uuid option"
  au_created_at :: instant
  au_action :: audit_action
  au_ip_address :: "ipnetwork option"
  au_metadata :: json

section \<open>Clients and scopes\<close>

record registered_client =
  cl_client_id :: string
  cl_display_name :: string
  cl_is_primary :: bool
  cl_scopes :: "string list"
  cl_redirect_uris :: "string list"
  cl_allows_loopback_redirect :: bool
  cl_default_max_sessions :: int
  cl_client_secret_hash :: "bytes option"
  cl_allows_client_credentials :: bool
  cl_allows_introspection :: bool

text \<open>\<^verbatim>\<open>session_limit\<close>: a quota row (its \<^verbatim>\<open>max_sessions\<close>) always applies.\<close>

definition session_limit :: "registered_client \<Rightarrow> int option \<Rightarrow> int option" where
  "session_limit c quota =
     (case quota of
        Some max_sessions \<Rightarrow> Some max_sessions
      | None \<Rightarrow> if cl_is_primary c then None else Some (cl_default_max_sessions c))"

definition granted :: "registered_client \<Rightarrow> string list \<Rightarrow> string list" where
  "granted c user_permissions =
     (if cl_scopes c = [] then user_permissions
      else filter (\<lambda>p. p \<in> set (cl_scopes c)) user_permissions)"

definition consented_scopes :: "registered_client \<Rightarrow> string list \<Rightarrow> string list option" where
  "consented_scopes c user_permissions =
     (if cl_scopes c \<noteq> [] then Some (granted c user_permissions) else None)"

definition restrict_to_consent ::
  "string list \<Rightarrow> string list \<Rightarrow> string list option \<Rightarrow> string list \<times> string list" where
  "restrict_to_consent roles permissions consent =
     (case consent of
        None \<Rightarrow> (roles, permissions)
      | Some cs \<Rightarrow> ([], filter (\<lambda>p. p \<in> set cs) permissions))"

definition is_valid_client_id :: "string \<Rightarrow> bool" where
  "is_valid_client_id s \<longleftrightarrow>
     1 \<le> length s \<and> length s \<le> 100 \<and> list_all (\<lambda>b. ascii_alphanumeric b \<or> b \<in> set ''._-'') s"

definition is_oidc_scope :: "string \<Rightarrow> bool" where
  "is_oidc_scope s \<longleftrightarrow> s \<in> set [''openid'', ''profile'', ''email'']"

definition within_client_scopes :: "string list option \<Rightarrow> string list option \<Rightarrow> string list option" where
  "within_client_scopes consented client_scopes =
     (case client_scopes of
        Some registered \<Rightarrow>
          if registered \<noteq> [] then
            Some (case consented of
                    Some cs \<Rightarrow> filter (\<lambda>s. is_oidc_scope s \<or> s \<in> set registered) cs
                  | None \<Rightarrow> registered)
          else consented
      | None \<Rightarrow> consented)"

section \<open>Access token claims\<close>

record claims =
  c_sub :: uuid
  c_sid :: uuid
  c_jti :: uuid
  c_exp :: int
  c_iat :: int
  c_nbf :: "int option"
  c_iss :: "string option"
  c_aud :: "string list"
  c_roles :: "string list"
  c_permissions :: "string list"
  c_client_id :: "string option"
  c_sub_type :: "string option"
  c_session_type :: "string option"

definition claims_new :: "uuid \<Rightarrow> uuid \<Rightarrow> uuid \<Rightarrow> int \<Rightarrow> int \<Rightarrow> claims" where
  "claims_new user_id session_id jti issued_at exp =
     \<lparr>c_sub = user_id, c_sid = session_id, c_jti = jti, c_exp = exp, c_iat = issued_at,
      c_nbf = Some issued_at, c_iss = None, c_aud = [], c_roles = [], c_permissions = [],
      c_client_id = None, c_sub_type = Some ''user'', c_session_type = None\<rparr>"

definition with_rbac :: "claims \<Rightarrow> string list \<Rightarrow> string list \<Rightarrow> claims" where
  "with_rbac c roles permissions = c\<lparr>c_roles := roles, c_permissions := permissions\<rparr>"

text \<open>\<^verbatim>\<open>check_time_claims\<close> and \<^verbatim>\<open>validate_iss_aud\<close>, each as whether it accepts.\<close>

definition check_time_claims :: "claims \<Rightarrow> int \<Rightarrow> bool" where
  "check_time_claims c now \<longleftrightarrow>
     \<not> c_exp c \<le> now \<and> \<not> (case c_nbf c of None \<Rightarrow> False | Some nbf \<Rightarrow> now < nbf)"

definition validate_iss_aud :: "claims \<Rightarrow> string \<Rightarrow> string \<Rightarrow> bool" where
  "validate_iss_aud c expected_iss expected_aud \<longleftrightarrow>
     c_iss c = Some expected_iss \<and> list_ex (\<lambda>a. a = expected_aud) (c_aud c)"

section \<open>One-time tokens\<close>

datatype token_verdict = TokenIsValid | TokenIsExpired | TokenIsUsed

record email_verification_token =
  ev_id :: uuid
  ev_user_id :: uuid
  ev_token_hash :: bytes
  ev_created_at :: instant
  ev_expires_at :: instant
  ev_used_at :: "instant option"
  ev_request_ip :: "ipnetwork option"
  ev_request_user_agent :: "string option"
  ev_target_email :: string
  ev_password_hash :: "string option"
  ev_username :: "string option"
  ev_preferred_locale :: "string option"

record password_reset_token =
  pr_id :: uuid
  pr_user_id :: uuid
  pr_token_hash :: bytes
  pr_created_at :: instant
  pr_expires_at :: instant
  pr_used_at :: "instant option"
  pr_request_ip :: "ipnetwork option"
  pr_request_user_agent :: "string option"

record magic_link_token =
  ml_id :: uuid
  ml_user_id :: uuid
  ml_token_hash :: bytes
  ml_created_at :: instant
  ml_expires_at :: instant
  ml_used_at :: "instant option"
  ml_request_ip :: "ipnetwork option"
  ml_request_user_agent :: "string option"

text \<open>Credentials a registration chose, carried by its verification link.\<close>

record pending_credentials =
  pc_password_hash :: string
  pc_username :: string
  pc_preferred_locale :: string

record username_reservation =
  rv_username :: string
  rv_expires_at :: instant
  rv_reserved_for :: uuid

section \<open>Other ways into an account\<close>

text \<open>Rows of \<^verbatim>\<open>repositories/passkey.rs\<close>, \<^verbatim>\<open>repositories/external_identity.rs\<close> and
  \<^verbatim>\<open>domain/personal_access_token.rs\<close>.\<close>

record passkey =
  pk_id :: uuid
  pk_user_id :: uuid
  pk_credential_id :: bytes
  pk_public_key :: bytes
  pk_algorithm :: int
  pk_sign_count :: int
  pk_aaguid :: uuid
  pk_name :: string
  pk_backup_eligible :: bool
  pk_backed_up :: bool
  pk_created_at :: instant
  pk_last_used_at :: "instant option"

record external_identity =
  ei_id :: uuid
  ei_user_id :: uuid
  ei_provider :: string
  ei_subject :: string
  ei_created_at :: instant
  ei_last_used_at :: "instant option"

record personal_access_token =
  pt_id :: uuid
  pt_user_id :: uuid
  pt_session_id :: uuid
  pt_name :: string
  pt_token_hash :: bytes
  pt_scopes :: "string list"
  pt_created_at :: instant
  pt_expires_at :: instant
  pt_last_used_at :: "instant option"

record authorization_code =
  ac_id :: uuid
  ac_code_hash :: bytes
  ac_user_id :: uuid
  ac_client_id :: string
  ac_redirect_uri :: string
  ac_code_challenge :: string
  ac_scopes :: "string list option"
  ac_expires_at :: instant
  ac_consumed_at :: "instant option"
  ac_session_id :: "uuid option"
  ac_nonce :: "string option"
  ac_auth_time :: instant

text \<open>The provided methods of the trait \<^verbatim>\<open>OneTimeToken\<close>, over its two accessors.\<close>

definition token_is_used :: "('t \<Rightarrow> instant option) \<Rightarrow> 't \<Rightarrow> bool" where
  "token_is_used used_at t \<longleftrightarrow> used_at t \<noteq> None"

definition token_is_expired :: "('t \<Rightarrow> instant) \<Rightarrow> 't \<Rightarrow> instant \<Rightarrow> bool" where
  "token_is_expired expires_at t now \<longleftrightarrow> expires_at t < now"

definition token_is_valid :: "('t \<Rightarrow> instant option) \<Rightarrow> ('t \<Rightarrow> instant) \<Rightarrow> 't \<Rightarrow> instant \<Rightarrow> bool" where
  "token_is_valid used_at expires_at t now \<longleftrightarrow>
     \<not> token_is_used used_at t \<and> \<not> token_is_expired expires_at t now"

definition token_verdict :: "('t \<Rightarrow> instant option) \<Rightarrow> ('t \<Rightarrow> instant) \<Rightarrow> 't \<Rightarrow> instant \<Rightarrow> token_verdict" where
  "token_verdict used_at expires_at t now =
     (if token_is_expired expires_at t now then TokenIsExpired
      else if token_is_used used_at t then TokenIsUsed
      else TokenIsValid)"

section \<open>Facts about identifiers and scopes\<close>

text \<open>A failed sign-in never records a blank identifier, which the table refuses.\<close>

lemma storable_identifier_not_empty: "storable_identifier s \<noteq> []"
  by (auto simp: storable_identifier_def is_valid_username_def is_storable_email_def
      UNRECOGNIZED_IDENTIFIER_def split: if_splits)

lemma storable_identifier_shape:
  "storable_identifier s = UNRECOGNIZED_IDENTIFIER \<or>
   (storable_identifier s = s \<and> (is_valid_username s \<or> is_storable_email s))"
  by (auto simp: storable_identifier_def)

lemma restrict_to_consent_subset:
  "restrict_to_consent roles perms consent = (rs, ps) \<Longrightarrow>
   set ps \<subseteq> set perms \<and> (case consent of None \<Rightarrow> rs = roles | Some cs \<Rightarrow> rs = [] \<and> set ps \<subseteq> set cs)"
  by (auto simp: restrict_to_consent_def split: option.splits)

lemma within_client_scopes_consent:
  "within_client_scopes (Some cs) reg = Some n \<Longrightarrow> set n \<subseteq> set cs"
  by (auto simp: within_client_scopes_def split: option.splits if_splits)

lemma within_client_scopes_registered:
  "within_client_scopes consent (Some reg) = n \<Longrightarrow> reg \<noteq> [] \<Longrightarrow>
   \<exists>ns. n = Some ns \<and> set ns \<subseteq> set reg \<union> {s. is_oidc_scope s}"
  by (auto simp: within_client_scopes_def split: option.splits)

end
