(* ===== verification/Keyring.thy ===== *)
theory Keyring
  imports Domain
begin

text \<open>
  Secrets at rest and one-time codes (\<^verbatim>\<open>utils/crypto.rs\<close>): the keyring that seals a
  secret to the row it belongs to and reads it back during a key rotation, the keyed
  digest of a one-time code, the rejection sampling behind the codes, and the printed
  forms of tokens and recovery codes.

  HMAC-SHA256, AES-256-GCM and base64 come from other crates: they are the fields of a
  record of primitives. What the keyring relies on is stated of them as
  \<open>sealing_cipher\<close>, from their documentation: what was sealed opens under the same key,
  nonce and associated data, and under no other associated data.
\<close>

section \<open>Bytes and text\<close>

definition bytes_of :: "string \<Rightarrow> bytes" where
  "bytes_of s = map (\<lambda>c. word_of_nat (of_char c)) s"

definition string_of :: "bytes \<Rightarrow> string" where
  "string_of bs = map (\<lambda>b. char_of (unat b)) bs"

text \<open>\<^verbatim>\<open>String::from_utf8\<close>: which byte strings are text (RFC 3629).\<close>

definition tail_byte :: "8 word \<Rightarrow> bool" where
  "tail_byte b \<longleftrightarrow> 128 \<le> unat b \<and> unat b < 192"

fun valid_utf8 :: "bytes \<Rightarrow> bool" where
  "valid_utf8 [] \<longleftrightarrow> True"
| "valid_utf8 (a # rest) \<longleftrightarrow>
     (if unat a < 128 then valid_utf8 rest
      else if 194 \<le> unat a \<and> unat a < 224 then
        (case rest of b # rest' \<Rightarrow> tail_byte b \<and> valid_utf8 rest' | _ \<Rightarrow> False)
      else if 224 \<le> unat a \<and> unat a < 240 then
        (case rest of b # c # rest' \<Rightarrow>
           tail_byte b \<and> tail_byte c \<and> (unat a = 224 \<longrightarrow> 160 \<le> unat b) \<and> (unat a = 237 \<longrightarrow> unat b < 160) \<and>
           valid_utf8 rest' | _ \<Rightarrow> False)
      else if 240 \<le> unat a \<and> unat a < 245 then
        (case rest of b # c # d # rest' \<Rightarrow>
           tail_byte b \<and> tail_byte c \<and> tail_byte d \<and> (unat a = 240 \<longrightarrow> 144 \<le> unat b) \<and>
           (unat a = 244 \<longrightarrow> unat b < 144) \<and> valid_utf8 rest' | _ \<Rightarrow> False)
      else False)"

definition hex_byte :: "8 word \<Rightarrow> string" where
  "hex_byte b = [digit_char (unat b div 16), digit_char (unat b mod 16)]"

definition upper_char :: "char \<Rightarrow> char" where
  "upper_char c = (if ascii_lower c then char_of (of_char c - 32 :: nat) else c)"

definition hex_byte_upper :: "8 word \<Rightarrow> string" where
  "hex_byte_upper b = map upper_char (hex_byte b)"

text \<open>Big-endian bytes of a number: \<^verbatim>\<open>u64::to_be_bytes\<close>, \<^verbatim>\<open>Uuid::as_bytes\<close>.\<close>

fun be_bytes :: "nat \<Rightarrow> nat \<Rightarrow> bytes" where
  "be_bytes 0 n = []"
| "be_bytes (Suc k) n = be_bytes k (n div 256) @ [word_of_nat (n mod 256)]"

definition uuid_bytes :: "uuid \<Rightarrow> bytes" where
  "uuid_bytes u = be_bytes 16 u"

section \<open>Primitives\<close>

record crypto_prims =
  hmac_sha256 :: "bytes \<Rightarrow> bytes \<Rightarrow> bytes"
  gcm_seal :: "bytes \<Rightarrow> bytes \<Rightarrow> bytes \<Rightarrow> bytes \<Rightarrow> bytes option"
  gcm_open :: "bytes \<Rightarrow> bytes \<Rightarrow> bytes \<Rightarrow> bytes \<Rightarrow> bytes option"
  b64_encode :: "bytes \<Rightarrow> string"
  b64_decode :: "string \<Rightarrow> bytes option"

text \<open>What is documented of AES-256-GCM (arguments: key, nonce, associated data,
  message) and base64.\<close>

definition sealing_cipher :: "crypto_prims \<Rightarrow> bool" where
  "sealing_cipher p \<longleftrightarrow>
     (\<forall>k n a m c. gcm_seal p k n a m = Some c \<longrightarrow>
        16 \<le> length c \<and> gcm_open p k n a c = Some m \<and> (\<forall>b. b \<noteq> a \<longrightarrow> gcm_open p k n b c = None)) \<and>
     (\<forall>bs. b64_decode p (b64_encode p bs) = Some bs)"

datatype crypto_error = Encryption | Decryption | InvalidKey | InvalidInput | UnknownKey

section \<open>AES-256-GCM\<close>

definition V2_PREFIX :: string where
  "V2_PREFIX = ''v2:''"

definition V2_AAD_LABEL :: bytes where
  "V2_AAD_LABEL = bytes_of ''auth-api v2:''"

definition v2_aad :: "bytes \<Rightarrow> bytes" where
  "v2_aad context = V2_AAD_LABEL @ context"

definition encrypt_with_aad :: "crypto_prims \<Rightarrow> bytes \<Rightarrow> string \<Rightarrow> bytes \<Rightarrow> bytes \<Rightarrow> crypto_error + string" where
  "encrypt_with_aad p nonce plaintext key aad =
     (case gcm_seal p key nonce aad (bytes_of plaintext) of
        None \<Rightarrow> Inl Encryption
      | Some ciphertext \<Rightarrow> Inr (b64_encode p (nonce @ ciphertext)))"

definition decrypt_with_aad :: "crypto_prims \<Rightarrow> string \<Rightarrow> bytes \<Rightarrow> bytes \<Rightarrow> crypto_error + string" where
  "decrypt_with_aad p encoded key aad =
     (case b64_decode p encoded of
        None \<Rightarrow> Inl InvalidInput
      | Some combined \<Rightarrow>
          if length combined < 28 then Inl InvalidInput
          else case gcm_open p key (take 12 combined) aad (drop 12 combined) of
            None \<Rightarrow> Inl Decryption
          | Some plaintext \<Rightarrow> if valid_utf8 plaintext then Inr (string_of plaintext) else Inl InvalidInput)"

section \<open>Keys\<close>

definition KID_INFO :: bytes where "KID_INFO = bytes_of ''key id''"
definition OTP_KEY_SALT :: bytes where "OTP_KEY_SALT = bytes_of ''auth-api keyring''"
definition OTP_KEY_INFO :: bytes where "OTP_KEY_INFO = bytes_of ''auth-api otp v1''"

definition hkdf_sha256 :: "crypto_prims \<Rightarrow> bytes \<Rightarrow> bytes \<Rightarrow> bytes \<Rightarrow> bytes" where
  "hkdf_sha256 p ikm salt info = (let prk = hmac_sha256 p salt ikm in hmac_sha256 p prk (info @ [1]))"

record key_entry =
  ke_kid :: string
  ke_key :: bytes
  ke_otp_key :: bytes

definition key_entry_new :: "crypto_prims \<Rightarrow> bytes \<Rightarrow> key_entry" where
  "key_entry_new p key =
     \<lparr>ke_kid = concat (map hex_byte (take 8 (hkdf_sha256 p key OTP_KEY_SALT KID_INFO))), ke_key = key,
      ke_otp_key = hkdf_sha256 p key OTP_KEY_SALT OTP_KEY_INFO\<rparr>"

text \<open>Each field is preceded by its length, as 8 big-endian bytes.\<close>

definition otp_input :: "string \<Rightarrow> bytes \<Rightarrow> string \<Rightarrow> bytes" where
  "otp_input purpose subject code =
     concat (map (\<lambda>field. be_bytes 8 (length field) @ field) [bytes_of purpose, subject, bytes_of code])"

definition entry_otp_digest :: "crypto_prims \<Rightarrow> key_entry \<Rightarrow> string \<Rightarrow> bytes \<Rightarrow> string \<Rightarrow> bytes" where
  "entry_otp_digest p k purpose subject code = hmac_sha256 p (ke_otp_key k) (otp_input purpose subject code)"

record keyring =
  kr_current :: key_entry
  kr_previous :: "key_entry option"

definition keyring_new :: "crypto_prims \<Rightarrow> bytes \<Rightarrow> bytes option \<Rightarrow> keyring" where
  "keyring_new p current previous =
     \<lparr>kr_current = key_entry_new p current, kr_previous = map_option (key_entry_new p) previous\<rparr>"

definition decode_encryption_key :: "crypto_prims \<Rightarrow> string \<Rightarrow> crypto_error + bytes" where
  "decode_encryption_key p b64 =
     (case b64_decode p b64 of
        None \<Rightarrow> Inl InvalidKey
      | Some bs \<Rightarrow> if length bs = 32 then Inr bs else Inl InvalidKey)"

definition keyring_from_base64 :: "crypto_prims \<Rightarrow> string \<Rightarrow> string option \<Rightarrow> crypto_error + keyring" where
  "keyring_from_base64 p current previous =
     (case decode_encryption_key p current of
        Inl e \<Rightarrow> Inl e
      | Inr key \<Rightarrow>
          (case previous of
             None \<Rightarrow> Inr (keyring_new p key None)
           | Some b64 \<Rightarrow>
               (case decode_encryption_key p b64 of Inl e \<Rightarrow> Inl e | Inr old \<Rightarrow> Inr (keyring_new p key (Some old)))))"

definition entries :: "keyring \<Rightarrow> key_entry list" where
  "entries k = kr_current k # (case kr_previous k of None \<Rightarrow> [] | Some e \<Rightarrow> [e])"

definition current_kid :: "keyring \<Rightarrow> string" where
  "current_kid k = ke_kid (kr_current k)"

definition kids :: "keyring \<Rightarrow> string list" where
  "kids k = map ke_kid (entries k)"

definition key_for :: "keyring \<Rightarrow> string \<Rightarrow> bytes option" where
  "key_for k kid = map_option ke_key (find (\<lambda>e. ke_kid e = kid) (entries k))"

section \<open>Secrets\<close>

definition strip_prefix :: "string \<Rightarrow> string \<Rightarrow> string option" where
  "strip_prefix pre s = (if take (length pre) s = pre then Some (drop (length pre) s) else None)"

definition keyring_encrypt :: "crypto_prims \<Rightarrow> keyring \<Rightarrow> bytes \<Rightarrow> string \<Rightarrow> bytes \<Rightarrow> crypto_error + string" where
  "keyring_encrypt p k nonce plaintext context =
     map_sum id (\<lambda>body. V2_PREFIX @ ke_kid (kr_current k) @ '':'' @ body)
       (encrypt_with_aad p nonce plaintext (ke_key (kr_current k)) (v2_aad context))"

definition keyring_decrypt :: "crypto_prims \<Rightarrow> keyring \<Rightarrow> string \<Rightarrow> bytes \<Rightarrow> crypto_error + string" where
  "keyring_decrypt p k stored context =
     (case strip_prefix V2_PREFIX stored of
        None \<Rightarrow> Inl InvalidInput
      | Some rest \<Rightarrow>
          (case split_once (CHR '':'') rest of
             None \<Rightarrow> Inl InvalidInput
           | Some (kid, body) \<Rightarrow>
               (case key_for k kid of
                  None \<Rightarrow> Inl UnknownKey
                | Some key \<Rightarrow> decrypt_with_aad p body key (v2_aad context))))"

definition needs_rotation :: "keyring \<Rightarrow> string \<Rightarrow> bool" where
  "needs_rotation k stored =
     (case Option.bind (strip_prefix V2_PREFIX stored) (split_once (CHR '':'')) of
        None \<Rightarrow> True
      | Some (kid, _) \<Rightarrow> kid \<noteq> ke_kid (kr_current k))"

definition knows_key_of :: "keyring \<Rightarrow> string \<Rightarrow> bool" where
  "knows_key_of k stored =
     (case Option.bind (strip_prefix V2_PREFIX stored) (split_once (CHR '':'')) of
        None \<Rightarrow> False
      | Some (kid, _) \<Rightarrow> key_for k kid \<noteq> None)"

definition otp_digest :: "crypto_prims \<Rightarrow> keyring \<Rightarrow> string \<Rightarrow> bytes \<Rightarrow> string \<Rightarrow> bytes" where
  "otp_digest p k purpose subject code = entry_otp_digest p (kr_current k) purpose subject code"

definition otp_digests :: "crypto_prims \<Rightarrow> keyring \<Rightarrow> string \<Rightarrow> bytes \<Rightarrow> string \<Rightarrow> bytes list" where
  "otp_digests p k purpose subject code = map (\<lambda>e. entry_otp_digest p e purpose subject code) (entries k)"

section \<open>Random values\<close>

text \<open>
  Rejection sampling over a supply of draws, from the \<open>n\<close>-th on; with the index of
  the draw after the accepted one. A supply that is rejected for ever gives None.
\<close>

definition sampling_zone :: "u32 \<Rightarrow> u32" where
  "sampling_zone bound = (- 1) - ((- 1) mod bound)"

partial_function (option) random_below :: "(nat \<Rightarrow> u32) \<Rightarrow> u32 \<Rightarrow> nat \<Rightarrow> (u32 \<times> nat) option" where
  "random_below rng bound n =
     (if rng n < sampling_zone bound then Some (rng n mod bound, Suc n)
      else random_below rng bound (Suc n))"

text \<open>\<^verbatim>\<open>format!("{:06}", n)\<close>\<close>

definition six_digits :: "nat \<Rightarrow> string" where
  "six_digits n = (let s = show_base 10 n in replicate (6 - length s) CHR ''0'' @ s)"

text \<open>Ten bytes as five groups of four upper-case digits.\<close>

fun recovery_groups :: "bytes \<Rightarrow> string list" where
  "recovery_groups (a # b # rest) = (hex_byte_upper a @ hex_byte_upper b) # recovery_groups rest"
| "recovery_groups _ = []"

fun join_dash :: "string list \<Rightarrow> string" where
  "join_dash [] = []"
| "join_dash [g] = g"
| "join_dash (g # gs) = g @ ''-'' @ join_dash gs"

definition recovery_code_text :: "bytes \<Rightarrow> string" where
  "recovery_code_text bs = join_dash (recovery_groups bs)"

section \<open>Facts about bytes\<close>

lemma string_of_bytes_of [simp]: "string_of (bytes_of s) = s"
proof -
  have "char_of (unat (word_of_nat (of_char c) :: 8 word)) = c" for c :: char
    by (simp add: unsigned_of_nat take_bit_eq_mod)
  then show ?thesis
    by (simp add: string_of_def bytes_of_def comp_def)
qed

lemma bytes_of_inj: "bytes_of s = bytes_of t \<longleftrightarrow> s = t"
  by (metis string_of_bytes_of)

lemma hex_byte_inj: "hex_byte a = hex_byte b \<longleftrightarrow> a = b"
proof
  assume eq: "hex_byte a = hex_byte b"
  have small: "unat x div 16 < 16" "unat x mod 16 < 16" for x :: "8 word"
    using unsigned_less [where ?'a = nat, of x] by (simp_all add: less_mult_imp_div_less)
  have "unat a div 16 = unat b div 16" "unat a mod 16 = unat b mod 16"
    using eq small digit_val_digit_char unfolding hex_byte_def by (metis list.inject)+
  then have "unat a = unat b" by (metis div_mult_mod_eq)
  then show "a = b" by (rule unsigned_word_eqI)
qed simp

lemma concat_hex_inj: "concat (map hex_byte xs) = concat (map hex_byte ys) \<Longrightarrow> xs = ys"
proof (induction xs arbitrary: ys)
  case Nil
  then show ?case by (cases ys) (auto simp: hex_byte_def)
next
  case (Cons x xs)
  then show ?case
    by (cases ys) (auto simp: hex_byte_def simp flip: hex_byte_inj)
qed

lemma hex_no_colon: "CHR '':'' \<notin> set (concat (map hex_byte bs))"
proof -
  have "unat x div 16 < 16" for x :: "8 word"
    using unsigned_less [where ?'a = nat, of x] by (simp add: less_mult_imp_div_less)
  then have "digit_char (unat x div 16) \<noteq> CHR '':''" "digit_char (unat x mod 16) \<noteq> CHR '':''" for x :: "8 word"
    using digit_char_plain [of "unat x div 16"] digit_char_plain [of "unat x mod 16"] by simp_all
  then show ?thesis
    by (auto simp: hex_byte_def) metis+
qed

lemma length_be_bytes [simp]: "length (be_bytes k n) = k"
  by (induction k arbitrary: n) simp_all

lemma be_bytes_inj: "m < 256 ^ k \<Longrightarrow> n < 256 ^ k \<Longrightarrow> be_bytes k m = be_bytes k n \<Longrightarrow> m = n"
proof (induction k arbitrary: m n)
  case (Suc k)
  have "m div 256 < 256 ^ k" "n div 256 < 256 ^ k"
    using Suc.prems by (simp_all add: less_mult_imp_div_less mult.commute)
  then have "m div 256 = n div 256"
    using Suc by simp
  moreover have "unat (word_of_nat (m mod 256) :: 8 word) = unat (word_of_nat (n mod 256) :: 8 word)"
    using Suc.prems(3) by simp
  then have "m mod 256 = n mod 256"
    by (simp add: unsigned_of_nat take_bit_eq_mod)
  ultimately show ?case
    by (metis div_mult_mod_eq)
qed simp

section \<open>The digest of a one-time code\<close>

lemma field_inj:
  assumes "be_bytes 8 (length a) @ a @ xs = be_bytes 8 (length b) @ b @ ys"
    and "length a < 2 ^ 64" "length b < 2 ^ 64"
  shows "a = b \<and> xs = ys"
proof -
  have "be_bytes 8 (length a) = be_bytes 8 (length b)" "a @ xs = b @ ys"
    using assms(1) by (simp_all add: append_eq_append_conv)
  moreover from this have "length a = length b"
    using be_bytes_inj [of "length a" 8 "length b"] assms(2,3) by simp
  ultimately show ?thesis
    by simp
qed

text \<open>C37: The digest of a one-time code is computed on its purpose, its subject and the code with
  no ambiguity: two triples that differ anywhere give the keyed hash different inputs. A code is
  bound to its flow and to its account, and to the sign-in challenge where the subject names one.\<close>

theorem otp_input_unambiguous:
  assumes "length a < 2 ^ 64" "length s < 2 ^ 64" "length c < 2 ^ 64"
    and "length b < 2 ^ 64" "length t < 2 ^ 64" "length d < 2 ^ 64"
  shows "otp_input a s c = otp_input b t d \<longleftrightarrow> a = b \<and> s = t \<and> c = d"
proof
  have len: "length (bytes_of x) = length x" for x
    by (simp add: bytes_of_def)
  assume "otp_input a s c = otp_input b t d"
  then have "be_bytes 8 (length (bytes_of a)) @ bytes_of a @ be_bytes 8 (length s) @ s @ be_bytes 8 (length (bytes_of c)) @ bytes_of c @ [] =
    be_bytes 8 (length (bytes_of b)) @ bytes_of b @ be_bytes 8 (length t) @ t @ be_bytes 8 (length (bytes_of d)) @ bytes_of d @ []"
    by (simp add: otp_input_def)
  then show "a = b \<and> s = t \<and> c = d"
    using assms len field_inj bytes_of_inj by metis
qed simp

theorem otp_input_unambiguous_witness:
  "otp_input ''email_2fa'' (uuid_bytes 1) ''123456'' \<noteq> otp_input ''email_2fa'' (uuid_bytes 2) ''123456''"
  using otp_input_unambiguous [of "''email_2fa''" "uuid_bytes 1" "''123456''" "''email_2fa''" "uuid_bytes 2" "''123456''"]
    be_bytes_inj [of 1 16 2]
  by (auto simp: uuid_bytes_def)

section \<open>Sealed secrets\<close>

lemma strip_prefix_append [simp]: "strip_prefix pre (pre @ s) = Some s"
  by (simp add: strip_prefix_def)

lemma split_once_append: "c \<notin> set a \<Longrightarrow> split_once c (a @ c # b) = Some (a, b)"
  by (induction a) auto

lemma kid_no_colon: "CHR '':'' \<notin> set (ke_kid (key_entry_new p key))"
  unfolding key_entry_new_def by (simp only: key_entry.select_convs hex_no_colon) simp

lemma sealed_parts:
  assumes "keyring_encrypt p (keyring_new p key prev) nonce plaintext context = Inr stored"
  obtains c where "gcm_seal p key nonce (v2_aad context) (bytes_of plaintext) = Some c"
    "strip_prefix V2_PREFIX stored = Some (ke_kid (key_entry_new p key) @ CHR '':'' # b64_encode p (nonce @ c))"
    "split_once (CHR '':'') (ke_kid (key_entry_new p key) @ CHR '':'' # b64_encode p (nonce @ c)) =
       Some (ke_kid (key_entry_new p key), b64_encode p (nonce @ c))"
  using assms split_once_append [OF kid_no_colon]
  by (auto simp: keyring_encrypt_def encrypt_with_aad_def keyring_new_def key_entry_new_def split: option.splits)

lemma decrypt_sealed:
  assumes "sealing_cipher p" "length nonce = 12" "gcm_seal p key nonce aad (bytes_of plaintext) = Some c"
  shows "valid_utf8 (bytes_of plaintext) \<Longrightarrow> decrypt_with_aad p (b64_encode p (nonce @ c)) key aad = Inr plaintext"
    and "aad' \<noteq> aad \<Longrightarrow> decrypt_with_aad p (b64_encode p (nonce @ c)) key aad' = Inl Decryption"
proof -
  have c: "16 \<le> length c" "gcm_open p key nonce aad c = Some (bytes_of plaintext)"
    "\<And>b. b \<noteq> aad \<Longrightarrow> gcm_open p key nonce b c = None"
    using assms(1,3) unfolding sealing_cipher_def by blast+
  have decode: "b64_decode p (b64_encode p bs) = Some bs" for bs
    using assms(1) by (simp add: sealing_cipher_def)
  show "valid_utf8 (bytes_of plaintext) \<Longrightarrow> decrypt_with_aad p (b64_encode p (nonce @ c)) key aad = Inr plaintext"
    and "aad' \<noteq> aad \<Longrightarrow> decrypt_with_aad p (b64_encode p (nonce @ c)) key aad' = Inl Decryption"
    using c assms(2) by (simp_all add: decrypt_with_aad_def decode)
qed

lemma key_for_new:
  "key_for (keyring_new p new old) (ke_kid (key_entry_new p key)) =
     (if ke_kid (key_entry_new p new) = ke_kid (key_entry_new p key) then Some new
      else case old of
        Some k \<Rightarrow> if ke_kid (key_entry_new p k) = ke_kid (key_entry_new p key) then Some k else None
      | None \<Rightarrow> None)"
  by (auto simp: key_for_def keyring_new_def entries_def key_entry_new_def split: option.split)

text \<open>C36: A sealed secret reads back, through a key rotation, and only in its own row. What the
  keyring encrypts for a row is read back for that row by every keyring with the same current key,
  and by one that holds the key as its previous key while a rotation runs, which then asks for the
  secret to be rewritten; a keyring that no longer holds the key refuses it as such; and for any
  other row it is refused.\<close>

theorem sealed_secret_round_trip:
  assumes "sealing_cipher p" "length nonce = 12" "valid_utf8 (bytes_of plaintext)"
    and seal: "keyring_encrypt p (keyring_new p key prev) nonce plaintext context = Inr stored"
    and kid: "ke_kid (key_entry_new p new) \<noteq> ke_kid (key_entry_new p key)"
  shows "keyring_decrypt p (keyring_new p key older) stored context = Inr plaintext \<and>
    \<not> needs_rotation (keyring_new p key older) stored \<and>
    keyring_decrypt p (keyring_new p new (Some key)) stored context = Inr plaintext \<and>
    needs_rotation (keyring_new p new (Some key)) stored \<and>
    keyring_decrypt p (keyring_new p new None) stored context = Inl UnknownKey \<and>
    (context' \<noteq> context \<longrightarrow> keyring_decrypt p (keyring_new p key older) stored context' = Inl Decryption)"
proof -
  obtain c where c: "gcm_seal p key nonce (v2_aad context) (bytes_of plaintext) = Some c"
    and parts: "strip_prefix V2_PREFIX stored = Some (ke_kid (key_entry_new p key) @ CHR '':'' # b64_encode p (nonce @ c))"
    "split_once (CHR '':'') (ke_kid (key_entry_new p key) @ CHR '':'' # b64_encode p (nonce @ c)) =
       Some (ke_kid (key_entry_new p key), b64_encode p (nonce @ c))"
    by (rule sealed_parts [OF seal])
  have reads: "decrypt_with_aad p (b64_encode p (nonce @ c)) key (v2_aad context) = Inr plaintext"
    by (rule decrypt_sealed(1) [OF assms(1,2) c assms(3)])
  have other: "decrypt_with_aad p (b64_encode p (nonce @ c)) key (v2_aad context') = Inl Decryption" if "context' \<noteq> context"
    by (rule decrypt_sealed(2) [OF assms(1,2) c]) (use that in \<open>simp add: v2_aad_def\<close>)
  show ?thesis
    using reads other kid
    by (simp add: keyring_decrypt_def needs_rotation_def parts key_for_new) (simp add: keyring_new_def)
qed

text \<open>A value without its row bound in is not read, whatever key it is under: no key rotation
  can rewrite it.\<close>

lemma older_formats_are_not_read:
  assumes "strip_prefix V2_PREFIX stored = None"
  shows "keyring_decrypt p k stored context = Inl InvalidInput \<and> needs_rotation k stored"
  using assms by (simp add: keyring_decrypt_def needs_rotation_def)

text \<open>Primitives for the examples: the hash keeps the last bytes, the cipher writes the
  associated data in front of the message, and base64 is the text of the bytes.\<close>

fun demo_frame :: "bytes \<Rightarrow> bytes" where
  "demo_frame [] = [1]"
| "demo_frame (b # bs) = 0 # b # demo_frame bs"

definition demo_prims :: crypto_prims where
  "demo_prims =
     \<lparr>hmac_sha256 = (\<lambda>k m. take 32 (rev m @ rev k @ replicate 32 0)),
      gcm_seal = (\<lambda>k n a m. Some (demo_frame a @ m @ replicate 16 0)),
      gcm_open = (\<lambda>k n a c. if take (length (demo_frame a)) c = demo_frame a
                            then Some (take (length c - length (demo_frame a) - 16) (drop (length (demo_frame a)) c)) else None),
      b64_encode = string_of, b64_decode = (\<lambda>s. Some (bytes_of s))\<rparr>"

lemma bytes_of_string_of [simp]: "bytes_of (string_of bs) = bs"
proof -
  have "word_of_nat (of_char (char_of (unat b) :: char)) = b" for b :: "8 word"
    using unsigned_less [where ?'a = nat, of b] by simp
  then show ?thesis
    by (simp add: string_of_def bytes_of_def comp_def)
qed

lemma demo_frame_prefix: "demo_frame a @ x = demo_frame b @ y \<Longrightarrow> a = b"
  by (induction a arbitrary: b; case_tac b; simp)

lemma demo_prims_seals:
  "gcm_seal demo_prims k n a m = Some (demo_frame a @ m @ replicate 16 0)"
  "gcm_open demo_prims k n a (demo_frame a @ m @ replicate 16 0) = Some m"
  "b64_decode demo_prims (b64_encode demo_prims bs) = Some bs"
  by (simp_all add: demo_prims_def)

lemma demo_prims_seal: "sealing_cipher demo_prims"
proof -
  have "take (length (demo_frame b)) (demo_frame a @ x) \<noteq> demo_frame b" if "b \<noteq> a" for a b x
    using that demo_frame_prefix append_take_drop_id [of "length (demo_frame b)" "demo_frame a @ x"] by metis
  then have "gcm_open demo_prims k n b (demo_frame a @ m @ replicate 16 0) = None" if "b \<noteq> a" for k n a b m
    using that unfolding demo_prims_def by (simp del: take_append)
  then show ?thesis
    unfolding sealing_cipher_def by (auto simp: demo_prims_seals)
qed

definition demo_key :: bytes where "demo_key = replicate 32 7"
definition demo_nonce :: bytes where "demo_nonce = replicate 12 5"

definition demo_stored :: string where
  "demo_stored = (case keyring_encrypt demo_prims (keyring_new demo_prims demo_key None) demo_nonce ''s'' (uuid_bytes 1) of
     Inr s \<Rightarrow> s | Inl _ \<Rightarrow> [])"

theorem sealed_secret_round_trip_witness:
  "keyring_decrypt demo_prims (keyring_new demo_prims (replicate 32 9) (Some demo_key)) demo_stored (uuid_bytes 1) = Inr ''s''"
proof -
  have "keyring_encrypt demo_prims (keyring_new demo_prims demo_key None) demo_nonce ''s'' (uuid_bytes 1) = Inr demo_stored"
    by (simp add: demo_stored_def keyring_encrypt_def encrypt_with_aad_def demo_prims_def)
  moreover have "ke_kid (key_entry_new demo_prims (replicate 32 9)) \<noteq> ke_kid (key_entry_new demo_prims demo_key)"
    by code_simp
  moreover have "valid_utf8 (bytes_of ''s'')"
    by code_simp
  ultimately show ?thesis
    using sealed_secret_round_trip [OF demo_prims_seal, of demo_nonce "''s''" demo_key None "uuid_bytes 1" demo_stored "replicate 32 9"]
    by (simp add: demo_nonce_def)
qed

section \<open>Sampling\<close>

lemma unat_zone:
  assumes "0 < bound"
  shows "unat (sampling_zone bound) = (2 ^ 32 - 1) div unat bound * unat bound"
proof -
  have "unat (- 1 :: u32) = 2 ^ 32 - 1"
    by (simp add: unsigned_minus_1_eq_mask mask_eq_exp_minus_1)
  moreover have "(- 1) mod bound \<le> - 1"
    by (rule word_order.extremum)
  ultimately have "unat (sampling_zone bound) = (2 ^ 32 - 1) - (2 ^ 32 - 1) mod unat bound"
    unfolding sampling_zone_def by (simp only: unat_sub unat_mod)
  then show ?thesis
    by (simp add: minus_mod_eq_div_mult)
qed

lemma card_unat: "card (unat ` D) = card D" for D :: "u32 set"
  by (rule card_image, rule inj_onI) (rule unsigned_word_eqI)

lemma residues: "0 < b \<Longrightarrow> r < b \<Longrightarrow> {k :: nat. k < q * b \<and> k mod b = r} = (\<lambda>i. i * b + r) ` {..<q}"
proof (intro equalityI subsetI)
  fix k assume "0 < b" "r < b" "k \<in> {k. k < q * b \<and> k mod b = r}"
  then have "k = k div b * b + r" "k div b < q"
    using div_mult_mod_eq [of k b] by (simp_all add: less_mult_imp_div_less)
  then show "k \<in> (\<lambda>i. i * b + r) ` {..<q}" by blast
next
  fix k assume b: "0 < b" "r < b" and "k \<in> (\<lambda>i. i * b + r) ` {..<q}"
  then obtain i where i: "k = i * b + r" "i < q" by auto
  then have "k < (i + 1) * b" using b by simp
  also have "\<dots> \<le> q * b" using i by (intro mult_right_mono) simp_all
  finally show "k \<in> {k. k < q * b \<and> k mod b = r}" using i b by simp
qed

lemma card_residues:
  assumes "0 < bound" "r < bound"
  shows "card {d. d < sampling_zone bound \<and> d mod bound = r} = (2 ^ 32 - 1) div unat bound"
proof -
  let ?q = "(2 ^ 32 - 1) div unat bound" and ?b = "unat bound"
  have b: "0 < ?b" "unat r < ?b"
    using assms by (simp_all add: word_less_nat_alt)
  have lt: "k < 2 ^ 32" if "k < ?q * ?b" for k
    using that div_times_less_eq_dividend [of "2 ^ 32 - 1 :: nat" ?b] by linarith
  have "unat ` {d. d < sampling_zone bound \<and> d mod bound = r} = {k. k < ?q * ?b \<and> k mod ?b = unat r}"
  proof (intro equalityI subsetI)
    fix k assume "k \<in> {k. k < ?q * ?b \<and> k mod ?b = unat r}"
    then show "k \<in> unat ` {d. d < sampling_zone bound \<and> d mod bound = r}"
      using lt [of k] unat_zone [OF assms(1)]
      by (intro image_eqI [of _ _ "word_of_nat k"])
        (auto simp: word_less_nat_alt unsigned_of_nat take_bit_eq_mod unat_mod intro!: unsigned_word_eqI [where ?'a = nat])
  qed (use unat_zone [OF assms(1)] in \<open>auto simp: word_less_nat_alt unat_mod\<close>)
  also have "\<dots> = (\<lambda>i. i * ?b + unat r) ` {..<?q}"
    by (rule residues [OF b])
  finally have "card (unat ` {d. d < sampling_zone bound \<and> d mod bound = r}) = ?q"
    using b by (simp add: card_image inj_on_def)
  then show ?thesis
    by (simp only: card_unat)
qed

lemma random_below_first:
  assumes "rng m < sampling_zone bound" "n \<le> m"
  shows "\<exists>k. n \<le> k \<and> k \<le> m \<and> rng k < sampling_zone bound \<and> (\<forall>i. n \<le> i \<and> i < k \<longrightarrow> \<not> rng i < sampling_zone bound) \<and>
    random_below rng bound n = Some (rng k mod bound, Suc k)"
  using assms(2)
proof (induction rule: inc_induct)
  case base
  then show ?case using assms(1) by (intro exI [of _ m]) (auto simp: random_below.simps)
next
  case (step n)
  show ?case
  proof (cases "rng n < sampling_zone bound")
    case True
    then show ?thesis using step.hyps by (intro exI [of _ n]) (auto simp: random_below.simps)
  next
    case False
    obtain k where k: "Suc n \<le> k" "k \<le> m" "rng k < sampling_zone bound"
      "\<forall>i. Suc n \<le> i \<and> i < k \<longrightarrow> \<not> rng i < sampling_zone bound"
      "random_below rng bound (Suc n) = Some (rng k mod bound, Suc k)"
      using step.IH by blast
    then have "\<not> rng i < sampling_zone bound" if "n \<le> i" "i < k" for i
      using that False by (cases "i = n") auto
    moreover have "random_below rng bound n = Some (rng k mod bound, Suc k)"
      using k False random_below.simps [of rng bound n] by simp
    ultimately show ?thesis
      using k by (intro exI [of _ k]) auto
  qed
qed



end
