(* ===== verification/Svc.thy ===== *)
theory Svc
  imports Prelude
begin

text \<open>
  The errors of the service (\<^verbatim>\<open>error.rs\<close>) and the actions its handlers are
  built from. An action reads and changes the state of the world and returns a
  value or an error, as an \<^verbatim>\<open>async fn\<close> returning \<^verbatim>\<open>Result\<close> does; the
  state is kept on both outcomes, so an error path shows what was written before
  it. \<open>bnd\<close> is the \<^verbatim>\<open>?\<close> operator, \<open>attempt\<close> a match on the
  result, \<open>map_err\<close> the method of that name.

  The second half is a small weakest precondition calculus for actions: the
  equations of the collection \<open>wp_simps\<close> reduce a claim on a handler to claims
  on its branches.
\<close>

section \<open>Errors\<close>

datatype app_error =
    Unauthorized
  | InvalidCredentials
  | TwoFactorFailed
  | TokenExpired
  | TokenInvalid
  | ReauthenticationFailed
  | Forbidden
  | EmailNotVerified
  | AccountSuspended
  | AccountInactive
  | AccountLocked
  | TwoFactorRequired
  | ReauthenticationRequired
  | FirstPartySessionRequired
  | SecondFactorSessionRequired
  | NotFound
  | Conflict string
  | Validation string
  | CaptchaFailed
  | PasswordCompromised
  | DeviceAuthPending
  | DeviceCodeExpired
  | DeviceAccessDenied
  | DeviceSlowDown
  | DeviceSessionLimitReached
  | DeviceClientNotAllowed
  | DeviceClientUnknown
  | InvalidAuthorizationCode
  | RateLimitExceeded
  | ServiceUnavailable string
  | Internal

text \<open>\<^verbatim>\<open>sqlx::Error\<close>: no row, a violated constraint, or a failed query.\<close>

datatype sql_error = RowNotFound | ConstraintViolation string | SqlFailed

text \<open>\<^verbatim>\<open>From<sqlx::Error>\<close>, and every \<^verbatim>\<open>map_err(|e| Internal(e.into()))\<close>.\<close>

definition internal :: "'e \<Rightarrow> app_error" where
  "internal e = Internal"

section \<open>Actions\<close>

type_synonym ('w, 'e, 'a) act = "'w \<Rightarrow> ('e + 'a) \<times> 'w"

definition ret :: "'a \<Rightarrow> ('w, 'e, 'a) act" where
  "ret x = (\<lambda>w. (Inr x, w))"

definition throw :: "'e \<Rightarrow> ('w, 'e, 'a) act" where
  "throw e = (\<lambda>w. (Inl e, w))"

definition bnd :: "('w, 'e, 'a) act \<Rightarrow> ('a \<Rightarrow> ('w, 'e, 'b) act) \<Rightarrow> ('w, 'e, 'b) act" where
  "bnd m k = (\<lambda>w. case m w of (Inl e, w') \<Rightarrow> (Inl e, w') | (Inr x, w') \<Rightarrow> k x w')"

definition seq :: "('w, 'e, 'a) act \<Rightarrow> ('w, 'e, 'b) act \<Rightarrow> ('w, 'e, 'b) act" where
  "seq m k = bnd m (\<lambda>_. k)"

definition attempt :: "('w, 'e, 'a) act \<Rightarrow> ('w, 'f, 'e + 'a) act" where
  "attempt m = (\<lambda>w. case m w of (r, w') \<Rightarrow> (Inr r, w'))"

definition map_err :: "('e \<Rightarrow> 'f) \<Rightarrow> ('w, 'e, 'a) act \<Rightarrow> ('w, 'f, 'a) act" where
  "map_err f m = (\<lambda>w. case m w of (Inl e, w') \<Rightarrow> (Inl (f e), w') | (Inr x, w') \<Rightarrow> (Inr x, w'))"

definition of_sum :: "'e + 'a \<Rightarrow> ('w, 'e, 'a) act" where
  "of_sum r = (\<lambda>w. (r, w))"

definition ok_or :: "'e \<Rightarrow> 'a option \<Rightarrow> ('w, 'e, 'a) act" where
  "ok_or e r = (case r of None \<Rightarrow> throw e | Some x \<Rightarrow> ret x)"

definition guard :: "bool \<Rightarrow> 'e \<Rightarrow> ('w, 'e, unit) act" where
  "guard b e = (if b then ret () else throw e)"

definition gets :: "('w \<Rightarrow> 'a) \<Rightarrow> ('w, 'e, 'a) act" where
  "gets f = (\<lambda>w. (Inr (f w), w))"

definition modify :: "('w \<Rightarrow> 'w) \<Rightarrow> ('w, 'e, unit) act" where
  "modify f = (\<lambda>w. (Inr (), f w))"

definition when_do :: "bool \<Rightarrow> ('w, 'e, unit) act \<Rightarrow> ('w, 'e, unit) act" where
  "when_do b m = (if b then m else ret ())"

text \<open>An error is dropped: \<^verbatim>\<open>let _ = ...\<close>, or logged only.\<close>

definition ignore :: "('w, 'e, 'a) act \<Rightarrow> ('w, 'f, unit) act" where
  "ignore m = (\<lambda>w. (Inr (), snd (m w)))"

fun for_each :: "'a list \<Rightarrow> ('a \<Rightarrow> ('w, 'e, unit) act) \<Rightarrow> ('w, 'e, unit) act" where
  "for_each [] f = ret ()"
| "for_each (x # xs) f = seq (f x) (for_each xs f)"

text \<open>
  A \<^verbatim>\<open>return Ok(x)\<close> out of a block: \<open>throw (Inl x)\<close> inside \<open>early\<close>, the errors of
  the block being \<open>Inr\<close>. Out of a transaction it drops it, uncommitted, as an error does.
\<close>

definition early :: "('w, 'a + 'e, 'a) act \<Rightarrow> ('w, 'e, 'a) act" where
  "early m = bnd (attempt m) (\<lambda>r. case r of Inr x \<Rightarrow> ret x | Inl (Inl x) \<Rightarrow> ret x | Inl (Inr e) \<Rightarrow> throw e)"

section \<open>Weakest preconditions\<close>

definition wp :: "('w, 'e, 'a) act \<Rightarrow> ('a \<Rightarrow> 'w \<Rightarrow> bool) \<Rightarrow> ('e \<Rightarrow> 'w \<Rightarrow> bool) \<Rightarrow> 'w \<Rightarrow> bool" where
  "wp m Q E w = (case m w of (Inl e, w') \<Rightarrow> E e w' | (Inr x, w') \<Rightarrow> Q x w')"

lemma wp_ret [wp_simps]: "wp (ret x) Q E w = Q x w"
  by (simp add: wp_def ret_def)

lemma wp_throw [wp_simps]: "wp (throw e) Q E w = E e w"
  by (simp add: wp_def throw_def)

lemma wp_bnd [wp_simps]: "wp (bnd m k) Q E w = wp m (\<lambda>x. wp (k x) Q E) E w"
  by (auto simp: wp_def bnd_def split: prod.splits sum.splits)

lemma wp_seq [wp_simps]: "wp (seq m k) Q E w = wp m (\<lambda>_. wp k Q E) E w"
  by (simp add: seq_def wp_bnd)

lemma wp_attempt [wp_simps]:
  "wp (attempt m) Q E w = wp m (\<lambda>x. Q (Inr x)) (\<lambda>e. Q (Inl e)) w"
  by (auto simp: wp_def attempt_def split: prod.splits sum.splits)

lemma wp_map_err [wp_simps]: "wp (map_err f m) Q E w = wp m Q (\<lambda>e. E (f e)) w"
  by (auto simp: wp_def map_err_def split: prod.splits sum.splits)

lemma wp_of_sum [wp_simps]: "wp (of_sum r) Q E w = (case r of Inl e \<Rightarrow> E e w | Inr x \<Rightarrow> Q x w)"
  by (simp add: wp_def of_sum_def)

lemma wp_ok_or [wp_simps]: "wp (ok_or e r) Q E w = (case r of None \<Rightarrow> E e w | Some x \<Rightarrow> Q x w)"
  by (simp add: ok_or_def wp_simps split: option.split)

lemma wp_guard [wp_simps]: "wp (guard b e) Q E w = (if b then Q () w else E e w)"
  by (simp add: guard_def wp_simps)

lemma wp_gets [wp_simps]: "wp (gets f) Q E w = Q (f w) w"
  by (simp add: wp_def gets_def)

lemma wp_modify [wp_simps]: "wp (modify f) Q E w = Q () (f w)"
  by (simp add: wp_def modify_def)

lemma wp_when_do [wp_simps]: "wp (when_do b m) Q E w = (if b then wp m Q E w else Q () w)"
  by (simp add: when_do_def wp_simps)

lemma wp_ignore [wp_simps]: "wp (ignore m) Q E w = wp m (\<lambda>_. Q ()) (\<lambda>_. Q ()) w"
  by (auto simp: wp_def ignore_def split: prod.splits sum.splits)

lemma wp_early [wp_simps]:
  "wp (early m) Q E w = wp m Q (\<lambda>r. case r of Inl x \<Rightarrow> Q x | Inr e \<Rightarrow> E e) w"
  by (auto simp: early_def wp_def bnd_def attempt_def ret_def throw_def split: prod.splits sum.splits)

lemma wp_if: "wp (if b then m else m') Q E w = (if b then wp m Q E w else wp m' Q E w)"
  by simp

lemma wp_mono:
  assumes "wp m Q E w" "\<And>x w'. Q x w' \<Longrightarrow> Q' x w'" "\<And>e w'. E e w' \<Longrightarrow> E' e w'"
  shows "wp m Q' E' w"
  using assms by (auto simp: wp_def split: prod.splits sum.splits)

lemma wp_conj: "wp m Q E w \<Longrightarrow> wp m Q' E' w \<Longrightarrow> wp m (\<lambda>x w. Q x w \<and> Q' x w) (\<lambda>e w. E e w \<and> E' e w) w"
  by (auto simp: wp_def split: prod.splits sum.splits)

lemma wp_True [simp]: "wp m (\<lambda>_ _. True) (\<lambda>_ _. True) w"
  by (simp add: wp_def split: prod.splits sum.splits)

lemma wp_ok: "wp m Q E w \<Longrightarrow> m w = (Inr x, w') \<Longrightarrow> Q x w'"
  by (simp add: wp_def)

lemma wp_err: "wp m Q E w \<Longrightarrow> m w = (Inl e, w') \<Longrightarrow> E e w'"
  by (simp add: wp_def)

lemma wpI: "(\<And>x w'. m w = (Inr x, w') \<Longrightarrow> Q x w') \<Longrightarrow> (\<And>e w'. m w = (Inl e, w') \<Longrightarrow> E e w') \<Longrightarrow> wp m Q E w"
  by (auto simp: wp_def split: prod.splits sum.splits)

text \<open>Where errors are all right, what precedes does not matter.\<close>

lemma wp_whatever:
  "(\<And>x w. wp (k x) Q (\<lambda>_ _. True) w) \<Longrightarrow> wp (bnd m k) Q (\<lambda>_ _. True) w"
  "(\<And>w. wp k' Q (\<lambda>_ _. True) w) \<Longrightarrow> wp (seq m' k') Q (\<lambda>_ _. True) w"
  unfolding wp_bnd wp_seq by (rule wp_mono [OF wp_True]; simp)+

lemma wp_cases:
  "(b \<Longrightarrow> wp m Q E w) \<Longrightarrow> (\<not> b \<Longrightarrow> wp m' Q E w) \<Longrightarrow> wp (if b then m else m') Q E w"
  "(\<And>x. wp (f x) Q E w) \<Longrightarrow> (\<And>y. wp (g y) Q E w) \<Longrightarrow> wp (case r of Inl x \<Rightarrow> f x | Inr y \<Rightarrow> g y) Q E w"
  by (auto split: sum.split)

lemma wp_mapped: "wp m Q (\<lambda>_ _. True) w \<Longrightarrow> wp (map_err f m) Q (\<lambda>_ _. True) w"
  by (simp add: wp_map_err)

lemma wp_seq_throw [simp]: "wp (seq m (throw e)) Q (\<lambda>_ _. True) w"
  by (rule wp_whatever) (simp add: wp_throw)

section \<open>Relations every action of a handler keeps\<close>

text \<open>
  \<open>keeps R m\<close>: whatever \<open>m\<close> returns, the state after is related to the
  state before. With a reflexive and transitive \<open>R\<close> it composes along a
  handler; instances are what best-effort calls leave alone and what no request
  undoes.
\<close>

definition keeps :: "('w \<Rightarrow> 'w \<Rightarrow> bool) \<Rightarrow> ('w, 'e, 'a) act \<Rightarrow> bool" where
  "keeps R m \<longleftrightarrow> (\<forall>w. R w (snd (m w)))"

lemma keepsD: "keeps R m \<Longrightarrow> R w (snd (m w))"
  by (simp add: keeps_def)

lemma keeps_result: "keeps R m \<Longrightarrow> m w = (r, w') \<Longrightarrow> R w w'"
  by (metis keeps_def snd_conv)

lemma keeps_wp:
  "keeps R m \<Longrightarrow> (\<And>x w'. R w w' \<Longrightarrow> Q x w') \<Longrightarrow> (\<And>e w'. R w w' \<Longrightarrow> E e w') \<Longrightarrow> wp m Q E w"
  by (auto intro!: wpI dest: keeps_result)

lemma keeps_iff_wp: "keeps R m \<longleftrightarrow> (\<forall>w. wp m (\<lambda>_. R w) (\<lambda>_. R w) w)"
  by (auto simp: keeps_def wp_def case_prod_beta split: sum.split prod.splits)

text \<open>Sequencing by what is known of the first action: a contract of its own, or a relation it
  keeps.\<close>

lemma wp_bnd_rule:
  assumes "wp m P F w" "\<And>x v. P x v \<Longrightarrow> wp (k x) Q E v" "\<And>e v. F e v \<Longrightarrow> E e v"
  shows "wp (bnd m k) Q E w"
  unfolding wp_bnd using assms by (rule wp_mono)

lemma wp_seq_rule:
  assumes "wp m P F w" "\<And>x v. P x v \<Longrightarrow> wp k Q E v" "\<And>e v. F e v \<Longrightarrow> E e v"
  shows "wp (seq m k) Q E w"
  unfolding wp_seq using assms by (rule wp_mono)

lemma wp_bnd_keeps:
  assumes "keeps R m" "\<And>x v. R w v \<Longrightarrow> wp (k x) Q E v" "\<And>e v. R w v \<Longrightarrow> E e v"
  shows "wp (bnd m k) Q E w"
  unfolding wp_bnd using assms by (rule keeps_wp)

lemma wp_seq_keeps:
  assumes "keeps R m" "\<And>v. R w v \<Longrightarrow> wp k Q E v" "\<And>e v. R w v \<Longrightarrow> E e v"
  shows "wp (seq m k) Q E w"
  unfolding wp_seq using assms by (rule keeps_wp)

lemma wp_keeps: "keeps R m \<Longrightarrow> wp m Q E w \<Longrightarrow> wp m (\<lambda>x v. R w v \<and> Q x v) (\<lambda>e v. R w v \<and> E e v) w"
  by (auto intro!: wp_conj keeps_wp)

locale step_relation =
  fixes R :: "'w \<Rightarrow> 'w \<Rightarrow> bool"
  assumes refl [simp, intro]: "R w w"
    and trans: "R u v \<Longrightarrow> R v w \<Longrightarrow> R u w"
begin

lemma keeps_ret: "keeps R (ret x)"
  by (simp add: keeps_def ret_def)

lemma keeps_throw: "keeps R (throw e)"
  by (simp add: keeps_def throw_def)

lemma keeps_bnd: "keeps R m \<Longrightarrow> (\<And>x. keeps R (k x)) \<Longrightarrow> keeps R (bnd m k)"
  unfolding keeps_def bnd_def by (auto split: prod.splits sum.splits) (metis snd_conv trans)+

lemma keeps_seq: "keeps R m \<Longrightarrow> keeps R k \<Longrightarrow> keeps R (seq m k)"
  by (simp add: seq_def keeps_bnd)

lemma keeps_attempt: "keeps R m \<Longrightarrow> keeps R (attempt m)"
  by (simp add: keeps_def attempt_def case_prod_beta)

lemma keeps_map_err: "keeps R m \<Longrightarrow> keeps R (map_err f m)"
  unfolding keeps_def map_err_def by (auto split: prod.splits sum.splits) (metis snd_conv)+

lemma keeps_of_sum: "keeps R (of_sum r)"
  by (simp add: keeps_def of_sum_def)

lemma keeps_ok_or: "keeps R (ok_or e r)"
  by (simp add: ok_or_def keeps_ret keeps_throw split: option.split)

lemma keeps_guard: "keeps R (guard b e)"
  by (simp add: guard_def keeps_ret keeps_throw)

lemma keeps_gets: "keeps R (gets f)"
  by (simp add: keeps_def gets_def)

lemma keeps_modify: "(\<And>w. R w (f w)) \<Longrightarrow> keeps R (modify f)"
  by (simp add: keeps_def modify_def)

lemma keeps_when_do: "keeps R m \<Longrightarrow> keeps R (when_do b m)"
  by (simp add: when_do_def keeps_ret)

lemma keeps_ignore: "keeps R m \<Longrightarrow> keeps R (ignore m)"
  by (simp add: keeps_def ignore_def)

lemma keeps_early: "keeps R m \<Longrightarrow> keeps R (early m)"
  unfolding early_def
  by (intro keeps_bnd keeps_attempt) (auto simp: keeps_ret keeps_throw split: sum.split)

lemma keeps_for_each: "(\<And>x. keeps R (f x)) \<Longrightarrow> keeps R (for_each xs f)"
  by (induction xs) (simp_all add: keeps_ret keeps_seq)

lemma keeps_if: "keeps R m \<Longrightarrow> keeps R m' \<Longrightarrow> keeps R (if b then m else m')"
  by simp

lemma keeps_option: "keeps R m \<Longrightarrow> (\<And>x. keeps R (k x)) \<Longrightarrow> keeps R (case r of None \<Rightarrow> m | Some x \<Rightarrow> k x)"
  by (simp split: option.split)

lemma keeps_sum: "(\<And>x. keeps R (h x)) \<Longrightarrow> (\<And>x. keeps R (k x)) \<Longrightarrow> keeps R (case r of Inl x \<Rightarrow> h x | Inr x \<Rightarrow> k x)"
  by (simp split: sum.split)

lemma keeps_prod: "(\<And>x y. keeps R (k x y)) \<Longrightarrow> keeps R (case p of (x, y) \<Rightarrow> k x y)"
  by (simp add: case_prod_beta)

lemma keeps_Let: "(\<And>x. keeps R (k x)) \<Longrightarrow> keeps R (let x = e in k x)"
  by simp

lemmas keeps_intros =
  keeps_prod keeps_Let keeps_ret keeps_throw keeps_bnd keeps_seq keeps_attempt keeps_map_err
  keeps_of_sum keeps_ok_or keeps_guard keeps_gets keeps_when_do keeps_ignore keeps_early
  keeps_for_each keeps_if keeps_option keeps_sum

end

section \<open>The errors of an action\<close>

text \<open>\<open>throws S m\<close>: an error of \<open>m\<close> is one of \<open>S\<close>; with nothing in \<open>S\<close>, \<open>m\<close> always
  returns a value, as a function without \<^verbatim>\<open>Result\<close> does.\<close>

definition throws :: "('e \<Rightarrow> bool) \<Rightarrow> ('w, 'e, 'a) act \<Rightarrow> bool" where
  "throws S m \<longleftrightarrow> (\<forall>w. wp m (\<lambda>_ _. True) (\<lambda>e _. S e) w)"

lemma throwsD: "throws S m \<Longrightarrow> m w = (Inl e, w') \<Longrightarrow> S e"
  unfolding throws_def by (blast dest: wp_err)

lemma throws_mono: "throws S m \<Longrightarrow> (\<And>e. S e \<Longrightarrow> S' e) \<Longrightarrow> throws S' m"
  unfolding throws_def by (auto intro: wp_mono)

lemma throws_bnd [throws_intros]: "throws S m \<Longrightarrow> (\<And>x. throws S (k x)) \<Longrightarrow> throws S (bnd m k)"
  unfolding throws_def wp_bnd by (auto intro: wp_mono)

lemma throws_seq [throws_intros]: "throws S m \<Longrightarrow> throws S k \<Longrightarrow> throws S (seq m k)"
  by (simp add: seq_def throws_bnd)

lemma throws_ret [throws_intros]: "throws S (ret x)"
  by (simp add: throws_def wp_ret)

lemma throws_throw [throws_intros]: "S e \<Longrightarrow> throws S (throw e)"
  by (simp add: throws_def wp_throw)

lemma throws_attempt [throws_intros]: "throws S (attempt m)"
  by (simp add: throws_def wp_attempt)

lemma throws_ignore [throws_intros]: "throws S (ignore m)"
  by (simp add: throws_def wp_ignore)

lemma throws_gets [throws_intros]: "throws S (gets f)"
  by (simp add: throws_def wp_gets)

lemma throws_modify [throws_intros]: "throws S (modify f)"
  by (simp add: throws_def wp_modify)

lemma throws_map_err: "throws (\<lambda>e. S (f e)) m \<Longrightarrow> throws S (map_err f m)"
  by (simp add: throws_def wp_map_err)

lemma throws_any: "(\<And>e. S e) \<Longrightarrow> throws S m"
  by (simp add: throws_def)

lemma throws_internal [throws_intros]: "S Internal \<Longrightarrow> throws S (map_err internal m)"
  by (intro throws_map_err throws_any) (simp add: internal_def)

lemma throws_of_sum [throws_intros]: "(\<And>e. r = Inl e \<Longrightarrow> S e) \<Longrightarrow> throws S (of_sum r)"
  by (simp add: throws_def wp_of_sum split: sum.split)

lemma throws_ok_or [throws_intros]: "S e \<Longrightarrow> throws S (ok_or e r)"
  by (simp add: throws_def wp_ok_or split: option.split)

lemma throws_guard [throws_intros]: "S e \<Longrightarrow> throws S (guard b e)"
  by (simp add: throws_def wp_guard)

lemma throws_when_do [throws_intros]: "throws S m \<Longrightarrow> throws S (when_do b m)"
  by (simp add: throws_def wp_when_do)

lemma throws_if [throws_intros]: "(b \<Longrightarrow> throws S m) \<Longrightarrow> (\<not> b \<Longrightarrow> throws S m') \<Longrightarrow> throws S (if b then m else m')"
  by simp

lemma throws_option [throws_intros]:
  "throws S m \<Longrightarrow> (\<And>x. throws S (k x)) \<Longrightarrow> throws S (case r of None \<Rightarrow> m | Some x \<Rightarrow> k x)"
  by (simp split: option.split)

lemma throws_sum [throws_intros]:
  "(\<And>x. throws S (h x)) \<Longrightarrow> (\<And>x. throws S (k x)) \<Longrightarrow> throws S (case r of Inl x \<Rightarrow> h x | Inr x \<Rightarrow> k x)"
  by (simp split: sum.split)

lemma throws_prod [throws_intros]: "(\<And>x y. throws S (k x y)) \<Longrightarrow> throws S (case p of (x, y) \<Rightarrow> k x y)"
  by (simp add: case_prod_beta)

lemma throws_Let [throws_intros]: "(\<And>x. throws S (k x)) \<Longrightarrow> throws S (let x = e in k x)"
  by simp

lemma throws_early [throws_intros]:
  "throws (\<lambda>r. case r of Inl _ \<Rightarrow> True | Inr e \<Rightarrow> S e) m \<Longrightarrow> throws S (early m)"
  unfolding throws_def wp_early
  by (rule allI, drule spec, erule wp_mono) (simp_all split: sum.splits)

lemma throws_for_each [throws_intros]: "(\<And>x. throws S (f x)) \<Longrightarrow> throws S (for_each xs f)"
  by (induction xs) (simp_all add: throws_ret throws_seq)

text \<open>After an action that never fails only the relation it keeps matters.\<close>

lemma wp_seq_total:
  assumes "throws (\<lambda>_. False) m" "keeps R m" "\<And>v. R w v \<Longrightarrow> wp k Q E v"
  shows "wp (seq m k) Q E w"
proof (rule wp_seq_rule)
  show "wp m (\<lambda>_ v. R w v) (\<lambda>_ _. False) w"
    using wp_keeps [OF assms(2), of "\<lambda>_ _. True" "\<lambda>_ _. False" w] assms(1) by (simp add: throws_def)
qed (use assms(3) in auto)

lemma wp_bnd_frame:
  assumes "keeps R m" "throws S m" "\<And>x v. R w v \<Longrightarrow> wp (k x) Q E v" "\<And>e v. R w v \<Longrightarrow> S e \<Longrightarrow> E e v"
  shows "wp (bnd m k) Q E w"
proof (rule wp_bnd_rule)
  show "wp m (\<lambda>_ v. R w v) (\<lambda>e v. R w v \<and> S e) w"
    using wp_keeps [OF assms(1), of "\<lambda>_ _. True" "\<lambda>e _. S e" w] assms(2) by (simp add: throws_def)
qed (use assms(3,4) in auto)

lemma wp_seq_throws: "throws (\<lambda>_. False) m \<Longrightarrow> (\<And>v. wp k Q E v) \<Longrightarrow> wp (seq m k) Q E w"
  by (rule wp_seq_total [where R = "\<lambda>_ _. True"]) (simp_all add: keeps_def)

lemma wp_no_throw: "throws (\<lambda>_. False) m \<Longrightarrow> wp m Q (\<lambda>_ _. True) w \<Longrightarrow> wp m Q E w"
  by (auto intro!: wpI dest: throwsD wp_ok)

section \<open>Histories\<close>

text \<open>A sequence of calls to an operation, each with its result: what a
  component sees of its callers, failures included.\<close>

fun history :: "('c \<Rightarrow> ('w, 'e, 'a) act) \<Rightarrow> 'c list \<Rightarrow> 'w \<Rightarrow> ('e + 'a) list \<times> 'w" where
  "history f [] w = ([], w)"
| "history f (c # cs) w =
     (case f c w of (r, w') \<Rightarrow> (case history f cs w' of (rs, w'') \<Rightarrow> (r # rs, w'')))"

lemma history_length [simp]: "length (fst (history f cs w)) = length cs"
  by (induction cs arbitrary: w) (simp_all add: case_prod_beta)

lemma history_invariant:
  assumes "I w" "\<And>c u. c \<in> set cs \<Longrightarrow> I u \<Longrightarrow> I (snd (f c u))"
  shows "I (snd (history f cs w))"
  using assms by (induction cs arbitrary: w) (simp_all add: case_prod_beta)

text \<open>Once \<open>I\<close> holds no call gives a result in \<open>P\<close>.\<close>

lemma history_never:
  assumes "I w" "\<And>c u. c \<in> set cs \<Longrightarrow> I u \<Longrightarrow> I (snd (f c u)) \<and> \<not> P c (fst (f c u))"
    and "i < length cs"
  shows "\<not> P (cs ! i) (fst (history f cs w) ! i)"
  using assms
proof (induction cs arbitrary: w i)
  case (Cons c cs)
  have "I (snd (f c w))" "\<not> P c (fst (f c w))"
    using Cons.prems by simp_all
  then show ?case
    using Cons.IH [of "snd (f c w)"] Cons.prems(2,3) by (cases i) (simp_all add: case_prod_beta)
qed simp

text \<open>In a state of the invariant \<open>J\<close> a result in \<open>P\<close> establishes \<open>I\<close>, so there is at most one.\<close>

lemma history_once:
  assumes "J w" "\<And>c u. c \<in> set cs \<Longrightarrow> J u \<Longrightarrow> J (snd (f c u))"
    and "\<And>c u. c \<in> set cs \<Longrightarrow> J u \<Longrightarrow> P c (fst (f c u)) \<Longrightarrow> I (snd (f c u))"
    and "\<And>c u. c \<in> set cs \<Longrightarrow> I u \<Longrightarrow> I (snd (f c u)) \<and> \<not> P c (fst (f c u))"
    and "i < j" "j < length cs" "P (cs ! i) (fst (history f cs w) ! i)"
  shows "\<not> P (cs ! j) (fst (history f cs w) ! j)"
  using assms
proof (induction cs arbitrary: w i j)
  case (Cons c cs)
  obtain k where j: "j = Suc k"
    using Cons.prems(5) by (cases j) auto
  show ?case
  proof (cases i)
    case 0
    then have "I (snd (f c w))"
      using Cons.prems(1,3,7) by (simp add: case_prod_beta)
    then show ?thesis
      using history_never [of I "snd (f c w)" cs f P k] Cons.prems(4,6) j by (simp add: case_prod_beta)
  next
    case (Suc i')
    then show ?thesis
      using Cons.IH [of "snd (f c w)" i' k] Cons.prems j by (simp add: case_prod_beta)
  qed
qed simp

end
