(* ===== verification/World.thy ===== *)
theory World
  imports Keyring Svc
begin

text \<open>
  The state the handlers act on: the tables of the database, the Redis store,
  the clocks, the supplies of identifiers and random tokens, the mails handed
  to the background mailer; and the calls by which a handler reaches them.

  Every call (a clock reading, a Redis command, a statement, the begin and the
  commit of a transaction) takes the next entry of a schedule: how much time
  passes, and whether the call succeeds, is refused, or takes effect with its
  answer lost. A statement about a handler is a statement for every schedule,
  so for every pattern of outages and delays; the empty schedule is a service
  with no failure in which no time passes.

  The three clocks advance together with constant offsets: the application
  clock (\<^verbatim>\<open>state.clock.now()\<close>), the database's \<^verbatim>\<open>NOW()\<close> (fixed at the
  start of a transaction), and the clock Redis expires keys by.
\<close>

section \<open>Tables\<close>

record role =
  ro_id :: uuid
  ro_created_at :: instant
  ro_is_default :: bool
  ro_name :: string
  ro_description :: "string option"

record permission =
  pe_id :: uuid
  pe_resource :: string
  pe_action :: string

definition permission_name :: "permission \<Rightarrow> string" where
  "permission_name p = pe_resource p @ '':'' @ pe_action p"

record user_role =
  ur_user_id :: uuid
  ur_role_id :: uuid
  ur_granted_by :: "uuid option"
  ur_granted_at :: instant

record outbox_event =
  ob_id :: uuid
  ob_subject :: string
  ob_payload :: json
  ob_created_at :: instant
  ob_published_at :: "instant option"

record webhook_endpoint =
  we_id :: uuid
  we_url :: string
  we_events :: "string list"
  we_enabled :: bool

record webhook_delivery =
  wd_endpoint_id :: uuid
  wd_event_id :: uuid
  wd_event_name :: string
  wd_payload :: json
  wd_occurred_at :: instant
  wd_attempts :: int
  wd_next_attempt_at :: instant
  wd_delivered_at :: "instant option"
  wd_failed_at :: "instant option"

record tables =
  users :: "user list"
  sessions :: "session list"
  login_attempts :: "login_attempt list"
  audit_log :: "audit_entry list"
  known_devices :: "known_device list"
  two_factor_methods :: "two_factor_method list"
  recovery_codes :: "recovery_code list"
  used_totp_codes :: "used_totp_code list"
  email_2fa_codes :: "email_2fa_code list"
  registered_clients :: "registered_client list"
  roles :: "role list"
  permissions :: "permission list"
  role_permissions :: "(uuid \<times> uuid) list"
  user_roles :: "user_role list"
  event_outbox :: "outbox_event list"
  webhook_endpoints :: "webhook_endpoint list"
  webhook_deliveries :: "webhook_delivery list"
  email_verification_tokens :: "email_verification_token list"
  password_reset_tokens :: "password_reset_token list"
  magic_link_tokens :: "magic_link_token list"
  username_reservations :: "username_reservation list"
  passkeys :: "passkey list"
  external_identities :: "external_identity list"
  personal_access_tokens :: "personal_access_token list"
  authorization_codes :: "authorization_code list"

definition empty_tables :: tables where
  "empty_tables =
     \<lparr>users = [], sessions = [], login_attempts = [], audit_log = [], known_devices = [],
      two_factor_methods = [], recovery_codes = [], used_totp_codes = [], email_2fa_codes = [],
      registered_clients = [], roles = [], permissions = [], role_permissions = [],
      user_roles = [], event_outbox = [], webhook_endpoints = [], webhook_deliveries = [],
      email_verification_tokens = [], password_reset_tokens = [], magic_link_tokens = [],
      username_reservations = [], passkeys = [], external_identities = [],
      personal_access_tokens = [], authorization_codes = []\<rparr>"

section \<open>Redis\<close>

text \<open>
  A key of the store: one constructor for each \<^verbatim>\<open>format!\<close> that builds one,
  with the values it interpolates.
\<close>

datatype rkey =
    RefreshFail string
  | RtBlock bytes
  | JtiBlock uuid
  | SessValid uuid
  | LoginTry uuid
  | LoginTryIp string
  | CsHll string
  | PreAuth string
  | TotpFail string
  | RcFail string
  | Email2faFail string
  | UserPreAuth uuid
  | UserFail string uuid
  | UserFailIp string uuid string
  | TotpUsed uuid string
  | Email2faCooldown uuid "string option"
  | Email2faSendUser uuid
  | Email2faResend string
  | Email2faResendUser uuid
  | Email2faSetupFail uuid
  | PressureNotice uuid
  | MailboxBudget string uuid
  | MailboxBudgetIp string uuid string
  | TokenSubmit string bytes
  | TokenSubmitIp string string
  | Reauth uuid
  | ReauthFail uuid
  | SessionReauthFail uuid uuid
  | EmailChangeActive uuid
  | EmailChangeFlow string
  | EmailChangeFail string
  | RegisterIp string
  | AccountExists uuid
  | VerificationIp string
  | VerificationAccount uuid
  | VerificationAccountIp uuid string
  | ForgotPasswordIp string
  | MagicLinkIp string
  | TotpSetupFail uuid
  | RcRegen uuid

datatype rval =
    RInt int
  | RState pre_auth_state
  | RUuid uuid
  | RStr string
  | RSet "string list"
  | RHll "string list"

type_synonym rstore = "rkey \<Rightarrow> (rval \<times> instant option) option"

text \<open>What is stored under a key that has not expired.\<close>

definition rget :: "instant \<Rightarrow> rstore \<Rightarrow> rkey \<Rightarrow> rval option" where
  "rget now r k =
     (case r k of
        None \<Rightarrow> None
      | Some (v, None) \<Rightarrow> Some v
      | Some (v, Some t) \<Rightarrow> if now < t then Some v else None)"

definition rexists :: "instant \<Rightarrow> rstore \<Rightarrow> rkey \<Rightarrow> bool" where
  "rexists now r k \<longleftrightarrow> rget now r k \<noteq> None"

definition rset :: "rkey \<Rightarrow> rval \<Rightarrow> rstore \<Rightarrow> rstore" where
  "rset k v r = r(k := Some (v, None))"

definition rset_ex :: "instant \<Rightarrow> rkey \<Rightarrow> rval \<Rightarrow> int \<Rightarrow> rstore \<Rightarrow> rstore" where
  "rset_ex now k v secs r = r(k := Some (v, Some (now + seconds secs)))"

text \<open>\<^verbatim>\<open>SET key value NX EX secs\<close>: whether it was set.\<close>

definition rset_nx_ex :: "instant \<Rightarrow> rkey \<Rightarrow> rval \<Rightarrow> int \<Rightarrow> rstore \<Rightarrow> bool \<times> rstore" where
  "rset_nx_ex now k v secs r =
     (if rexists now r k then (False, r) else (True, rset_ex now k v secs r))"

text \<open>\<^verbatim>\<open>DEL\<close> of one key: how many keys were removed.\<close>

definition rdel :: "instant \<Rightarrow> rkey \<Rightarrow> rstore \<Rightarrow> int \<times> rstore" where
  "rdel now k r = ((if rexists now r k then 1 else 0), r(k := None))"

fun rdel_all :: "rkey list \<Rightarrow> rstore \<Rightarrow> rstore" where
  "rdel_all [] r = r"
| "rdel_all (k # ks) r = rdel_all ks (r(k := None))"

text \<open>\<^verbatim>\<open>EXPIRE\<close>, on a live key.\<close>

definition rexpire :: "instant \<Rightarrow> rkey \<Rightarrow> int \<Rightarrow> rstore \<Rightarrow> rstore" where
  "rexpire now k secs r =
     (case rget now r k of None \<Rightarrow> r | Some v \<Rightarrow> r(k := Some (v, Some (now + seconds secs))))"

definition as_int :: "rval option \<Rightarrow> int" where
  "as_int v = (case v of Some (RInt n) \<Rightarrow> n | _ \<Rightarrow> 0)"

definition as_set :: "rval option \<Rightarrow> string list" where
  "as_set v = (case v of Some (RSet s) \<Rightarrow> s | _ \<Rightarrow> [])"

text \<open>\<^verbatim>\<open>INCRBY\<close> and \<^verbatim>\<open>DECRBY\<close>: a live key keeps its expiry, an absent or
  expired one starts from 0 with none.\<close>

definition rincr_by :: "instant \<Rightarrow> rkey \<Rightarrow> int \<Rightarrow> rstore \<Rightarrow> int \<times> rstore" where
  "rincr_by now k d r =
     (let n = as_int (rget now r k) + d;
          ttl = (if rexists now r k then snd (the (r k)) else None)
      in (n, r(k := Some (RInt n, ttl))))"

section \<open>The world\<close>

datatype outcome = Done | Refused | Lost

text \<open>
  A mail as it is handed to the templates, before addresses and times are
  printed in them.
\<close>

datatype mail_arg = AStr string | AIp "ipaddr option" | ATime instant | ANum int

record mail =
  m_kind :: string
  m_to :: string
  m_args :: "mail_arg list"

record world =
  real_now :: instant
  app_skew :: int
  db_skew :: int
  sched :: "(nat \<times> outcome) list"
  tables :: tables
  redis :: rstore
  uuids :: uuid
  draws :: nat
  mails :: "mail list"
  delays :: "nat list"

definition initial_world :: "tables \<Rightarrow> world" where
  "initial_world t =
     \<lparr>real_now = 0, app_skew = 0, db_skew = 0, sched = [], tables = t, redis = (\<lambda>_. None),
      uuids = 1000, draws = 0, mails = [], delays = []\<rparr>"

definition app_now :: "world \<Rightarrow> instant" where
  "app_now w = real_now w + app_skew w"

definition db_now :: "world \<Rightarrow> instant" where
  "db_now w = real_now w + db_skew w"

definition tick :: "world \<Rightarrow> world" where
  "tick w =
     (case sched w of
        [] \<Rightarrow> w
      | (dt, _) # rest \<Rightarrow> w\<lparr>real_now := real_now w + int dt, sched := rest\<rparr>)"

definition next_outcome :: "world \<Rightarrow> outcome" where
  "next_outcome w = (case sched w of [] \<Rightarrow> Done | (_, out) # _ \<Rightarrow> out)"

type_synonym ('e, 'a) svc = "(world, 'e, 'a) act"

section \<open>Calls\<close>

definition clock_now :: "('e, instant) svc" where
  "clock_now = (\<lambda>w. (Inr (app_now (tick w)), tick w))"

definition fresh_uuid :: "('e, uuid) svc" where
  "fresh_uuid = (\<lambda>w. (Inr (uuids w), w\<lparr>uuids := Suc (uuids w)\<rparr>))"

text \<open>One draw from the operating system's generator, as the supply \<open>f\<close> yields it.\<close>

definition draw :: "(nat \<Rightarrow> 'a) \<Rightarrow> ('e, 'a) svc" where
  "draw f = (\<lambda>w. (Inr (f (draws w)), w\<lparr>draws := Suc (draws w)\<rparr>))"

definition send_mail :: "mail \<Rightarrow> ('e, unit) svc" where
  "send_mail m = modify (\<lambda>w. w\<lparr>mails := mails w @ [m]\<rparr>)"

definition sleep_secs :: "nat \<Rightarrow> ('e, unit) svc" where
  "sleep_secs n = modify (\<lambda>w. w\<lparr>delays := delays w @ [n], real_now := real_now w + seconds (int n)\<rparr>)"

datatype redis_error = PoolUnavailable | QueryFailed

definition redis_conn :: "(redis_error, unit) svc" where
  "redis_conn = (\<lambda>w. (if next_outcome w = Done then Inr () else Inl PoolUnavailable, tick w))"

definition redis_cmd :: "(instant \<Rightarrow> rstore \<Rightarrow> 'a \<times> rstore) \<Rightarrow> (redis_error, 'a) svc" where
  "redis_cmd f = (\<lambda>w.
     let w' = tick w; (x, r) = f (real_now w') (redis w') in
     case next_outcome w of
       Done \<Rightarrow> (Inr x, w'\<lparr>redis := r\<rparr>)
     | Refused \<Rightarrow> (Inl QueryFailed, w')
     | Lost \<Rightarrow> (Inl QueryFailed, w'\<lparr>redis := r\<rparr>))"

text \<open>\<^verbatim>\<open>if let Ok(conn) = redis.get() { let _ = ...; }\<close>: a command whose failure is ignored.\<close>

definition redis_best_effort :: "(instant \<Rightarrow> rstore \<Rightarrow> rstore) \<Rightarrow> ('e, unit) svc" where
  "redis_best_effort f =
     bnd (attempt redis_conn) (\<lambda>conn.
       case conn of Inl _ \<Rightarrow> ret () | Inr _ \<Rightarrow> ignore (redis_cmd (\<lambda>now r. ((), f now r))))"

text \<open>A statement runs on the pool, by itself, or in a transaction begun at an instant.\<close>

datatype executor = Pool | Tx instant

definition stmt_now :: "executor \<Rightarrow> world \<Rightarrow> instant" where
  "stmt_now ex w = (case ex of Pool \<Rightarrow> db_now w | Tx t \<Rightarrow> t)"

text \<open>A statement that raises changes nothing.\<close>

definition db_stmt :: "executor \<Rightarrow> (instant \<Rightarrow> tables \<Rightarrow> (sql_error + 'a) \<times> tables) \<Rightarrow> (sql_error, 'a) svc" where
  "db_stmt ex f = (\<lambda>w.
     let w' = tick w in
     case f (stmt_now ex w') (tables w') of
       (Inl e, _) \<Rightarrow> (Inl (if next_outcome w = Done then e else SqlFailed), w')
     | (Inr x, t) \<Rightarrow>
        (case next_outcome w of
           Done \<Rightarrow> (Inr x, w'\<lparr>tables := t\<rparr>)
         | Refused \<Rightarrow> (Inl SqlFailed, w')
         | Lost \<Rightarrow> (Inl SqlFailed, w'\<lparr>tables := t\<rparr>)))"

definition db_read :: "executor \<Rightarrow> (instant \<Rightarrow> tables \<Rightarrow> 'a) \<Rightarrow> (sql_error, 'a) svc" where
  "db_read ex f = db_stmt ex (\<lambda>now t. (Inr (f now t), t))"

definition db_write :: "executor \<Rightarrow> (instant \<Rightarrow> tables \<Rightarrow> 'a \<times> tables) \<Rightarrow> (sql_error, 'a) svc" where
  "db_write ex f = db_stmt ex (\<lambda>now t. case f now t of (x, t') \<Rightarrow> (Inr x, t'))"

text \<open>
  \<open>in_tx err body\<close>: \<^verbatim>\<open>begin\<close>, the statements of \<open>body\<close>, \<^verbatim>\<open>commit\<close>. An error
  in the body drops the transaction, which rolls it back; so does a refused
  commit. A commit whose answer is lost has committed.
\<close>

definition in_tx :: "(sql_error \<Rightarrow> 'e) \<Rightarrow> (executor \<Rightarrow> ('e, 'a) svc) \<Rightarrow> ('e, 'a) svc" where
  "in_tx err body = (\<lambda>w0.
     let w = tick w0 in
     if next_outcome w0 \<noteq> Done then (Inl (err SqlFailed), w)
     else case body (Tx (db_now w)) w of
       (Inl e, w') \<Rightarrow> (Inl e, w'\<lparr>tables := tables w\<rparr>)
     | (Inr x, w') \<Rightarrow>
        (case next_outcome w' of
           Done \<Rightarrow> (Inr x, tick w')
         | Refused \<Rightarrow> (Inl (err SqlFailed), (tick w')\<lparr>tables := tables w\<rparr>)
         | Lost \<Rightarrow> (Inl (err SqlFailed), tick w')))"

section \<open>The configuration and the code outside the repository\<close>

text \<open>
  \<^verbatim>\<open>AppState\<close>: the settings the modelled handlers read, and the functions
  provided by other crates and services: SHA-256 and SHA-1, the random draws (the
  n-th draw of a supply; \<open>otp_index\<close> is what the sampling of \<^verbatim>\<open>random_below\<close>
  accepts), the parsing and checking of an Argon2 hash, the primitives of the keyring,
  the TOTP secrets and their check, the signature of a JWT, the HyperLogLog
  estimate, the answer of the breached-password service to a prefix.
\<close>

record app_state =
  access_expiry_secs :: u64
  refresh_expiry_secs :: u64
  short_session_expiry_secs :: u64
  strict_session_binding :: bool
  max_session_lifetime_secs :: u64
  audience :: "string list"
  public_url :: string
  lockout_threshold :: u32
  lockout_duration_secs :: u64
  sensitive_action_reauth_secs :: u64
  new_device_alerts :: bool
  captcha_secret :: "string option"
  magic_links :: bool
  registrations_per_ip_per_hour :: u32
  reset_revokes_factors_added_hours :: u32
  pwned_enabled :: bool
  pwned_fail_open :: bool
  recovery_code_expiry_days :: u32
  totp_issuer :: string
  totp_skew :: nat
  argon2_memory_kib :: u32
  argon2_iterations :: u32
  argon2_parallelism :: u32
  crypto_sha256 :: "string \<Rightarrow> bytes"
  generate_token :: "nat \<Rightarrow> string"
  otp_index :: "nat \<Rightarrow> u32"
  random_bytes :: "nat \<Rightarrow> bytes"
  random_index :: "nat \<Rightarrow> nat"
  phc_parse :: "string \<Rightarrow> (string \<times> (u32 \<times> u32 \<times> u32) option) option"
  argon2_verify :: "string \<Rightarrow> string \<Rightarrow> bool option"
  argon2_hash :: "nat \<Rightarrow> string \<Rightarrow> string option"
  crypto :: crypto_prims
  keyring_of :: keyring
  totp_secret :: "nat \<Rightarrow> string"
  crypto_sha1 :: "string \<Rightarrow> bytes"
  pwned_range :: "string \<Rightarrow> string option"
  totp_matches :: "string \<Rightarrow> nat \<Rightarrow> string \<Rightarrow> nat \<Rightarrow> bool option"
  jwt_encode :: "claims \<Rightarrow> string option"
  hll_estimate :: "string list \<Rightarrow> int"

definition session_ttl_secs :: "app_state \<Rightarrow> bool \<Rightarrow> u64" where
  "session_ttl_secs st remember_me =
     (if remember_me then refresh_expiry_secs st else short_session_expiry_secs st)"

section \<open>What the calls do\<close>

lemma tick_simps [simp]:
  "tables (tick w) = tables w" "redis (tick w) = redis w" "uuids (tick w) = uuids w"
  "draws (tick w) = draws w" "mails (tick w) = mails w" "delays (tick w) = delays w"
  "app_skew (tick w) = app_skew w" "db_skew (tick w) = db_skew w"
  by (simp_all add: tick_def split: list.split)

lemma tick_updates [simp]:
  "tick (w\<lparr>tables := t\<rparr>) = (tick w)\<lparr>tables := t\<rparr>" "tick (w\<lparr>redis := r\<rparr>) = (tick w)\<lparr>redis := r\<rparr>"
  "tick (w\<lparr>uuids := n\<rparr>) = (tick w)\<lparr>uuids := n\<rparr>" "tick (w\<lparr>draws := m\<rparr>) = (tick w)\<lparr>draws := m\<rparr>"
  "tick (w\<lparr>mails := ms\<rparr>) = (tick w)\<lparr>mails := ms\<rparr>"
  by (simp_all add: tick_def split: list.split)

lemma next_outcome_updates [simp]:
  "next_outcome (w\<lparr>tables := t\<rparr>) = next_outcome w" "next_outcome (w\<lparr>redis := r\<rparr>) = next_outcome w"
  "next_outcome (w\<lparr>uuids := n\<rparr>) = next_outcome w" "next_outcome (w\<lparr>draws := m\<rparr>) = next_outcome w"
  "next_outcome (w\<lparr>mails := ms\<rparr>) = next_outcome w"
  by (simp_all add: next_outcome_def)

lemma tick_real_now [simp]: "real_now w \<le> real_now (tick w)"
  by (simp add: tick_def split: list.split)

lemma app_now_tick [simp]: "app_now w \<le> app_now (tick w)"
  by (simp add: app_now_def)

lemma db_now_tick [simp]: "db_now w \<le> db_now (tick w)"
  by (simp add: db_now_def)

lemma tick_idle [simp]: "sched w = [] \<Longrightarrow> tick w = w"
  by (simp add: tick_def)

lemma next_outcome_idle [simp]: "sched w = [] \<Longrightarrow> next_outcome w = Done"
  by (simp add: next_outcome_def)

lemma now_of_updates [simp]:
  "app_now (w\<lparr>tables := t\<rparr>) = app_now w" "db_now (w\<lparr>tables := t\<rparr>) = db_now w"
  "app_now (w\<lparr>redis := r\<rparr>) = app_now w" "db_now (w\<lparr>redis := r\<rparr>) = db_now w"
  "app_now (w\<lparr>uuids := n\<rparr>) = app_now w" "db_now (w\<lparr>uuids := n\<rparr>) = db_now w"
  "app_now (w\<lparr>draws := n\<rparr>) = app_now w" "db_now (w\<lparr>draws := n\<rparr>) = db_now w"
  "app_now (w\<lparr>mails := m\<rparr>) = app_now w" "db_now (w\<lparr>mails := m\<rparr>) = db_now w"
  by (simp_all add: app_now_def db_now_def)

lemma stmt_now_updates [simp]:
  "stmt_now ex (w\<lparr>tables := t\<rparr>) = stmt_now ex w" "stmt_now ex (w\<lparr>redis := r\<rparr>) = stmt_now ex w"
  "stmt_now ex (w\<lparr>uuids := n\<rparr>) = stmt_now ex w" "stmt_now ex (w\<lparr>draws := m\<rparr>) = stmt_now ex w"
  "stmt_now ex (w\<lparr>mails := ms\<rparr>) = stmt_now ex w"
  by (simp_all add: stmt_now_def split: executor.split)

lemma wp_clock_now [wp_simps]: "wp clock_now Q E w = Q (app_now (tick w)) (tick w)"
  by (simp add: wp_def clock_now_def)

lemma wp_fresh_uuid [wp_simps]: "wp fresh_uuid Q E w = Q (uuids w) (w\<lparr>uuids := Suc (uuids w)\<rparr>)"
  by (simp add: wp_def fresh_uuid_def)

lemma wp_draw [wp_simps]: "wp (draw f) Q E w = Q (f (draws w)) (w\<lparr>draws := Suc (draws w)\<rparr>)"
  by (simp add: wp_def draw_def)

lemma wp_redis_conn [wp_simps]:
  "wp redis_conn Q E w = (if next_outcome w = Done then Q () (tick w) else E PoolUnavailable (tick w))"
  by (simp add: wp_def redis_conn_def)

lemma wp_redis_cmd [wp_simps]:
  "wp (redis_cmd f) Q E w =
     (let r = f (real_now (tick w)) (redis w) in
      case next_outcome w of
        Done \<Rightarrow> Q (fst r) ((tick w)\<lparr>redis := snd r\<rparr>)
      | Refused \<Rightarrow> E QueryFailed (tick w)
      | Lost \<Rightarrow> E QueryFailed ((tick w)\<lparr>redis := snd r\<rparr>))"
  by (simp add: wp_def redis_cmd_def Let_def case_prod_beta split: outcome.split)

lemma wp_redis_best_effort [wp_simps]:
  "wp (redis_best_effort f) Q E w =
     (if next_outcome w = Done then
        (if next_outcome (tick w) = Refused then Q () (tick (tick w))
         else Q () ((tick (tick w))\<lparr>redis := f (real_now (tick (tick w))) (redis w)\<rparr>))
      else Q () (tick w))"
  by (simp add: redis_best_effort_def wp_simps Let_def split: outcome.split)

lemma wp_db_read [wp_simps]:
  "wp (db_read ex f) Q E w =
     (if next_outcome w = Done then Q (f (stmt_now ex (tick w)) (tables w)) (tick w)
      else E SqlFailed (tick w))"
proof -
  have same: "(tick w)\<lparr>tables := tables w\<rparr> = tick w"
    by (metis tick_simps(1) world.surjective world.update_convs(5))
  show ?thesis
    by (simp add: wp_def db_read_def db_stmt_def Let_def same split: outcome.split)
qed

lemma wp_db_write [wp_simps]:
  "wp (db_write ex f) Q E w =
     (let r = f (stmt_now ex (tick w)) (tables w) in
      case next_outcome w of
        Done \<Rightarrow> Q (fst r) ((tick w)\<lparr>tables := snd r\<rparr>)
      | Refused \<Rightarrow> E SqlFailed (tick w)
      | Lost \<Rightarrow> E SqlFailed ((tick w)\<lparr>tables := snd r\<rparr>))"
  by (simp add: wp_def db_write_def db_stmt_def Let_def case_prod_beta split: outcome.split)

text \<open>The equation for \<^const>\<open>db_stmt\<close> itself: a raised error changes nothing.\<close>

lemma wp_db_stmt:
  "wp (db_stmt ex f) Q E w =
     (case f (stmt_now ex (tick w)) (tables w) of
        (Inl e, _) \<Rightarrow> E (if next_outcome w = Done then e else SqlFailed) (tick w)
      | (Inr x, t) \<Rightarrow>
         (case next_outcome w of
            Done \<Rightarrow> Q x ((tick w)\<lparr>tables := t\<rparr>)
          | Refused \<Rightarrow> E SqlFailed (tick w)
          | Lost \<Rightarrow> E SqlFailed ((tick w)\<lparr>tables := t\<rparr>)))"
  by (simp add: wp_def db_stmt_def Let_def split: outcome.split prod.split sum.split)

lemma wp_in_tx:
  "wp (in_tx err body) Q E w0 =
     (if next_outcome w0 \<noteq> Done then E (err SqlFailed) (tick w0)
      else wp (body (Tx (db_now (tick w0))))
        (\<lambda>x w'. case next_outcome w' of
            Done \<Rightarrow> Q x (tick w')
          | Refused \<Rightarrow> E (err SqlFailed) ((tick w')\<lparr>tables := tables w0\<rparr>)
          | Lost \<Rightarrow> E (err SqlFailed) (tick w'))
        (\<lambda>e w'. E e (w'\<lparr>tables := tables w0\<rparr>)) (tick w0))"
  by (simp add: wp_def in_tx_def Let_def split: outcome.split prod.split sum.split)

section \<open>Frames\<close>

text \<open>Time does not run backwards and no identifier or draw is used twice.\<close>

definition later :: "world \<Rightarrow> world \<Rightarrow> bool" where
  "later w w' \<longleftrightarrow>
     real_now w \<le> real_now w' \<and> app_skew w' = app_skew w \<and> db_skew w' = db_skew w \<and>
     uuids w \<le> uuids w' \<and> draws w \<le> draws w'"

text \<open>The database is left alone.\<close>

definition same_db :: "world \<Rightarrow> world \<Rightarrow> bool" where
  "same_db w w' \<longleftrightarrow> tables w' = tables w \<and> later w w'"

lemma same_db_tables: "same_db w w' \<Longrightarrow> tables w' = tables w"
  by (simp add: same_db_def)

lemma same_db_later: "same_db w w' \<Longrightarrow> later w w'"
  by (simp add: same_db_def)

lemma same_db_tick [simp]: "same_db w (tick w)"
  by (simp add: same_db_def later_def)

lemma same_db_updates [simp]:
  "same_db w (w\<lparr>redis := r\<rparr>)" "same_db w ((tick w)\<lparr>redis := r\<rparr>)"
  by (simp_all add: same_db_def later_def)

text \<open>
  A relation on worlds that a call leaving the database alone respects and that
  never runs backwards: then a transaction respects it as soon as its body does,
  committed or rolled back.
\<close>

locale db_relation = step_relation R for R :: "world \<Rightarrow> world \<Rightarrow> bool" +
  assumes same_db_within: "same_db w w' \<Longrightarrow> R w w'"
    and forward: "R w w' \<Longrightarrow> later w w'"
begin

lemma keeps_same_db: "keeps same_db m \<Longrightarrow> keeps R m"
  by (simp add: keeps_def same_db_within)

lemma rollback: "R w w' \<Longrightarrow> R w (w'\<lparr>tables := tables w\<rparr>)"
  by (rule same_db_within) (use forward [of w w'] in \<open>simp add: same_db_def later_def\<close>)

lemma keeps_later: "keeps R m \<Longrightarrow> keeps later m"
  by (simp add: keeps_def forward)

lemma keeps_stmt:
  assumes "\<And>w now x t'. g now (tables w) = (Inr x, t') \<Longrightarrow> R w (w\<lparr>tables := t'\<rparr>)"
  shows "keeps R (db_stmt ex g)"
  unfolding keeps_def
proof
  fix w
  have idle: "R w (tick w)"
    by (rule same_db_within) simp
  show "R w (snd (db_stmt ex g w))"
  proof (cases "g (stmt_now ex (tick w)) (tables w)")
    case (Pair r t')
    then show ?thesis
    proof (cases r)
      case (Inr x)
      then have "R (tick w) ((tick w)\<lparr>tables := t'\<rparr>)"
        using assms [of "stmt_now ex (tick w)" "tick w" x t'] Pair by simp
      then have "R w ((tick w)\<lparr>tables := t'\<rparr>)"
        using idle trans by blast
      then show ?thesis
        using Pair Inr idle by (simp add: db_stmt_def Let_def split: outcome.split)
    qed (simp add: db_stmt_def Let_def idle)
  qed
qed

lemma keeps_write:
  assumes "\<And>w now. R w (w\<lparr>tables := snd (g now (tables w))\<rparr>)"
  shows "keeps R (db_write ex g)"
  unfolding db_write_def using assms by (intro keeps_stmt) (auto simp: case_prod_beta)

lemma keeps_in_tx:
  assumes "\<And>ex. keeps R (body ex)"
  shows "keeps R (in_tx err body)"
  unfolding keeps_def
proof
  fix w
  obtain r w' where run: "body (Tx (db_now (tick w))) (tick w) = (r, w')"
    by (cases "body (Tx (db_now (tick w))) (tick w)")
  have idle: "R u (tick u)" for u
    by (rule same_db_within) simp
  have body: "R w w'"
    by (rule trans [OF idle keeps_result [OF assms run]])
  show "R w (snd (in_tx err body w))"
    using idle [of w] trans [OF body idle] rollback [OF body] rollback [OF trans [OF body idle]]
    by (simp add: in_tx_def Let_def run split: outcome.split sum.split)
qed

end

interpretation lt: db_relation later
  by unfold_locales (auto simp: later_def same_db_def)

interpretation sd: db_relation same_db
  by unfold_locales (auto simp: same_db_def later_def)

lemma same_db_then_tick: "same_db w v \<Longrightarrow> same_db w (tick v)"
  by (erule sd.trans) simp

lemma same_dbD: "same_db w v \<Longrightarrow> tables v = tables w" "same_db w v \<Longrightarrow> later w v"
  by (simp_all add: same_db_def)

lemma keeps_clock_now [frame_intros]: "keeps same_db clock_now"
  by (simp add: keeps_def clock_now_def)

lemma keeps_fresh_uuid [frame_intros]: "keeps same_db fresh_uuid"
  by (simp add: keeps_def fresh_uuid_def same_db_def later_def)

lemma keeps_draw [frame_intros]: "keeps same_db (draw f)"
  by (simp add: keeps_def draw_def same_db_def later_def)

lemma keeps_send_mail [frame_intros]: "keeps same_db (send_mail m)"
  by (simp add: keeps_def send_mail_def modify_def same_db_def later_def)

lemma keeps_sleep_secs [frame_intros]: "keeps same_db (sleep_secs n)"
  by (simp add: keeps_def sleep_secs_def modify_def same_db_def later_def)

lemma keeps_redis_conn [frame_intros]: "keeps same_db redis_conn"
  by (simp add: keeps_def redis_conn_def)

lemma keeps_redis_cmd [frame_intros]: "keeps same_db (redis_cmd f)"
  by (simp add: keeps_def redis_cmd_def Let_def case_prod_beta split: outcome.split)

lemma keeps_db_read [frame_intros]: "keeps same_db (db_read ex f)"
proof -
  have "same_db w ((tick w)\<lparr>tables := tables w\<rparr>)" for w
    by (simp add: same_db_def later_def)
  then show ?thesis
    by (simp add: keeps_def db_read_def db_stmt_def Let_def split: outcome.split)
qed

lemma keeps_redis_best_effort [frame_intros]: "keeps same_db (redis_best_effort f)"
  unfolding redis_best_effort_def
  by (intro sd.keeps_bnd sd.keeps_attempt sd.keeps_sum sd.keeps_ret sd.keeps_ignore keeps_redis_conn keeps_redis_cmd)

lemmas same_db_intros = frame_intros sd.keeps_intros

text \<open>
  A part \<open>f\<close> of the database is left alone: the frame of a write that touches
  the other tables, inside a transaction or not.
\<close>

definition same_of :: "(tables \<Rightarrow> 'b) \<Rightarrow> world \<Rightarrow> world \<Rightarrow> bool" where
  "same_of f w w' \<longleftrightarrow> f (tables w') = f (tables w) \<and> later w w'"

interpretation so: db_relation "same_of f" for f :: "tables \<Rightarrow> 'b"
  by unfold_locales (auto simp: same_of_def later_def same_db_def)

lemma keeps_same_of_stmt: "(\<And>now t. f (snd (g now t)) = f t) \<Longrightarrow> keeps (same_of f) (db_stmt ex g)"
  by (rule so.keeps_stmt) (force simp: same_of_def later_def dest: arg_cong [of _ _ snd])

lemma keeps_same_of_write: "(\<And>now t. f (snd (g now t)) = f t) \<Longrightarrow> keeps (same_of f) (db_write ex g)"
  by (rule so.keeps_write) (simp add: same_of_def later_def)

lemma keeps_later_db_stmt: "keeps later (db_stmt ex f)"
  by (simp add: keeps_def db_stmt_def Let_def later_def split: outcome.split prod.split sum.split)

lemma keeps_later_db_write: "keeps later (db_write ex f)"
  by (simp add: db_write_def keeps_later_db_stmt)

lemma later_now: "later w w' \<Longrightarrow> app_now w \<le> app_now w' \<and> db_now w \<le> db_now w'"
  by (simp add: later_def app_now_def db_now_def)

section \<open>The errors of the calls\<close>

lemma throws_calls [throws_intros]:
  "throws S clock_now" "throws S fresh_uuid" "throws S (draw f)" "throws S (send_mail m)" "throws S (sleep_secs n)"
  "throws S (redis_best_effort g)"
  by (auto simp: throws_def clock_now_def fresh_uuid_def draw_def send_mail_def sleep_secs_def wp_def modify_def
      redis_best_effort_def bnd_def attempt_def ignore_def ret_def split: prod.split sum.split)

lemma throws_in_tx [throws_intros]:
  "(\<And>ex. throws S (body ex)) \<Longrightarrow> S Internal \<Longrightarrow> throws S (in_tx internal body)"
  unfolding throws_def wp_in_tx by (auto simp: internal_def intro!: wp_mono [of "body _"] split: outcome.split)

end
