(* ===== verification/Redis_Counter.thy ===== *)
theory Redis_Counter
  imports World
begin

text \<open>
  Attempt budgets in Redis (\<^verbatim>\<open>utils/redis_counter.rs\<close>): the two Lua scripts as
  functions on the store (a script runs atomically, so any interleaving of
  requests is a sequence of script runs), and the operations around them with
  their answers to an outage.

  The locale \<open>attempt_budget\<close> states what a guarded attempt promises of one
  counter and proves once that no window admits more attempts than the limit;
  it is interpreted for every budget of both scripts.
\<close>

section \<open>Budgets\<close>

record budget =
  b_key :: rkey
  b_limit :: int
  b_window_secs :: int

record consumed =
  exceeded :: bool
  counts :: "int list"

definition max_count :: "consumed \<Rightarrow> int" where
  "max_count c = (case counts c of [] \<Rightarrow> 0 | n # ns \<Rightarrow> fold max ns n)"

text \<open>\<^verbatim>\<open>INCR\<close>, and \<^verbatim>\<open>EXPIRE\<close> on the first hit.\<close>

definition hit :: "instant \<Rightarrow> budget \<Rightarrow> rstore \<Rightarrow> int \<times> rstore" where
  "hit now b r =
     (let (n, r1) = rincr_by now (b_key b) 1 r
      in (n, if n = 1 then rexpire now (b_key b) (b_window_secs b) r1 else r1))"

fun consume_script :: "instant \<Rightarrow> budget list \<Rightarrow> rstore \<Rightarrow> (bool \<times> int list) \<times> rstore" where
  "consume_script now [] r = ((False, []), r)"
| "consume_script now (b # bs) r =
     (let (n, r1) = hit now b r;
          ((over, ns), r2) = consume_script now bs r1
      in ((b_limit b < n \<or> over, n # ns), r2))"

fun consume_in_order_script :: "instant \<Rightarrow> budget list \<Rightarrow> rstore \<Rightarrow> (bool \<times> int list) \<times> rstore" where
  "consume_in_order_script now [] r = ((False, []), r)"
| "consume_in_order_script now (b # bs) r =
     (let (n, r1) = hit now b r in
      if b_limit b < n then ((True, n # replicate (length bs) 0), r1)
      else let ((over, ns), r2) = consume_in_order_script now bs r1
           in ((over, n # ns), r2))"

definition redis_failure :: "string \<Rightarrow> app_error" where
  "redis_failure reason = ServiceUnavailable reason"

definition run_script ::
  "(instant \<Rightarrow> budget list \<Rightarrow> rstore \<Rightarrow> (bool \<times> int list) \<times> rstore) \<Rightarrow> budget list \<Rightarrow> (app_error, consumed) svc" where
  "run_script script budgets =
     (if budgets = [] then ret \<lparr>exceeded = False, counts = []\<rparr>
      else seq (map_err (\<lambda>_. redis_failure ''redis_unavailable'') redis_conn)
        (bnd (map_err (\<lambda>_. redis_failure ''redis_query_failed'') (redis_cmd (\<lambda>now r. script now budgets r)))
          (\<lambda>(over, ns). ret \<lparr>exceeded = over, counts = ns\<rparr>)))"

definition consume :: "budget list \<Rightarrow> (app_error, consumed) svc" where
  "consume budgets = run_script consume_script budgets"

definition consume_in_order :: "budget list \<Rightarrow> (app_error, consumed) svc" where
  "consume_in_order budgets = run_script consume_in_order_script budgets"

definition peek :: "rkey \<Rightarrow> (app_error, int) svc" where
  "peek key =
     seq (map_err (\<lambda>_. redis_failure ''redis_unavailable'') redis_conn)
       (map_err (\<lambda>_. redis_failure ''redis_query_failed'')
         (redis_cmd (\<lambda>now r. (as_int (rget now r key), r))))"

definition claim_cooldown_strict :: "rkey \<Rightarrow> int \<Rightarrow> (app_error, bool) svc" where
  "claim_cooldown_strict key ttl_secs =
     seq (map_err (\<lambda>_. redis_failure ''redis_unavailable'') redis_conn)
       (map_err (\<lambda>_. redis_failure ''redis_query_failed'')
         (redis_cmd (\<lambda>now r. rset_nx_ex now key (RInt 1) ttl_secs r)))"

definition claim_cooldown :: "rkey \<Rightarrow> int \<Rightarrow> ('e, bool) svc" where
  "claim_cooldown key ttl_secs =
     bnd (attempt redis_conn) (\<lambda>conn.
       case conn of
         Inl _ \<Rightarrow> ret True
       | Inr _ \<Rightarrow>
           bnd (attempt (redis_cmd (\<lambda>now r. rset_nx_ex now key (RInt 1) ttl_secs r)))
             (\<lambda>claimed. ret (case claimed of Inl _ \<Rightarrow> True | Inr b \<Rightarrow> b)))"

definition release :: "rkey list \<Rightarrow> ('e, unit) svc" where
  "release keys =
     bnd (attempt redis_conn) (\<lambda>conn.
       case conn of
         Inl _ \<Rightarrow> ret ()
       | Inr _ \<Rightarrow> for_each keys (\<lambda>key. ignore (redis_cmd (\<lambda>now r. rincr_by now key (- 1) r))))"

definition reset :: "rkey list \<Rightarrow> ('e, unit) svc" where
  "reset keys =
     (if keys = [] then ret ()
      else bnd (attempt redis_conn) (\<lambda>conn.
        case conn of
          Inl _ \<Rightarrow> ret ()
        | Inr _ \<Rightarrow> ignore (redis_cmd (\<lambda>now r. ((), rdel_all keys r)))))"

section \<open>One counter\<close>

definition live_count :: "instant \<Rightarrow> rstore \<Rightarrow> rkey \<Rightarrow> int" where
  "live_count now r k = as_int (rget now r k)"

definition armed :: "instant \<Rightarrow> rstore \<Rightarrow> rkey \<Rightarrow> instant \<Rightarrow> bool" where
  "armed now r k deadline \<longleftrightarrow> (\<exists>n. r k = Some (RInt n, Some deadline) \<and> 1 \<le> n) \<and> now < deadline"

lemma rget_None_mono: "rget now r k = None \<Longrightarrow> now \<le> now' \<Longrightarrow> rget now' r k = None"
  by (auto simp: rget_def split: option.splits if_splits)

lemma armed_live: "armed now r k d \<Longrightarrow> \<exists>n. rget now r k = Some (RInt n) \<and> 1 \<le> n"
  by (auto simp: armed_def rget_def)

lemma armed_later: "armed now r k d \<Longrightarrow> now' < d \<Longrightarrow> armed now' r k d \<and> live_count now' r k = live_count now r k"
  by (auto simp: armed_def live_count_def rget_def)

lemma armed_count_pos: "armed now r k d \<Longrightarrow> 1 \<le> live_count now r k"
  by (auto simp: armed_def live_count_def rget_def as_int_def)

lemma hit_other [simp]: "k \<noteq> b_key b \<Longrightarrow> snd (hit now b r) k = r k"
  by (simp add: hit_def rincr_by_def rexpire_def Let_def split: option.split)

lemma hit_fresh:
  "rget now r (b_key b) = None \<Longrightarrow>
   hit now b r = (1, r(b_key b := Some (RInt 1, Some (now + seconds (b_window_secs b)))))"
  by (auto simp: hit_def rincr_by_def rexpire_def rexists_def as_int_def rget_def Let_def fun_eq_iff)

lemma hit_armed:
  assumes "armed now r (b_key b) d"
  shows "hit now b r =
    (live_count now r (b_key b) + 1,
     r(b_key b := Some (RInt (live_count now r (b_key b) + 1), Some d)))"
  using assms
  by (auto simp: armed_def hit_def rincr_by_def rexists_def rget_def live_count_def as_int_def Let_def)

text \<open>A sequence of attempts, each a number of nanoseconds after the previous one.\<close>

fun attempts :: "(instant \<Rightarrow> rstore \<Rightarrow> bool \<times> rstore) \<Rightarrow> instant \<Rightarrow> rstore \<Rightarrow> nat list \<Rightarrow> bool list" where
  "attempts att now r [] = []"
| "attempts att now r (dt # dts) =
     (let (ok, r') = att (now + int dt) r in ok # attempts att (now + int dt) r' dts)"

definition admitted :: "bool list \<Rightarrow> nat" where
  "admitted oks = length (filter (\<lambda>ok. ok) oks)"

lemma admitted_simps [simp]:
  "admitted [] = 0" "admitted (ok # oks) = (if ok then Suc (admitted oks) else admitted oks)"
  by (simp_all add: admitted_def)

locale attempt_budget =
  fixes att :: "instant \<Rightarrow> rstore \<Rightarrow> bool \<times> rstore"
    and key :: rkey
    and limit :: int
    and window_secs :: int
  assumes fresh:
      "att now r = (ok, r') \<Longrightarrow> rget now r key = None \<Longrightarrow>
       (r' key = Some (RInt 1, Some (now + seconds window_secs)) \<and> (ok \<longrightarrow> 1 \<le> limit)) \<or>
       (\<not> ok \<and> r' key = r key)"
    and counted:
      "att now r = (ok, r') \<Longrightarrow> armed now r key d \<Longrightarrow>
       (r' key = Some (RInt (live_count now r key + 1), Some d) \<and> (ok \<longrightarrow> live_count now r key + 1 \<le> limit)) \<or>
       (\<not> ok \<and> r' key = r key)"
begin

lemma counted_step:
  assumes "att now r = (ok, r')" "armed now r key d"
  shows "armed now r' key d \<and>
         live_count now r key + (if ok then 1 else 0) \<le> live_count now r' key \<and>
         (ok \<longrightarrow> live_count now r' key \<le> limit)"
  using counted [OF assms] assms(2)
  by (auto simp: armed_def live_count_def rget_def as_int_def)

lemma armed_bound:
  assumes "armed now r key d" "now + int (sum_list dts) < d"
  shows "int (admitted (attempts att now r dts)) \<le> max 0 (limit - live_count now r key)"
  using assms
proof (induction dts arbitrary: now r)
  case Nil
  then show ?case by simp
next
  case (Cons dt dts)
  obtain ok r' where step: "att (now + int dt) r = (ok, r')"
    by fastforce
  have now': "armed (now + int dt) r key d" "live_count (now + int dt) r key = live_count now r key"
    using armed_later [OF Cons.prems(1), of "now + int dt"] Cons.prems(2) by auto
  note after = counted_step [OF step now'(1)]
  have "int (admitted (attempts att (now + int dt) r' dts)) \<le> max 0 (limit - live_count (now + int dt) r' key)"
    using after Cons.prems(2) by (intro Cons.IH) auto
  then show ?case
    using after now'(2) step by (auto simp: max_def split: if_splits)
qed

lemma window_bound:
  assumes "rget now r key = None" "int (sum_list dts) < seconds window_secs"
  shows "int (admitted (attempts att now r dts)) \<le> max 0 limit"
  using assms
proof (induction dts arbitrary: now r)
  case Nil
  then show ?case by simp
next
  case (Cons dt dts)
  obtain ok r' where step: "att (now + int dt) r = (ok, r')"
    by fastforce
  have none: "rget (now + int dt) r key = None"
    using Cons.prems(1) by (rule rget_None_mono) simp
  from fresh [OF step none] show ?case
  proof
    assume a: "r' key = Some (RInt 1, Some (now + int dt + seconds window_secs)) \<and> (ok \<longrightarrow> 1 \<le> limit)"
    have "0 < window_secs"
      using Cons.prems(2) by (auto simp: seconds_def ns_per_sec_def)
    then have arm: "armed (now + int dt) r' key (now + int dt + seconds window_secs)"
      using a by (auto simp: armed_def)
    have one: "live_count (now + int dt) r' key = 1"
      using a arm by (auto simp: live_count_def rget_def as_int_def armed_def)
    have "int (admitted (attempts att (now + int dt) r' dts)) \<le> max 0 (limit - 1)"
      using armed_bound [OF arm, of dts] Cons.prems(2) one by simp
    then show ?thesis using a step by auto
  next
    assume a: "\<not> ok \<and> r' key = r key"
    then have "rget (now + int dt) r' key = None"
      using none by (simp add: rget_def)
    then have "int (admitted (attempts att (now + int dt) r' dts)) \<le> max 0 limit"
      using Cons.prems(2) by (intro Cons.IH) simp_all
    then show ?thesis using a step by simp
  qed
qed

end

section \<open>Both scripts keep to every budget\<close>

text \<open>One guarded attempt: whether a script admits it.\<close>

definition try_consume :: "budget list \<Rightarrow> instant \<Rightarrow> rstore \<Rightarrow> bool \<times> rstore" where
  "try_consume bs now r = (case consume_script now bs r of ((over, _), r') \<Rightarrow> (\<not> over, r'))"

definition try_in_order :: "budget list \<Rightarrow> instant \<Rightarrow> rstore \<Rightarrow> bool \<times> rstore" where
  "try_in_order bs now r = (case consume_in_order_script now bs r of ((over, _), r') \<Rightarrow> (\<not> over, r'))"

lemma consume_script_other:
  "k \<notin> b_key ` set bs \<Longrightarrow> consume_script now bs r = (res, r') \<Longrightarrow> r' k = r k"
proof (induction bs arbitrary: r res r')
  case (Cons b bs)
  obtain n r1 where h: "hit now b r = (n, r1)" by fastforce
  obtain o' ns r2 where c: "consume_script now bs r1 = ((o', ns), r2)" by (metis prod.exhaust)
  have "r1 k = r k" using hit_other [of k b now r] Cons.prems(1) h by auto
  then show ?case using Cons.IH [OF _ c] Cons.prems h c by auto
qed simp

lemma consume_in_order_other:
  "k \<notin> b_key ` set bs \<Longrightarrow> consume_in_order_script now bs r = (res, r') \<Longrightarrow> r' k = r k"
proof (induction bs arbitrary: r res r')
  case (Cons b bs)
  obtain n r1 where h: "hit now b r = (n, r1)" by fastforce
  obtain o' ns r2 where c: "consume_in_order_script now bs r1 = ((o', ns), r2)" by (metis prod.exhaust)
  have "r1 k = r k" using hit_other [of k b now r] Cons.prems(1) h by auto
  then show ?case using Cons.IH [OF _ c] Cons.prems h c by (auto split: if_splits)
qed simp

text \<open>What a script does to the key of one of its budgets: one hit of it, seen
  from the store as it was.\<close>

lemma hit_key_only:
  assumes "r (b_key b) = r0 (b_key b)"
  shows "fst (hit now b r) = fst (hit now b r0) \<and> snd (hit now b r) (b_key b) = snd (hit now b r0) (b_key b)"
  using assms
  by (simp add: hit_def rincr_by_def rexpire_def rexists_def rget_def Let_def split: option.split)

lemma consume_script_key:
  assumes "distinct (map b_key bs)" "b \<in> set bs" "consume_script now bs r = ((over, ns), r')"
  shows "r' (b_key b) = snd (hit now b r) (b_key b) \<and> (\<not> over \<longrightarrow> fst (hit now b r) \<le> b_limit b)"
  using assms
proof (induction bs arbitrary: r over ns r')
  case (Cons a bs)
  obtain n r1 where h: "hit now a r = (n, r1)" by fastforce
  obtain o' ms r2 where c: "consume_script now bs r1 = ((o', ms), r2)" by (metis prod.exhaust)
  show ?case
  proof (cases "b = a")
    case True
    then have "r2 (b_key b) = r1 (b_key b)"
      using consume_script_other [OF _ c] Cons.prems(1) by simp
    then show ?thesis using True h c Cons.prems(3) by auto
  next
    case False
    then have b: "b \<in> set bs" "b_key b \<noteq> b_key a" using Cons.prems(1,2) by (auto, metis image_eqI)
    have "r1 (b_key b) = r (b_key b)" using hit_other [OF b(2), of now r] h by simp
    then show ?thesis
      using Cons.IH [OF _ b(1) c] hit_key_only [of r1 b r now] Cons.prems(1,3) h c by auto
  qed
qed simp

lemma consume_in_order_key:
  assumes "distinct (map b_key bs)" "b \<in> set bs" "consume_in_order_script now bs r = ((over, ns), r')"
  shows "(r' (b_key b) = snd (hit now b r) (b_key b) \<and> (\<not> over \<longrightarrow> fst (hit now b r) \<le> b_limit b)) \<or>
         (over \<and> r' (b_key b) = r (b_key b))"
  using assms
proof (induction bs arbitrary: r over ns r')
  case (Cons a bs)
  obtain n r1 where h: "hit now a r = (n, r1)" by fastforce
  obtain o' ms r2 where c: "consume_in_order_script now bs r1 = ((o', ms), r2)" by (metis prod.exhaust)
  show ?case
  proof (cases "b = a")
    case True
    then have "r2 (b_key b) = r1 (b_key b)"
      using consume_in_order_other [OF _ c] Cons.prems(1) by simp
    then show ?thesis using True h c Cons.prems(3) by (auto split: if_splits)
  next
    case False
    then have b: "b \<in> set bs" "b_key b \<noteq> b_key a" using Cons.prems(1,2) by (auto, metis image_eqI)
    have "r1 (b_key b) = r (b_key b)" using hit_other [OF b(2), of now r] h by simp
    then show ?thesis
      using Cons.IH [OF _ b(1) c] hit_key_only [of r1 b r now] Cons.prems(1,3) h c
      by (auto split: if_splits)
  qed
qed simp

lemma consume_is_attempt_budget:
  assumes "distinct (map b_key bs)" "b \<in> set bs"
  shows "attempt_budget (try_consume bs) (b_key b) (b_limit b) (b_window_secs b)"
proof
  fix now r ok r'
  assume t: "try_consume bs now r = (ok, r')"
  then obtain ns where c: "consume_script now bs r = ((\<not> ok, ns), r')"
    by (auto simp: try_consume_def split: prod.splits)
  note key = consume_script_key [OF assms c]
  show "(r' (b_key b) = Some (RInt 1, Some (now + seconds (b_window_secs b))) \<and> (ok \<longrightarrow> 1 \<le> b_limit b)) \<or>
        (\<not> ok \<and> r' (b_key b) = r (b_key b))" if "rget now r (b_key b) = None"
    using key hit_fresh [OF that] by auto
  show "(r' (b_key b) = Some (RInt (live_count now r (b_key b) + 1), Some d) \<and>
         (ok \<longrightarrow> live_count now r (b_key b) + 1 \<le> b_limit b)) \<or>
        (\<not> ok \<and> r' (b_key b) = r (b_key b))" if "armed now r (b_key b) d" for d
    using key hit_armed [OF that] by auto
qed

lemma in_order_is_attempt_budget:
  assumes "distinct (map b_key bs)" "b \<in> set bs"
  shows "attempt_budget (try_in_order bs) (b_key b) (b_limit b) (b_window_secs b)"
proof
  fix now r ok r'
  assume t: "try_in_order bs now r = (ok, r')"
  then obtain ns where c: "consume_in_order_script now bs r = ((\<not> ok, ns), r')"
    by (auto simp: try_in_order_def split: prod.splits)
  note key = consume_in_order_key [OF assms c]
  show "(r' (b_key b) = Some (RInt 1, Some (now + seconds (b_window_secs b))) \<and> (ok \<longrightarrow> 1 \<le> b_limit b)) \<or>
        (\<not> ok \<and> r' (b_key b) = r (b_key b))" if "rget now r (b_key b) = None"
    using key hit_fresh [OF that] by auto
  show "(r' (b_key b) = Some (RInt (live_count now r (b_key b) + 1), Some d) \<and>
         (ok \<longrightarrow> live_count now r (b_key b) + 1 \<le> b_limit b)) \<or>
        (\<not> ok \<and> r' (b_key b) = r (b_key b))" if "armed now r (b_key b) d" for d
    using key hit_armed [OF that] by auto
qed

interpretation one_budget: attempt_budget "try_consume [b]" "b_key b" "b_limit b" "b_window_secs b" for b
  by (rule consume_is_attempt_budget) simp_all

interpretation one_in_order: attempt_budget "try_in_order [b]" "b_key b" "b_limit b" "b_window_secs b" for b
  by (rule in_order_is_attempt_budget) simp_all


definition demo_budget :: budget where
  "demo_budget = \<lparr>b_key = LoginTry 7, b_limit = 2, b_window_secs = 900\<rparr>"


section \<open>A narrow budget shields a wide one\<close>

lemma in_order_stops:
  assumes "b_limit b < fst (hit now b r)"
  shows "consume_in_order_script now (b # bs) r = ((True, fst (hit now b r) # replicate (length bs) 0), snd (hit now b r))"
  using assms by (simp add: Let_def case_prod_beta)

text \<open>C20: An attempt refused by a narrow budget does not count against the wider
  ones behind it: when the first budget of an ordered list is exhausted, the
  attempt is refused, every later counter is reported as 0 and every other key
  of the store is as it was.\<close>

theorem exhausted_budget_shields_the_rest:
  assumes "armed now r (b_key b) d" "b_limit b \<le> live_count now r (b_key b)" "k \<noteq> b_key b"
    and "consume_in_order_script now (b # bs) r = ((over, ns), r')"
  shows "over \<and> tl ns = replicate (length bs) 0 \<and> r' k = r k"
  using assms in_order_stops [of b now r bs] hit_armed [OF assms(1)] by auto

lemma exhausted_budget_shields_the_rest_witness:
  "let r = ((\<lambda>_. None)(LoginTry 7 := Some (RInt 2, Some 10), LoginTryIp ''x'' := Some (RInt 4, Some 10)));
       wide = \<lparr>b_key = LoginTryIp ''x'', b_limit = 30, b_window_secs = 900\<rparr>;
       res = consume_in_order_script 0 [demo_budget, wide] r
   in fst (fst res) \<and> snd res (LoginTryIp ''x'') = Some (RInt 4, Some 10)"
proof -
  let ?r = "((\<lambda>_. None)(LoginTry 7 := Some (RInt 2, Some 10), LoginTryIp ''x'' := Some (RInt 4, Some 10))) :: rstore"
  let ?wide = "\<lparr>b_key = LoginTryIp ''x'', b_limit = 30, b_window_secs = 900\<rparr>"
  have "armed 0 ?r (b_key demo_budget) 10" "b_limit demo_budget \<le> live_count 0 ?r (b_key demo_budget)"
    by (auto simp: demo_budget_def armed_def live_count_def rget_def as_int_def)
  moreover obtain over ns r' where res:
      "consume_in_order_script 0 (demo_budget # [?wide]) ?r = ((over, ns), r')"
    by (metis prod.exhaust)
  ultimately have "over \<and> tl ns = replicate (length [?wide]) 0 \<and> r' (LoginTryIp ''x'') = ?r (LoginTryIp ''x'')"
    by (intro exhausted_budget_shields_the_rest [of 0 ?r demo_budget 10]) (auto simp: demo_budget_def)
  then show ?thesis
    using res by (simp add: Let_def del: consume_in_order_script.simps)
qed

section \<open>The operations under an outage\<close>

lemma keeps_run_script [frame_intros]: "keeps same_db (run_script script bs)"
  by (auto simp: run_script_def intro!: same_db_intros)

lemma keeps_consume [frame_intros]: "keeps same_db (consume bs)"
  by (simp add: consume_def keeps_run_script)

lemma keeps_consume_in_order [frame_intros]: "keeps same_db (consume_in_order bs)"
  by (simp add: consume_in_order_def keeps_run_script)

lemma keeps_peek [frame_intros]: "keeps same_db (peek k)"
  by (simp add: peek_def same_db_intros)

lemma keeps_claim_cooldown [frame_intros]: "keeps same_db (claim_cooldown k n)"
  by (auto simp: claim_cooldown_def intro!: same_db_intros)

lemma keeps_claim_cooldown_strict [frame_intros]: "keeps same_db (claim_cooldown_strict k n)"
  by (simp add: claim_cooldown_strict_def same_db_intros)

lemma keeps_release [frame_intros]: "keeps same_db (release ks)"
  by (auto simp: release_def intro!: same_db_intros)

lemma keeps_reset [frame_intros]: "keeps same_db (reset ks)"
  by (auto simp: reset_def intro!: same_db_intros)

text \<open>A budget fails closed: an answer is the script's verdict on the store, and
  any outage is an error of the service.\<close>

lemma wp_consume [wp_simps]:
  "bs \<noteq> [] \<Longrightarrow> wp (consume bs) Q E w =
     (if next_outcome w \<noteq> Done then E (ServiceUnavailable ''redis_unavailable'') (tick w)
      else let r = consume_script (real_now (tick (tick w))) bs (redis w) in
        case next_outcome (tick w) of
          Done \<Rightarrow> Q \<lparr>exceeded = fst (fst r), counts = snd (fst r)\<rparr> ((tick (tick w))\<lparr>redis := snd r\<rparr>)
        | Refused \<Rightarrow> E (ServiceUnavailable ''redis_query_failed'') (tick (tick w))
        | Lost \<Rightarrow> E (ServiceUnavailable ''redis_query_failed'') ((tick (tick w))\<lparr>redis := snd r\<rparr>))"
  by (simp add: consume_def run_script_def wp_simps redis_failure_def case_prod_beta Let_def split: outcome.split)

lemma wp_consume_in_order [wp_simps]:
  "bs \<noteq> [] \<Longrightarrow> wp (consume_in_order bs) Q E w =
     (if next_outcome w \<noteq> Done then E (ServiceUnavailable ''redis_unavailable'') (tick w)
      else let r = consume_in_order_script (real_now (tick (tick w))) bs (redis w) in
        case next_outcome (tick w) of
          Done \<Rightarrow> Q \<lparr>exceeded = fst (fst r), counts = snd (fst r)\<rparr> ((tick (tick w))\<lparr>redis := snd r\<rparr>)
        | Refused \<Rightarrow> E (ServiceUnavailable ''redis_query_failed'') (tick (tick w))
        | Lost \<Rightarrow> E (ServiceUnavailable ''redis_query_failed'') ((tick (tick w))\<lparr>redis := snd r\<rparr>))"
  by (simp add: consume_in_order_def run_script_def wp_simps redis_failure_def case_prod_beta Let_def split: outcome.split)

section \<open>Giving an attempt back after its window\<close>

text \<open>
  \<^const>\<open>release\<close> decrements without looking at the window: on a counter that
  expired in between, it leaves -1 with no expiry, and the next window admits one
  attempt more than the limit.
\<close>

lemma release_on_expired_counter:
  "rget now r k = None \<Longrightarrow> snd (rincr_by now k (- 1) r) k = Some (RInt (- 1), None)"
  by (simp add: rincr_by_def rexists_def as_int_def Let_def)

lemma release_after_expiry_overruns:
  "admitted (attempts (try_consume [demo_budget]) 0 (snd (rincr_by 0 (LoginTry 7) (- 1) (\<lambda>_. None))) [0, 5, 5, 5]) = 3
   \<and> b_limit demo_budget = 2"
  by (simp add: demo_budget_def try_consume_def hit_def rincr_by_def rexpire_def rexists_def rget_def
      as_int_def seconds_def ns_per_sec_def Let_def)

end
