(* ===== verification/Credentials.thy ===== *)
theory Credentials
  imports World
begin

text \<open>
  The checks of a secret: \<^verbatim>\<open>utils/password.rs\<close> (what a stored hash may cost,
  when it is hashed again, the verification of a password), \<^verbatim>\<open>utils/totp.rs\<close>
  (the verification of a code), \<^verbatim>\<open>utils/backoff.rs\<close> and the identifier of a
  bearer token in Redis (\<^verbatim>\<open>utils/crypto.rs\<close>). Parsing a PHC string, Argon2
  itself and the comparison of a TOTP code are parameters of the application state.
\<close>

section \<open>Passwords\<close>

datatype password_error = ParseError | VerifyError | HashError

definition saturating_mul_u32 :: "u32 \<Rightarrow> u32 \<Rightarrow> u32" where
  "saturating_mul_u32 a b = (if unat a * unat b < 2 ^ 32 then a * b else - 1)"

definition STORED_COST_FACTOR :: u32 where
  "STORED_COST_FACTOR = 2"

definition needs_rehash :: "app_state \<Rightarrow> string \<Rightarrow> bool" where
  "needs_rehash st h =
     (case phc_parse st h of
        None \<Rightarrow> False
      | Some (algorithm, params) \<Rightarrow>
          if algorithm \<noteq> ''argon2id'' then True
          else case params of
            Some (m, t, p) \<Rightarrow> m < argon2_memory_kib st \<or> t < argon2_iterations st \<or> p < argon2_parallelism st
          | None \<Rightarrow> False)"

definition exceeds_configured_cost :: "app_state \<Rightarrow> string \<Rightarrow> bool" where
  "exceeds_configured_cost st h =
     (case phc_parse st h of
        None \<Rightarrow> False
      | Some (_, None) \<Rightarrow> False
      | Some (_, Some (m, t, p)) \<Rightarrow>
          saturating_mul_u32 (argon2_memory_kib st) STORED_COST_FACTOR < m \<or>
          max (saturating_mul_u32 (argon2_iterations st) STORED_COST_FACTOR) 4 < t \<or>
          max (saturating_mul_u32 (argon2_parallelism st) STORED_COST_FACTOR) 4 < p)"

definition MAX_VERIFIED_PASSWORD_BYTES :: nat where
  "MAX_VERIFIED_PASSWORD_BYTES = 256"

definition verify :: "app_state \<Rightarrow> string \<Rightarrow> string \<Rightarrow> password_error + bool" where
  "verify st pw h =
     (case phc_parse st h of
        None \<Rightarrow> Inl ParseError
      | Some _ \<Rightarrow> (case argon2_verify st pw h of None \<Rightarrow> Inl VerifyError | Some ok \<Rightarrow> Inr ok))"

definition verify_async :: "app_state \<Rightarrow> string \<Rightarrow> string \<Rightarrow> password_error + bool" where
  "verify_async st pw h =
     (if MAX_VERIFIED_PASSWORD_BYTES < length pw then Inr False
      else if exceeds_configured_cost st h then Inr False
      else verify st pw h)"

definition hash_async :: "app_state \<Rightarrow> string \<Rightarrow> (password_error, string) svc" where
  "hash_async st pw =
     bnd (draw (\<lambda>n. argon2_hash st n pw)) (\<lambda>h. ok_or HashError h)"

section \<open>One-time codes\<close>

datatype totp_error = CryptoError | InvalidSecret | TimeError

definition totp_verify_code :: "app_state \<Rightarrow> string \<Rightarrow> uuid \<Rightarrow> string \<Rightarrow> int \<Rightarrow> totp_error + bool" where
  "totp_verify_code st encrypted_secret owner code now =
     (if now < 0 then Inl TimeError
      else if nat now < totp_skew st * 30 then Inl TimeError
      else if length code \<noteq> 6 \<or> \<not> list_all ascii_digit code then Inr False
      else case keyring_decrypt (crypto st) (keyring_of st) encrypted_secret (uuid_bytes owner) of
        Inl _ \<Rightarrow> Inl CryptoError
      | Inr plaintext \<Rightarrow>
          (case totp_matches st plaintext (totp_skew st) code (nat now) of
             None \<Rightarrow> Inl InvalidSecret
           | Some ok \<Rightarrow> Inr ok))"

text \<open>\<^verbatim>\<open>percent_encode\<close>: the unreserved characters of RFC 3986 pass through.\<close>

definition percent_encode :: "string \<Rightarrow> string" where
  "percent_encode input =
     concat (map (\<lambda>c. if ascii_alphanumeric c \<or> c \<in> set ''-_.~'' then [c]
                      else CHR ''%'' # hex_byte_upper (word_of_nat (of_char c))) input)"

definition qr_uri :: "string \<Rightarrow> string \<Rightarrow> string \<Rightarrow> string" where
  "qr_uri base32_secret email issuer =
     ''otpauth://totp/'' @ percent_encode issuer @ '':'' @ percent_encode email @ ''?secret='' @ base32_secret @
     ''&issuer='' @ percent_encode issuer @ ''&algorithm=SHA1&digits=6&period=30''"

definition generate_otp :: "app_state \<Rightarrow> nat \<Rightarrow> string" where
  "generate_otp st n = six_digits (unat (otp_index st n))"

definition generate_recovery_code :: "app_state \<Rightarrow> nat \<Rightarrow> string" where
  "generate_recovery_code st n = recovery_code_text (random_bytes st n)"

definition token_id :: "app_state \<Rightarrow> string \<Rightarrow> string" where
  "token_id st token = concat (map hex_byte (crypto_sha256 st token))"

section \<open>Backoff\<close>

definition MAX_SECS :: nat where "MAX_SECS = 16"

definition backoff_secs :: "int \<Rightarrow> nat" where
  "backoff_secs failures =
     (if failures \<le> 0 then 0 else min (2 ^ nat (min (failures - 1) 4)) MAX_SECS)"

definition apply_backoff :: "int \<Rightarrow> ('e, unit) svc" where
  "apply_backoff failures = (if failures \<le> 0 then ret () else sleep_secs (backoff_secs failures))"

section \<open>Facts\<close>

lemma keeps_apply_backoff [frame_intros]: "keeps same_db (apply_backoff n)"
  by (simp add: apply_backoff_def same_db_intros keeps_sleep_secs)

lemma keeps_hash_async [frame_intros]: "keeps same_db (hash_async st pw)"
  by (simp add: hash_async_def same_db_intros keeps_draw)

lemma length_token_id: "length (token_id st token) = 2 * length (crypto_sha256 st token)"
  by (simp add: token_id_def length_concat comp_def hex_byte_def sum_list_triv)

text \<open>Distinct digests give distinct Redis identifiers.\<close>

lemma token_id_eq_iff: "token_id st a = token_id st b \<longleftrightarrow> crypto_sha256 st a = crypto_sha256 st b"
  unfolding token_id_def using concat_hex_inj by metis




text \<open>An application state for the witnesses: digests are the characters of the
  token, a hash is its password in clear, and every call of another crate
  succeeds.\<close>

definition demo_state :: app_state where
  "demo_state = \<lparr>access_expiry_secs = 900, refresh_expiry_secs = 2592000, short_session_expiry_secs = 86400,
     strict_session_binding = False, max_session_lifetime_secs = 7776000, audience = [''api''],
     public_url = ''https://id.example'', lockout_threshold = 5, lockout_duration_secs = 1800,
     sensitive_action_reauth_secs = 300, new_device_alerts = True, captcha_secret = None, magic_links = True, registrations_per_ip_per_hour = 20,
     reset_revokes_factors_added_hours = 24, pwned_enabled = True, pwned_fail_open = False, recovery_code_expiry_days = 0,
     totp_issuer = ''auth'', totp_skew = 1,
     argon2_memory_kib = 65536, argon2_iterations = 3, argon2_parallelism = 4,
     crypto_sha256 = (\<lambda>s. map of_nat (map of_char (take 32 (s @ replicate 32 CHR ''.'')))),
     generate_token = (\<lambda>n. replicate n CHR ''t''), otp_index = (\<lambda>n. 123456), random_bytes = (\<lambda>n. replicate 10 (word_of_nat n)), random_index = (\<lambda>n. 0),
     phc_parse = (\<lambda>h. Some (''argon2id'', Some (if h = ''planted'' then 262144 else 65536, 3, 4))),
     argon2_verify = (\<lambda>pw h. Some (pw = h)), argon2_hash = (\<lambda>n pw. Some pw),
     crypto = demo_prims, keyring_of = \<lparr>kr_current = \<lparr>ke_kid = ''k1'', ke_key = demo_key, ke_otp_key = []\<rparr>, kr_previous = None\<rparr>, totp_secret = (\<lambda>n. ''secret''),
     crypto_sha1 = (\<lambda>s. replicate 20 0), pwned_range = (\<lambda>prefix. Some []), totp_matches = (\<lambda>secret skew code now. Some (code = ''123456'')),
     jwt_encode = (\<lambda>c. Some ''jwt''), hll_estimate = (\<lambda>xs. int (length (remdups xs)))\<rparr>"


end
