(* ===== verification/Session_Repo.thy ===== *)
theory Session_Repo
  imports World
begin

text \<open>
  The \<^verbatim>\<open>sessions\<close> table: its constraints (\<^verbatim>\<open>migrations/0005_sessions.sql\<close>),
  the statements of \<^verbatim>\<open>repositories/session.rs\<close> and the database functions
  they call. The pure part of every statement is a function on the table, which
  the step relation at the end interleaves freely.
\<close>

section \<open>Constraints\<close>

definition ge_opt :: "instant option \<Rightarrow> instant \<Rightarrow> bool" where
  "ge_opt t c \<longleftrightarrow> (case t of None \<Rightarrow> True | Some t \<Rightarrow> c \<le> t)"

definition session_checks :: "session \<Rightarrow> bool" where
  "session_checks s \<longleftrightarrow>
     s_created_at s < s_expires_at s \<and>
     ge_opt (s_revoked_at s) (s_created_at s) \<and>
     ge_opt (s_rotated_at s) (s_created_at s) \<and>
     ge_opt (s_compromised_at s) (s_created_at s) \<and>
     ((s_replaced_by_session_id s = None \<and> s_rotated_at s = None) \<or>
      (s_replaced_by_session_id s \<noteq> None \<and> s_rotated_at s \<noteq> None \<and> s_revoked_at s \<noteq> None)) \<and>
     ((s_compromised_at s = None \<and> s_compromise_reason s = None) \<or>
      (s_compromised_at s \<noteq> None \<and> s_compromise_reason s \<noteq> None \<and> s_revoked_at s \<noteq> None)) \<and>
     s_replaced_by_session_id s \<noteq> Some (s_id s) \<and>
     length (s_token_hash s) = 32"

text \<open>The primary key, the unique token hash, the unique successor, and every row's checks.\<close>

definition replacements :: "session list \<Rightarrow> uuid list" where
  "replacements rows = List.map_filter s_replaced_by_session_id rows"

definition session_table_ok :: "session list \<Rightarrow> bool" where
  "session_table_ok rows \<longleftrightarrow>
     distinct (map s_id rows) \<and> distinct (map s_token_hash rows) \<and>
     distinct (replacements rows) \<and> list_all session_checks rows"

text \<open>A write that breaks a constraint raises and changes nothing.\<close>

definition put_sessions :: "'a \<Rightarrow> session list \<Rightarrow> tables \<Rightarrow> (sql_error + 'a) \<times> tables" where
  "put_sessions x rows t =
     (if session_table_ok rows then (Inr x, t\<lparr>sessions := rows\<rparr>)
      else (Inl (ConstraintViolation ''sessions''), t))"

section \<open>Rows\<close>

record new_session =
  ns_user_id :: uuid
  ns_session_family_id :: uuid
  ns_expires_at :: instant
  ns_ip_address :: "ipnetwork option"
  ns_device_name :: "unicode option"
  ns_remember_me :: bool
  ns_token_hash :: bytes
  ns_user_agent :: "string option"
  ns_session_type :: session_type
  ns_client_id :: "string option"
  ns_family_created_at :: "instant option"
  ns_scopes :: "string list option"
  ns_mfa :: bool

definition inserted_row :: "uuid \<Rightarrow> instant \<Rightarrow> new_session \<Rightarrow> session" where
  "inserted_row i now n =
     \<lparr>s_id = i, s_user_id = ns_user_id n, s_session_family_id = ns_session_family_id n,
      s_last_used_at = now, s_expires_at = ns_expires_at n, s_created_at = now,
      s_family_created_at = (case ns_family_created_at n of None \<Rightarrow> now | Some t \<Rightarrow> t),
      s_scopes = ns_scopes n, s_revoked_at = None, s_rotated_at = None, s_compromised_at = None,
      s_replaced_by_session_id = None, s_ip_address = ns_ip_address n,
      s_device_name = ns_device_name n, s_remember_me = ns_remember_me n,
      s_token_hash = ns_token_hash n, s_user_agent = ns_user_agent n,
      s_session_type = ns_session_type n, s_client_id = ns_client_id n,
      s_compromise_reason = None, s_mfa = ns_mfa n, s_auth_time = None\<rparr>"

text \<open>The row a rotation inserts: scopes, second factor and authentication time
  come from the session it replaces.\<close>

definition rotated_row :: "uuid \<Rightarrow> instant \<Rightarrow> session \<Rightarrow> new_session \<Rightarrow> session" where
  "rotated_row i now old n =
     (inserted_row i now n)\<lparr>
        s_family_created_at := (case ns_family_created_at n of None \<Rightarrow> s_family_created_at old | Some t \<Rightarrow> t),
        s_scopes := (case ns_scopes n of None \<Rightarrow> s_scopes old | Some cs \<Rightarrow> Some cs),
        s_mfa := s_mfa old,
        s_auth_time := s_auth_time old\<rparr>"

definition mark_rotated :: "instant \<Rightarrow> uuid \<Rightarrow> session \<Rightarrow> session" where
  "mark_rotated now i s = s\<lparr>s_revoked_at := Some now, s_rotated_at := Some now, s_replaced_by_session_id := Some i\<rparr>"

definition mark_revoked :: "instant \<Rightarrow> session \<Rightarrow> session" where
  "mark_revoked now s = s\<lparr>s_revoked_at := Some now\<rparr>"

definition coalesce :: "'a option \<Rightarrow> 'a \<Rightarrow> 'a option" where
  "coalesce o' x = (case o' of None \<Rightarrow> Some x | Some y \<Rightarrow> Some y)"

definition mark_compromised :: "instant \<Rightarrow> session_compromise_reason \<Rightarrow> session \<Rightarrow> session" where
  "mark_compromised now reason s =
     s\<lparr>s_revoked_at := coalesce (s_revoked_at s) now,
       s_compromised_at := coalesce (s_compromised_at s) now,
       s_compromise_reason := coalesce (s_compromise_reason s) reason\<rparr>"

section \<open>Statements on the table\<close>

definition insert_session :: "uuid \<Rightarrow> instant \<Rightarrow> new_session \<Rightarrow> tables \<Rightarrow> (sql_error + session) \<times> tables" where
  "insert_session i now n t =
     (if find (\<lambda>u. u_id u = ns_user_id n) (users t) = None
      then (Inl (ConstraintViolation ''sessions_user_id_fkey''), t)
      else let row = inserted_row i now n in put_sessions row (sessions t @ [row]) t)"

definition insert_rotated :: "uuid \<Rightarrow> instant \<Rightarrow> session \<Rightarrow> new_session \<Rightarrow> tables \<Rightarrow> (sql_error + session) \<times> tables" where
  "insert_rotated i now old n t =
     (if find (\<lambda>u. u_id u = ns_user_id n) (users t) = None
      then (Inl (ConstraintViolation ''sessions_user_id_fkey''), t)
      else let row = rotated_row i now old n in put_sessions row (sessions t @ [row]) t)"

definition update_sessions :: "(session \<Rightarrow> bool) \<Rightarrow> (session \<Rightarrow> session) \<Rightarrow> tables \<Rightarrow> (sql_error + nat) \<times> tables" where
  "update_sessions P f t =
     put_sessions (length (filter P (sessions t))) (update_where P f (sessions t)) t"

text \<open>\<^verbatim>\<open>UPDATE ... RETURNING *\<close>: the rows as they are after.\<close>

definition update_sessions_returning ::
  "(session \<Rightarrow> bool) \<Rightarrow> (session \<Rightarrow> session) \<Rightarrow> tables \<Rightarrow> (sql_error + session list) \<times> tables" where
  "update_sessions_returning P f t =
     put_sessions (map f (filter P (sessions t))) (update_where P f (sessions t)) t"

text \<open>The database function \<^verbatim>\<open>revoke_session_family\<close>.\<close>

definition in_family :: "uuid \<Rightarrow> session \<Rightarrow> bool" where
  "in_family fam s \<longleftrightarrow> s_session_family_id s = fam"

definition not_marked :: "session \<Rightarrow> bool" where
  "not_marked s \<longleftrightarrow> s_revoked_at s = None \<or> s_compromised_at s = None \<or> s_compromise_reason s = None"

definition revoke_session_family ::
  "uuid \<Rightarrow> session_compromise_reason \<Rightarrow> instant \<Rightarrow> tables \<Rightarrow> (sql_error + nat) \<times> tables" where
  "revoke_session_family i reason now t =
     (case find (\<lambda>s. s_id s = i) (sessions t) of
        None \<Rightarrow> (Inl SqlFailed, t)
      | Some s \<Rightarrow>
          update_sessions (\<lambda>r. in_family (s_session_family_id s) r \<and> not_marked r)
            (mark_compromised now reason) t)"

section \<open>The repository\<close>

definition create :: "executor \<Rightarrow> new_session \<Rightarrow> (sql_error, session) svc" where
  "create ex n = bnd fresh_uuid (\<lambda>i. db_stmt ex (\<lambda>now t. insert_session i now n t))"

definition find_session :: "uuid \<Rightarrow> tables \<Rightarrow> session option" where
  "find_session i t = find (\<lambda>s. s_id s = i) (sessions t)"

definition rotate :: "uuid \<Rightarrow> new_session \<Rightarrow> (sql_error, session) svc" where
  "rotate old_id n =
     in_tx (\<lambda>e. e) (\<lambda>tx.
       bnd (bnd (db_read tx (\<lambda>_ t. find_session old_id t)) (ok_or RowNotFound)) (\<lambda>old.
       if s_revoked_at old \<noteq> None then throw RowNotFound else
       bnd fresh_uuid (\<lambda>i.
       bnd (db_stmt tx (\<lambda>now t. insert_rotated i now old n t)) (\<lambda>new.
       seq (db_stmt tx (\<lambda>now t. update_sessions (\<lambda>s. s_id s = old_id) (mark_rotated now (s_id new)) t))
         (ret new)))))"

definition revoke :: "executor \<Rightarrow> uuid \<Rightarrow> (sql_error, unit) svc" where
  "revoke ex i =
     seq (db_stmt ex (\<lambda>now t. update_sessions (\<lambda>s. s_id s = i \<and> s_revoked_at s = None) (mark_revoked now) t))
       (ret ())"

definition revoke_all_by_user :: "executor \<Rightarrow> uuid \<Rightarrow> (sql_error, nat) svc" where
  "revoke_all_by_user ex u =
     db_stmt ex (\<lambda>now t. update_sessions (\<lambda>s. s_user_id s = u \<and> s_revoked_at s = None) (mark_revoked now) t)"

definition revoke_personal_access_sessions :: "executor \<Rightarrow> uuid \<Rightarrow> (sql_error, session list) svc" where
  "revoke_personal_access_sessions ex u =
     db_stmt ex (\<lambda>now t. update_sessions_returning
       (\<lambda>s. s_user_id s = u \<and> s_session_type s = PersonalAccessToken \<and> s_revoked_at s = None) (mark_revoked now) t)"

definition revoke_all_by_user_returning :: "executor \<Rightarrow> uuid \<Rightarrow> (sql_error, session list) svc" where
  "revoke_all_by_user_returning ex u =
     db_stmt ex (\<lambda>now t. update_sessions_returning
       (\<lambda>s. s_user_id s = u \<and> s_revoked_at s = None) (mark_revoked now) t)"

definition revoke_others :: "executor \<Rightarrow> uuid \<Rightarrow> uuid \<Rightarrow> (sql_error, nat) svc" where
  "revoke_others ex u keep =
     db_stmt ex (\<lambda>now t. update_sessions
       (\<lambda>s. s_user_id s = u \<and> s_id s \<noteq> keep \<and> s_revoked_at s = None) (mark_revoked now) t)"

definition repo_revoke_family :: "uuid \<Rightarrow> (sql_error, nat) svc" where
  "repo_revoke_family i = db_stmt Pool (\<lambda>now t. revoke_session_family i RefreshTokenReuse now t)"

definition revoke_by_client :: "executor \<Rightarrow> string \<Rightarrow> (sql_error, session list) svc" where
  "revoke_by_client ex c =
     db_stmt ex (\<lambda>now t. update_sessions_returning
       (\<lambda>s. s_client_id s = Some c \<and> s_revoked_at s = None) (mark_revoked now) t)"

definition set_auth_time :: "executor \<Rightarrow> uuid \<Rightarrow> instant \<Rightarrow> (sql_error, unit) svc" where
  "set_auth_time ex i at =
     seq (db_stmt ex (\<lambda>now t. update_sessions (\<lambda>s. s_id s = i) (\<lambda>s. s\<lparr>s_auth_time := Some at\<rparr>) t)) (ret ())"

section \<open>Reads\<close>

definition family_session_ids :: "uuid \<Rightarrow> (sql_error, uuid list) svc" where
  "family_session_ids i =
     db_read Pool (\<lambda>_ t.
       case find_session i t of
         None \<Rightarrow> []
       | Some s \<Rightarrow> map s_id (filter (in_family (s_session_family_id s)) (sessions t)))"

definition find_by_token_hash :: "bytes \<Rightarrow> (sql_error, session option) svc" where
  "find_by_token_hash h = db_read Pool (\<lambda>_ t. find (\<lambda>s. s_token_hash s = h) (sessions t))"

definition proved_second_factor :: "uuid \<Rightarrow> (sql_error, bool) svc" where
  "proved_second_factor i =
     db_read Pool (\<lambda>_ t. case find_session i t of None \<Rightarrow> False | Some s \<Rightarrow> s_mfa s)"

definition find_by_id :: "uuid \<Rightarrow> (sql_error, session option) svc" where
  "find_by_id i = db_read Pool (\<lambda>_ t. find_session i t)"

record session_validation =
  sv_expires_at :: instant
  sv_revoked_at :: "instant option"
  sv_session_type :: session_type
  sv_scoped :: bool
  sv_for_client :: bool
  sv_primary_client :: bool

definition validation_is_active :: "session_validation \<Rightarrow> instant \<Rightarrow> bool" where
  "validation_is_active v now \<longleftrightarrow> sv_revoked_at v = None \<and> now < sv_expires_at v"

definition validation_first_party :: "session_validation \<Rightarrow> bool" where
  "validation_first_party v =
     is_first_party (sv_session_type v) (sv_scoped v) (sv_for_client v) (sv_primary_client v)"

definition find_client :: "string \<Rightarrow> tables \<Rightarrow> registered_client option" where
  "find_client c t = find (\<lambda>r. cl_client_id r = c) (registered_clients t)"

definition validation_of :: "tables \<Rightarrow> session \<Rightarrow> session_validation" where
  "validation_of t s =
     \<lparr>sv_expires_at = s_expires_at s, sv_revoked_at = s_revoked_at s,
      sv_session_type = s_session_type s, sv_scoped = (s_scopes s \<noteq> None),
      sv_for_client = (s_client_id s \<noteq> None),
      sv_primary_client =
        (case s_client_id s of
           None \<Rightarrow> False
         | Some c \<Rightarrow> (case find_client c t of None \<Rightarrow> False | Some r \<Rightarrow> cl_is_primary r))\<rparr>"

definition find_validation_by_id :: "uuid \<Rightarrow> (sql_error, session_validation option) svc" where
  "find_validation_by_id i = db_read Pool (\<lambda>_ t. map_option (validation_of t) (find_session i t))"

definition active_of_user :: "uuid \<Rightarrow> tables \<Rightarrow> session list" where
  "active_of_user u t =
     sort_key (\<lambda>s. - s_last_used_at s) (filter (\<lambda>s. s_user_id s = u \<and> s_revoked_at s = None) (sessions t))"

definition find_active_by_user :: "executor \<Rightarrow> uuid \<Rightarrow> (sql_error, session list) svc" where
  "find_active_by_user ex u = db_read ex (\<lambda>_ t. active_of_user u t)"

record active_session_summary =
  as_id :: uuid
  as_last_used_at :: instant
  as_expires_at :: instant
  as_created_at :: instant
  as_ip_address :: "ipnetwork option"
  as_device_name :: "unicode option"
  as_user_agent :: "string option"
  as_session_type :: session_type
  as_client_id :: "string option"

definition summary_of :: "session \<Rightarrow> active_session_summary" where
  "summary_of s =
     \<lparr>as_id = s_id s, as_last_used_at = s_last_used_at s, as_expires_at = s_expires_at s,
      as_created_at = s_created_at s, as_ip_address = s_ip_address s, as_device_name = s_device_name s,
      as_user_agent = s_user_agent s, as_session_type = s_session_type s, as_client_id = s_client_id s\<rparr>"

definition find_active_summary_by_user :: "uuid \<Rightarrow> (sql_error, active_session_summary list) svc" where
  "find_active_summary_by_user u = db_read Pool (\<lambda>_ t. map summary_of (active_of_user u t))"

definition count_active_by_type :: "uuid \<Rightarrow> session_type \<Rightarrow> (sql_error, int) svc" where
  "count_active_by_type u ty =
     db_read Pool (\<lambda>now t. int (length (filter
       (\<lambda>s. s_user_id s = u \<and> s_session_type s = ty \<and> s_revoked_at s = None \<and> now < s_expires_at s) (sessions t))))"

definition count_active_by_client :: "uuid \<Rightarrow> string \<Rightarrow> (sql_error, int) svc" where
  "count_active_by_client u c =
     db_read Pool (\<lambda>now t. int (length (filter
       (\<lambda>s. s_user_id s = u \<and> s_client_id s = Some c \<and> s_session_type s = Device \<and>
            s_revoked_at s = None \<and> now < s_expires_at s) (sessions t))))"

section \<open>Retention\<close>

text \<open>
  \<^verbatim>\<open>DELETE FROM sessions\<close>: the rows that referred to a deleted one as their
  replacement lose the reference (\<^verbatim>\<open>ON DELETE SET NULL\<close>), and the checks run on
  what that update leaves.
\<close>

definition forget_replacement :: "uuid list \<Rightarrow> session \<Rightarrow> session" where
  "forget_replacement gone s =
     (case s_replaced_by_session_id s of
        Some i \<Rightarrow> if i \<in> set gone then s\<lparr>s_replaced_by_session_id := None\<rparr> else s
      | None \<Rightarrow> s)"

definition delete_sessions :: "uuid list \<Rightarrow> tables \<Rightarrow> (sql_error + nat) \<times> tables" where
  "delete_sessions gone t =
     put_sessions (length (filter (\<lambda>s. s_id s \<in> set gone) (sessions t)))
       (map (forget_replacement gone) (filter (\<lambda>s. s_id s \<notin> set gone) (sessions t))) t"

definition limit_rows :: "nat option \<Rightarrow> 'r list \<Rightarrow> 'r list" where
  "limit_rows batch rows = (case batch of None \<Rightarrow> rows | Some n \<Rightarrow> take n rows)"

definition cleanup_expired_sessions ::
  "duration \<Rightarrow> nat option \<Rightarrow> instant \<Rightarrow> tables \<Rightarrow> (sql_error + nat) \<times> tables" where
  "cleanup_expired_sessions grace batch now t =
     (case delete_sessions (map s_id (limit_rows batch (filter (\<lambda>s. s_expires_at s < now - grace) (sessions t)))) t of
        (Inl e, _) \<Rightarrow> (Inl e, t)
      | (Inr expired, t1) \<Rightarrow>
          if (case batch of None \<Rightarrow> False | Some n \<Rightarrow> n \<le> expired) then (Inr expired, t1)
          else
            (case delete_sessions
                (map s_id (limit_rows (map_option (\<lambda>n. n - expired) batch)
                  (filter (\<lambda>s. case s_revoked_at s of None \<Rightarrow> False | Some r \<Rightarrow> r < now - grace) (sessions t1)))) t1 of
               (Inl e, _) \<Rightarrow> (Inl e, t)
             | (Inr revoked, t2) \<Rightarrow> (Inr (expired + revoked), t2)))"

section \<open>Writes keep the constraints\<close>

lemma map_filter_replacements [simp]:
  "replacements (xs @ ys) = replacements xs @ replacements ys"
  "replacements [s] = (case s_replaced_by_session_id s of None \<Rightarrow> [] | Some i \<Rightarrow> [i])"
  "replacements [] = []"
  by (simp_all add: replacements_def map_filter_def split: option.split)

lemma replacements_update:
  "(\<And>s. s_replaced_by_session_id (f s) = s_replaced_by_session_id s) \<Longrightarrow>
   replacements (update_where P f rows) = replacements rows"
  by (induction rows) (auto simp: replacements_def update_where_def map_filter_simps split: option.split)

lemma set_replacements: "set (replacements rows) = {i. \<exists>s \<in> set rows. s_replaced_by_session_id s = Some i}"
  by (force simp: replacements_def map_filter_def)

text \<open>An update that leaves the keys alone, and on which the checks still hold.\<close>

lemma update_where_ok:
  assumes "session_table_ok rows"
    and "\<And>s. s_id (f s) = s_id s" "\<And>s. s_token_hash (f s) = s_token_hash s"
    and "\<And>s. s_replaced_by_session_id (f s) = s_replaced_by_session_id s"
    and "\<And>s. s \<in> set rows \<Longrightarrow> P s \<Longrightarrow> session_checks s \<Longrightarrow> session_checks (f s)"
  shows "session_table_ok (update_where P f rows)"
proof -
  have "session_checks s" if "s \<in> set (update_where P f rows)" for s
    using that assms(1,5) by (auto simp: set_update_where session_table_ok_def list_all_iff)
  then show ?thesis
    using assms(1-4)
    by (simp add: session_table_ok_def map_update_where replacements_update list_all_iff)
qed

lemma mark_revoked_checks:
  "session_checks s \<Longrightarrow> s_created_at s \<le> now \<Longrightarrow> session_checks (mark_revoked now s)"
  by (auto simp: session_checks_def mark_revoked_def ge_opt_def)

lemma mark_compromised_checks:
  "session_checks s \<Longrightarrow> s_created_at s \<le> now \<Longrightarrow> session_checks (mark_compromised now reason s)"
  by (auto simp: session_checks_def mark_compromised_def ge_opt_def coalesce_def split: option.splits)

lemma mark_fields [simp]:
  "s_id (mark_revoked now s) = s_id s" "s_token_hash (mark_revoked now s) = s_token_hash s"
  "s_replaced_by_session_id (mark_revoked now s) = s_replaced_by_session_id s"
  "s_created_at (mark_revoked now s) = s_created_at s"
  "s_session_family_id (mark_revoked now s) = s_session_family_id s"
  "s_revoked_at (mark_revoked now s) = Some now"
  "s_id (mark_compromised now reason s) = s_id s"
  "s_token_hash (mark_compromised now reason s) = s_token_hash s"
  "s_replaced_by_session_id (mark_compromised now reason s) = s_replaced_by_session_id s"
  "s_created_at (mark_compromised now reason s) = s_created_at s"
  "s_session_family_id (mark_compromised now reason s) = s_session_family_id s"
  "s_revoked_at (mark_compromised now reason s) \<noteq> None"
  "s_compromised_at (mark_compromised now reason s) \<noteq> None"
  "s_id (mark_rotated now i s) = s_id s" "s_token_hash (mark_rotated now i s) = s_token_hash s"
  "s_created_at (mark_rotated now i s) = s_created_at s"
  "s_session_family_id (mark_rotated now i s) = s_session_family_id s"
  "s_revoked_at (mark_rotated now i s) = Some now"
  "s_replaced_by_session_id (mark_rotated now i s) = Some i"
  by (simp_all add: mark_revoked_def mark_compromised_def mark_rotated_def coalesce_def split: option.split)

lemma inserted_fields [simp]:
  "s_id (inserted_row i now n) = i" "s_id (rotated_row i now old n) = i"
  "s_token_hash (inserted_row i now n) = ns_token_hash n" "s_token_hash (rotated_row i now old n) = ns_token_hash n"
  "s_revoked_at (inserted_row i now n) = None" "s_revoked_at (rotated_row i now old n) = None"
  "s_created_at (inserted_row i now n) = now" "s_created_at (rotated_row i now old n) = now"
  "s_session_family_id (inserted_row i now n) = ns_session_family_id n"
  "s_session_family_id (rotated_row i now old n) = ns_session_family_id n"
  "s_user_id (inserted_row i now n) = ns_user_id n" "s_user_id (rotated_row i now old n) = ns_user_id n"
  "s_expires_at (rotated_row i now old n) = ns_expires_at n"
  "s_expires_at (inserted_row i now n) = ns_expires_at n"
  "s_replaced_by_session_id (inserted_row i now n) = None"
  "s_replaced_by_session_id (rotated_row i now old n) = None"
  "s_mfa (inserted_row i now n) = ns_mfa n" "s_mfa (rotated_row i now old n) = s_mfa old"
  "s_client_id (inserted_row i now n) = ns_client_id n" "s_client_id (rotated_row i now old n) = ns_client_id n"
  "s_session_type (inserted_row i now n) = ns_session_type n"
  "s_session_type (rotated_row i now old n) = ns_session_type n"
  "s_scopes (inserted_row i now n) = ns_scopes n"
  "s_rotated_at (inserted_row i now n) = None" "s_rotated_at (rotated_row i now old n) = None"
  "s_compromised_at (inserted_row i now n) = None" "s_compromised_at (rotated_row i now old n) = None"
  by (simp_all add: inserted_row_def rotated_row_def)

text \<open>The tables a reachable database holds: the constraints, and no row from the future.\<close>

definition table_inv :: "instant \<Rightarrow> tables \<Rightarrow> bool" where
  "table_inv now t \<longleftrightarrow> session_table_ok (sessions t) \<and> list_all (\<lambda>s. s_created_at s \<le> now) (sessions t)"

lemma table_inv_later: "table_inv now t \<Longrightarrow> now \<le> now' \<Longrightarrow> table_inv now' t"
  by (auto simp: table_inv_def list_all_iff)

lemma put_sessions_ok:
  "put_sessions x rows t = (Inr y, t') \<longleftrightarrow> session_table_ok rows \<and> y = x \<and> t' = t\<lparr>sessions := rows\<rparr>"
  by (auto simp: put_sessions_def)

lemma put_sessions_err: "put_sessions x rows t = (Inl e, t') \<Longrightarrow> t' = t"
  by (auto simp: put_sessions_def split: if_splits)

lemma revocation_total:
  assumes "table_inv now t"
  shows "update_sessions P (mark_revoked now) t =
    (Inr (length (filter P (sessions t))), t\<lparr>sessions := update_where P (mark_revoked now) (sessions t)\<rparr>)"
proof -
  have "session_table_ok (update_where P (mark_revoked now) (sessions t))"
    using assms by (intro update_where_ok) (auto simp: table_inv_def list_all_iff intro: mark_revoked_checks)
  then show ?thesis by (simp add: update_sessions_def put_sessions_def)
qed

lemma revocation_returning_total:
  assumes "table_inv now t"
  shows "update_sessions_returning P (mark_revoked now) t =
    (Inr (map (mark_revoked now) (filter P (sessions t))),
     t\<lparr>sessions := update_where P (mark_revoked now) (sessions t)\<rparr>)"
proof -
  have "session_table_ok (update_where P (mark_revoked now) (sessions t))"
    using assms by (intro update_where_ok) (auto simp: table_inv_def list_all_iff intro: mark_revoked_checks)
  then show ?thesis by (simp add: update_sessions_returning_def put_sessions_def)
qed

definition family_revoked :: "instant \<Rightarrow> uuid \<Rightarrow> tables \<Rightarrow> tables" where
  "family_revoked now fam t =
     t\<lparr>sessions := update_where (\<lambda>r. in_family fam r \<and> not_marked r)
        (mark_compromised now RefreshTokenReuse) (sessions t)\<rparr>"

lemma revoke_session_family_total:
  assumes "table_inv now t" "find_session i t = Some s"
  shows "revoke_session_family i RefreshTokenReuse now t =
    (Inr (length (filter (\<lambda>r. in_family (s_session_family_id s) r \<and> not_marked r) (sessions t))),
     family_revoked now (s_session_family_id s) t)"
proof -
  have "session_table_ok (update_where (\<lambda>r. in_family (s_session_family_id s) r \<and> not_marked r)
          (mark_compromised now RefreshTokenReuse) (sessions t))"
    using assms(1)
    by (intro update_where_ok) (auto simp: table_inv_def list_all_iff intro: mark_compromised_checks)
  then show ?thesis
    using assms(2)
    by (simp add: revoke_session_family_def find_session_def update_sessions_def put_sessions_def family_revoked_def)
qed

lemma family_revoked_dead:
  assumes "s \<in> set (sessions (family_revoked now fam t))" "s_session_family_id s = fam"
  shows "s_revoked_at s \<noteq> None \<and> s_compromised_at s \<noteq> None"
proof -
  let ?P = "\<lambda>r. in_family fam r \<and> not_marked r"
  have "s \<in> mark_compromised now RefreshTokenReuse ` {r \<in> set (sessions t). ?P r} \<union>
            {r \<in> set (sessions t). \<not> ?P r}"
    using assms(1) by (simp add: family_revoked_def set_update_where)
  then consider r where "s = mark_compromised now RefreshTokenReuse r" | "\<not> not_marked s"
    using assms(2) unfolding in_family_def by blast
  then show ?thesis
  proof cases
    case 1
    then show ?thesis by simp
  next
    case 2
    then show ?thesis unfolding not_marked_def by simp
  qed
qed

section \<open>Rotation\<close>

text \<open>What a committed rotation does to the tables.\<close>

definition rotate_tables :: "uuid \<Rightarrow> instant \<Rightarrow> uuid \<Rightarrow> new_session \<Rightarrow> tables \<Rightarrow> (sql_error + session) \<times> tables" where
  "rotate_tables i now old_id n t =
     (case find_session old_id t of
        None \<Rightarrow> (Inl RowNotFound, t)
      | Some old \<Rightarrow>
          if s_revoked_at old \<noteq> None then (Inl RowNotFound, t)
          else
            (case insert_rotated i now old n t of
               (Inl e, _) \<Rightarrow> (Inl e, t)
             | (Inr new, t1) \<Rightarrow>
                 (case update_sessions (\<lambda>s. s_id s = old_id) (mark_rotated now (s_id new)) t1 of
                    (Inl e, _) \<Rightarrow> (Inl e, t)
                  | (Inr _, t2) \<Rightarrow> (Inr new, t2))))"

lemma rotate_tables_ok:
  assumes "rotate_tables i now old_id n t = (Inr new, t')"
  obtains old where "find_session old_id t = Some old" "s_revoked_at old = None"
    "new = rotated_row i now old n"
    "t' = t\<lparr>sessions := update_where (\<lambda>s. s_id s = old_id) (mark_rotated now i) (sessions t @ [new])\<rparr>"
    "session_table_ok (sessions t')" "session_table_ok (sessions t @ [new])"
  using assms
  by (auto simp: rotate_tables_def insert_rotated_def update_sessions_def put_sessions_ok Let_def
      split: option.splits if_splits prod.splits sum.splits)

text \<open>The transaction of \<^const>\<open>rotate\<close>: a session it returns was written by
  \<^const>\<open>rotate_tables\<close>; an error left the tables alone, unless it is the
  lost answer of a commit; and a missing or revoked row is reported as such.\<close>

definition rotated_in :: "uuid \<Rightarrow> new_session \<Rightarrow> world \<Rightarrow> session \<Rightarrow> world \<Rightarrow> bool" where
  "rotated_in old_id n w new w' \<longleftrightarrow>
     (\<exists>i now. rotate_tables i now old_id n (tables w) = (Inr new, tables w') \<and>
        db_now w \<le> now \<and> now \<le> db_now w' \<and> uuids w \<le> i \<and> i < uuids w')"

lemma stmt_now_Tx [simp]: "stmt_now (Tx t) w = t"
  by (simp add: stmt_now_def)

lemma stmt_now_Pool [simp]: "stmt_now Pool w = db_now w"
  by (simp add: stmt_now_def)

lemma rotated_inI:
  assumes "find_session old_id (tables w) = Some old" "s_revoked_at old = None"
    and "insert_rotated (uuids w) (db_now (tick w)) old n (tables w) = (Inr new, t1)"
    and "update_sessions (\<lambda>s. s_id s = old_id) (mark_rotated (db_now (tick w)) (s_id new)) t1 = (Inr k, tables w')"
    and "db_now (tick w) \<le> db_now w'" "uuids w' = Suc (uuids w)"
  shows "rotated_in old_id n w new w'"
proof -
  have "rotate_tables (uuids w) (db_now (tick w)) old_id n (tables w) = (Inr new, tables w')"
    using assms by (simp add: rotate_tables_def)
  then show ?thesis
    unfolding rotated_in_def using assms(5,6) by (metis db_now_tick lessI order_refl)
qed

lemma db_now_ticks: "db_now w \<le> db_now w' \<Longrightarrow> db_now w \<le> db_now (tick w')"
  by (meson db_now_tick order_trans)

lemma not_RowNotFound [simp]:
  "insert_rotated i now old n t \<noteq> (Inl RowNotFound, t')"
  "update_sessions P f t \<noteq> (Inl RowNotFound, t')"
  by (simp_all add: insert_rotated_def update_sessions_def put_sessions_def Let_def)

lemma rotate_wp:
  "wp (rotate old_id n)
     (\<lambda>new w'. rotated_in old_id n w new w')
     (\<lambda>e w'. (tables w' = tables w \<and>
              (e = RowNotFound \<longrightarrow> (\<forall>old. find_session old_id (tables w) = Some old \<longrightarrow> s_revoked_at old \<noteq> None))) \<or>
             (e = SqlFailed \<and> (\<exists>new. rotated_in old_id n w new w'))) w"
  unfolding rotate_def wp_in_tx
  by (auto simp: wp_simps wp_db_stmt db_now_ticks
      split: outcome.split option.split prod.split sum.split
      intro!: disjI2 exI intro: rotated_inI)

section \<open>Every interleaving of the statements\<close>

text \<open>
  A state of the table under concurrent requests: the database clock, the
  supply of identifiers, the tables. Each committed statement or transaction is
  one step, in any order: a new sign-in (a fresh family), a rotation (whose
  input continues the session it replaces), revocations by any condition, the
  revocation of a family, a recorded authentication time, a deletion, a write to
  another table.
\<close>

type_synonym sess_state = "instant \<times> uuid \<times> tables"

definition continues :: "session \<Rightarrow> new_session \<Rightarrow> bool" where
  "continues old n \<longleftrightarrow>
     ns_user_id n = s_user_id old \<and> ns_session_family_id n = s_session_family_id old \<and>
     ns_session_type n = s_session_type old \<and> ns_client_id n = s_client_id old \<and>
     (ns_family_created_at n = None \<or> ns_family_created_at n = Some (s_family_created_at old))"

inductive session_step :: "sess_state \<Rightarrow> sess_state \<Rightarrow> bool" where
  elapse: "now \<le> now' \<Longrightarrow> u \<le> u' \<Longrightarrow> session_step (now, u, t) (now', u', t)"
| sign_in: "insert_session i now n t = (Inr s, t') \<Longrightarrow> u \<le> i \<Longrightarrow> u \<le> ns_session_family_id n \<Longrightarrow>
     i < u' \<Longrightarrow> ns_session_family_id n < u' \<Longrightarrow> session_step (now, u, t) (now, u', t')"
| rotation: "rotate_tables i now old_id n t = (Inr s, t') \<Longrightarrow> find_session old_id t = Some old \<Longrightarrow>
     continues old n \<Longrightarrow> u \<le> i \<Longrightarrow> i < u' \<Longrightarrow> session_step (now, u, t) (now, u', t')"
| revocation: "update_sessions P (mark_revoked now) t = (Inr k, t') \<Longrightarrow>
     (\<And>s. P s \<Longrightarrow> s_revoked_at s = None) \<Longrightarrow> session_step (now, u, t) (now, u, t')"
| family_revocation: "revoke_session_family i reason now t = (Inr k, t') \<Longrightarrow>
     session_step (now, u, t) (now, u, t')"
| authentication: "update_sessions (\<lambda>s. s_id s = i) (\<lambda>s. s\<lparr>s_auth_time := Some at\<rparr>) t = (Inr k, t') \<Longrightarrow>
     session_step (now, u, t) (now, u, t')"
| deletion: "delete_sessions gone t = (Inr k, t') \<Longrightarrow> session_step (now, u, t) (now, u, t')"
| other_table: "sessions t' = sessions t \<Longrightarrow> session_step (now, u, t) (now, u, t')"

inductive_cases session_stepE: "session_step (now, u, t) (now', u', t')"

definition live :: "session \<Rightarrow> bool" where
  "live s \<longleftrightarrow> s_revoked_at s = None"

definition same_sign_in :: "session \<Rightarrow> session \<Rightarrow> bool" where
  "same_sign_in s s' \<longleftrightarrow>
     s_user_id s = s_user_id s' \<and> s_client_id s = s_client_id s' \<and> s_session_type s = s_session_type s' \<and>
     s_mfa s = s_mfa s' \<and> s_family_created_at s = s_family_created_at s'"

text \<open>Identifiers come from the supply, a family has at most one live session,
  and its sessions agree on the sign-in they come from.\<close>

definition families_ok :: "uuid \<Rightarrow> session list \<Rightarrow> bool" where
  "families_ok u rows \<longleftrightarrow>
     (\<forall>s \<in> set rows. s_id s < u \<and> s_session_family_id s < u) \<and>
     (\<forall>s \<in> set rows. \<forall>s' \<in> set rows. s_session_family_id s = s_session_family_id s' \<longrightarrow>
        same_sign_in s s' \<and> (live s \<and> live s' \<longrightarrow> s_id s = s_id s'))"

definition state_ok :: "sess_state \<Rightarrow> bool" where
  "state_ok st = (case st of (now, u, t) \<Rightarrow> table_inv now t \<and> families_ok u (sessions t))"

text \<open>What a change of some rows may do without touching their family.\<close>

definition inherits :: "session \<Rightarrow> session \<Rightarrow> bool" where
  "inherits s s' \<longleftrightarrow>
     s_id s' = s_id s \<and> s_session_family_id s' = s_session_family_id s \<and> same_sign_in s s' \<and>
     s_created_at s' = s_created_at s \<and> (live s' \<longrightarrow> live s)"

lemma inherits_refl: "inherits s s"
  by (simp add: inherits_def same_sign_in_def)

lemma families_ok_inherits:
  assumes "families_ok u rows" "\<And>s'. s' \<in> set rows' \<Longrightarrow> \<exists>s \<in> set rows. inherits s s'"
  shows "families_ok u rows'"
proof -
  have one: "\<exists>s \<in> set rows. inherits s s' \<and> s_id s' < u \<and> s_session_family_id s' < u" if "s' \<in> set rows'" for s'
    using assms that unfolding families_ok_def inherits_def by metis
  have "same_sign_in a' b' \<and> (live a' \<and> live b' \<longrightarrow> s_id a' = s_id b')"
    if mem: "a' \<in> set rows'" "b' \<in> set rows'" and fam: "s_session_family_id a' = s_session_family_id b'" for a' b'
  proof -
    obtain a b where ab: "a \<in> set rows" "inherits a a'" "b \<in> set rows" "inherits b b'"
      using one mem by metis
    then have "same_sign_in a b \<and> (live a \<and> live b \<longrightarrow> s_id a = s_id b)"
      using assms(1) fam unfolding families_ok_def inherits_def by metis
    then show ?thesis
      using ab(2,4) unfolding inherits_def same_sign_in_def by metis
  qed
  then show ?thesis
    using one unfolding families_ok_def by metis
qed

lemma update_where_inherits:
  assumes "\<And>s. inherits s (f s)"
  shows "s' \<in> set (update_where P f rows) \<Longrightarrow> \<exists>s \<in> set rows. inherits s s'"
  using assms inherits_refl by (auto simp: set_update_where)

lemma inherits_marks:
  "inherits s (mark_revoked now s)" "inherits s (mark_compromised now reason s)"
  "inherits s (mark_rotated now i s)" "inherits s (s\<lparr>s_auth_time := at\<rparr>)"
  "inherits s (forget_replacement gone s)"
  by (auto simp: inherits_def same_sign_in_def mark_revoked_def mark_compromised_def mark_rotated_def
      live_def coalesce_def forget_replacement_def split: option.splits)

lemma same_sign_in_refl: "same_sign_in s s"
  by (simp add: same_sign_in_def)

lemma same_sign_in_sym: "same_sign_in s s' \<Longrightarrow> same_sign_in s' s"
  by (simp add: same_sign_in_def)

lemma families_ok_mono: "families_ok u rows \<Longrightarrow> u \<le> u' \<Longrightarrow> families_ok u' rows"
  unfolding families_ok_def by (meson less_le_trans)

lemma families_okD:
  assumes "families_ok u rows" "s \<in> set rows"
  shows "s_id s < u" "s_session_family_id s < u"
    and "s' \<in> set rows \<Longrightarrow> s_session_family_id s = s_session_family_id s' \<Longrightarrow> same_sign_in s s'"
    and "s' \<in> set rows \<Longrightarrow> s_session_family_id s = s_session_family_id s' \<Longrightarrow> live s \<Longrightarrow> live s' \<Longrightarrow> s_id s = s_id s'"
  using assms unfolding families_ok_def by blast+

lemma families_ok_insert:
  assumes ok: "families_ok u rows" and id: "u \<le> s_id new" "s_id new < u'" "s_session_family_id new < u'"
    and new: "\<And>a. a \<in> set rows \<Longrightarrow> s_session_family_id a = s_session_family_id new \<Longrightarrow> same_sign_in a new \<and> \<not> live a"
  shows "families_ok u' (rows @ [new])"
proof -
  have ok': "families_ok u' rows"
    using families_ok_mono [OF ok] id by simp
  have "same_sign_in s s' \<and> (live s \<and> live s' \<longrightarrow> s_id s = s_id s')"
    if mem: "s \<in> set rows \<or> s = new" "s' \<in> set rows \<or> s' = new"
      and fam: "s_session_family_id s = s_session_family_id s'" for s s'
    using mem
  proof (elim disjE)
    assume "s \<in> set rows" "s' \<in> set rows"
    then show ?thesis using families_okD(3,4) [OF ok] fam by blast
  next
    assume "s \<in> set rows" "s' = new"
    then show ?thesis using new [of s] fam by simp
  next
    assume "s = new" "s' \<in> set rows"
    then show ?thesis using new [of s'] fam same_sign_in_sym by simp
  next
    assume "s = new" "s' = new"
    then show ?thesis by (simp add: same_sign_in_refl)
  qed
  moreover have "s_id s < u' \<and> s_session_family_id s < u'" if "s \<in> set rows \<or> s = new" for s
    using that families_okD(1,2) [OF ok'] id(2,3) by blast
  moreover have "s \<in> set (rows @ [new]) \<longleftrightarrow> s \<in> set rows \<or> s = new" for s
    by auto
  ultimately show ?thesis
    unfolding families_ok_def by blast
qed

lemma state_ok_inherits:
  assumes "state_ok (now, u, t)" "session_table_ok rows'" "\<And>s'. s' \<in> set rows' \<Longrightarrow> \<exists>s \<in> set (sessions t). inherits s s'"
  shows "state_ok (now, u, t\<lparr>sessions := rows'\<rparr>)"
proof -
  have "s_created_at s' \<le> now" if "s' \<in> set rows'" for s'
    using assms(1) assms(3) [OF that] by (auto simp: state_ok_def table_inv_def inherits_def list_all_iff)
  then show ?thesis
    using assms families_ok_inherits [of u "sessions t" rows']
    by (auto simp: state_ok_def table_inv_def list_all_iff)
qed

lemma state_ok_update:
  assumes "state_ok (now, u, t)" "update_sessions P f t = (Inr k, t')" "\<And>s. inherits s (f s)"
  shows "state_ok (now, u, t')"
  using assms update_where_inherits [of f _ P "sessions t"]
  by (auto simp: update_sessions_def put_sessions_ok intro: state_ok_inherits)

lemma state_ok_sign_in:
  assumes "state_ok (now, u, t)" "insert_session i now n t = (Inr s, t')"
    and "u \<le> i" "u \<le> ns_session_family_id n" "i < u'" "ns_session_family_id n < u'"
  shows "state_ok (now, u', t')"
proof -
  let ?new = "inserted_row i now n"
  have t': "t' = t\<lparr>sessions := sessions t @ [?new]\<rparr>" "session_table_ok (sessions t @ [?new])"
    using assms(2) by (auto simp: insert_session_def put_sessions_ok Let_def split: if_splits)
  have ok: "families_ok u (sessions t)"
    using assms(1) by (simp add: state_ok_def)
  have "families_ok u' (sessions t @ [?new])"
  proof (rule families_ok_insert [OF ok])
    fix a assume "a \<in> set (sessions t)" "s_session_family_id a = s_session_family_id ?new"
    then have "s_session_family_id ?new < u"
      using families_okD(2) [OF ok] by metis
    then show "same_sign_in a ?new \<and> \<not> live a"
      using assms(4) by simp
  qed (use assms(3-6) in simp_all)
  then show ?thesis
    using assms(1) t' by (simp add: state_ok_def table_inv_def)
qed

lemma state_ok_rotation:
  assumes ok: "state_ok (now, u, t)" and rot: "rotate_tables i now old_id n t = (Inr s, t')"
    and old: "find_session old_id t = Some old" and cont: "continues old n" and i: "u \<le> i" "i < u'"
  shows "state_ok (now, u', t')"
proof -
  let ?new = "rotated_row i now old n" and ?mark = "update_where (\<lambda>s. s_id s = old_id) (mark_rotated now i)"
  have t': "t' = t\<lparr>sessions := ?mark (sessions t @ [?new])\<rparr>" "session_table_ok (sessions t')"
    and live_old: "s_revoked_at old = None"
    using rotate_tables_ok [OF rot] old by (metis option.inject)+
  have mem: "old \<in> set (sessions t)" "s_id old = old_id"
    using find_Some_set [OF old [unfolded find_session_def]] by auto
  have fam: "families_ok u (sessions t)"
    using ok by (simp add: state_ok_def)
  then have "old_id < u" "s_session_family_id old < u"
    using mem families_okD(1,2) [OF fam] by auto
  then have split: "?mark (sessions t @ [?new]) = ?mark (sessions t) @ [?new]"
    using i by (simp add: update_where_def)
  have marked: "families_ok u (?mark (sessions t))"
    using fam by (rule families_ok_inherits) (rule update_where_inherits [OF inherits_marks(3)])
  have "families_ok u' (?mark (sessions t) @ [?new])"
  proof (rule families_ok_insert [OF marked])
    fix a assume a: "a \<in> set (?mark (sessions t))" "s_session_family_id a = s_session_family_id ?new"
    then obtain b where b: "b \<in> set (sessions t)" "a = (if s_id b = old_id then mark_rotated now i b else b)"
      by (auto simp: update_where_def)
    have b_fam: "s_session_family_id b = s_session_family_id old"
      using a(2) b(2) cont by (auto simp: continues_def split: if_splits)
    have "same_sign_in b old" "live b \<Longrightarrow> s_id b = old_id"
      using families_okD(3,4) [OF fam b(1) mem(1) b_fam] live_old mem(2) by (simp_all add: live_def)
    moreover have "same_sign_in b a"
      using b(2) inherits_marks(3) by (simp add: inherits_def same_sign_in_refl)
    moreover have "same_sign_in old ?new"
      using cont by (auto simp: same_sign_in_def continues_def rotated_row_def inserted_row_def)
    moreover have "live a \<Longrightarrow> live b \<and> s_id b \<noteq> old_id"
      using b(2) by (auto simp: live_def split: if_splits)
    ultimately show "same_sign_in a ?new \<and> \<not> live a"
      by (auto simp: same_sign_in_def)
  qed (use i cont \<open>s_session_family_id old < u\<close> in \<open>auto simp: continues_def\<close>)
  moreover have "list_all (\<lambda>s. s_created_at s \<le> now) (?mark (sessions t) @ [?new])"
    using ok by (auto simp: state_ok_def table_inv_def list_all_iff update_where_def)
  ultimately show ?thesis
    using t' split by (simp add: state_ok_def table_inv_def)
qed

lemma session_step_ok:
  assumes "session_step x y" "state_ok x"
  shows "state_ok y"
  using assms
proof (induction rule: session_step.induct)
  case (elapse now now' u u' t)
  then show ?case
    unfolding state_ok_def by (auto intro: families_ok_mono table_inv_later)
next
  case (sign_in i now n t s t' u u')
  then show ?case by (rule_tac state_ok_sign_in)
next
  case (rotation i now old_id n t s t' old u u')
  then show ?case by (rule_tac state_ok_rotation)
next
  case (revocation P now t k t' u)
  then show ?case using inherits_marks(1) by (blast intro: state_ok_update)
next
  case (family_revocation i reason now t k t' u)
  then show ?case
    using inherits_marks(2)
    by (auto simp: revoke_session_family_def split: option.splits intro: state_ok_update)
next
  case (authentication i at t k t' now u)
  then show ?case using inherits_marks(4) by (blast intro: state_ok_update)
next
  case (deletion gone t k t' now u)
  have "\<exists>s \<in> set (sessions t). inherits s s'"
    if "s' \<in> set (map (forget_replacement gone) (filter (\<lambda>s. s_id s \<notin> set gone) (sessions t)))" for s'
    using that inherits_marks(5) by auto
  then show ?case
    using deletion by (auto simp: delete_sessions_def put_sessions_ok intro!: state_ok_inherits)
next
  case (other_table t' t now u)
  then show ?case by (simp add: state_ok_def table_inv_def)
qed

section \<open>What every reachable table satisfies\<close>

lemma session_steps_ok: "session_step\<^sup>*\<^sup>* x y \<Longrightarrow> state_ok x \<Longrightarrow> state_ok y"
  by (induction rule: rtranclp_induct) (auto intro: session_step_ok)

lemma state_ok_empty: "sessions t = [] \<Longrightarrow> state_ok (now, u, t)"
  by (simp add: state_ok_def table_inv_def session_table_ok_def families_ok_def replacements_def map_filter_def)

lemma state_ok_unique: "state_ok (now, u, t) \<Longrightarrow> s \<in> set (sessions t) \<Longrightarrow> s' \<in> set (sessions t) \<Longrightarrow> s_id s = s_id s' \<Longrightarrow> s = s'"
  by (auto simp: state_ok_def table_inv_def session_table_ok_def intro: distinct_key_eq)

text \<open>C6: A sign-in has one live refresh token. In every table reached from an
  empty one by any interleaving of sign-ins, rotations, revocations, deletions
  and the passing of time, two sessions of one family come from the same
  sign-in (account, client, kind of session, second factor, start of the
  family), at most one session of a family is not revoked, and every row
  satisfies the table's constraints.\<close>

theorem one_live_session_per_family:
  assumes "session_step\<^sup>*\<^sup>* (now0, u0, t0) (now, u, t)" "sessions t0 = []"
    and "s \<in> set (sessions t)" "s' \<in> set (sessions t)" "s_session_family_id s = s_session_family_id s'"
  shows "same_sign_in s s' \<and> (live s \<and> live s' \<longrightarrow> s = s') \<and> session_checks s"
proof -
  have ok: "state_ok (now, u, t)"
    using assms(1,2) session_steps_ok state_ok_empty by blast
  then have "families_ok u (sessions t)" "session_checks s"
    using assms(3) by (auto simp: state_ok_def table_inv_def session_table_ok_def list_all_iff)
  then show ?thesis
    using families_okD(3,4) [OF _ assms(3,4,5)] state_ok_unique [OF ok assms(3,4)] by blast
qed

definition demo_user :: user where
  "demo_user = \<lparr>u_id = 1, u_created_at = 0, u_email_verified_at = Some 0, u_last_login_at = None,
     u_locked_until = None, u_lockout_cleared_at = None, u_status = UserActive, u_preferred_locale = ''en'',
     u_username = ''alice'', u_email = ''alice@example.com'', u_password_hash = ''h''\<rparr>"

definition demo_new :: "8 word \<Rightarrow> instant \<Rightarrow> new_session" where
  "demo_new b expiry = \<lparr>ns_user_id = 1, ns_session_family_id = 3, ns_expires_at = expiry, ns_ip_address = None,
     ns_device_name = None, ns_remember_me = False, ns_token_hash = replicate 32 b, ns_user_agent = None,
     ns_session_type = Web, ns_client_id = None, ns_family_created_at = None, ns_scopes = None, ns_mfa = True\<rparr>"

definition demo_tables :: tables where
  "demo_tables = empty_tables\<lparr>users := [demo_user]\<rparr>"

definition demo_first :: session where
  "demo_first = inserted_row 2 0 (demo_new 7 100)"

definition demo_second :: session where
  "demo_second = rotated_row 4 10 demo_first (demo_new 8 110)"

definition demo_rotated :: tables where
  "demo_rotated = demo_tables\<lparr>sessions := [mark_rotated 10 4 demo_first, demo_second]\<rparr>"

lemmas demo_defs = demo_user_def demo_new_def demo_tables_def demo_first_def demo_second_def demo_rotated_def
  empty_tables_def

lemma demo_sign_in: "insert_session 2 0 (demo_new 7 100) demo_tables = (Inr demo_first, demo_tables\<lparr>sessions := [demo_first]\<rparr>)"
  by (simp add: demo_defs insert_session_def put_sessions_def session_table_ok_def session_checks_def
      ge_opt_def inserted_row_def Let_def)

lemma demo_rotation:
  "rotate_tables 4 10 2 (demo_new 8 110) (demo_tables\<lparr>sessions := [demo_first]\<rparr>) = (Inr demo_second, demo_rotated)"
  by (simp add: demo_defs rotate_tables_def find_session_def insert_rotated_def update_sessions_def
      update_where_def put_sessions_def session_table_ok_def session_checks_def ge_opt_def inserted_row_def
      rotated_row_def mark_rotated_def replacements_def map_filter_def Let_def)

lemma demo_trace: "session_step\<^sup>*\<^sup>* (0, 2, demo_tables) (10, 5, demo_rotated)"
proof -
  have "session_step (0, 2, demo_tables) (0, 4, demo_tables\<lparr>sessions := [demo_first]\<rparr>)"
    by (rule sign_in [OF demo_sign_in]) (simp_all add: demo_new_def)
  moreover have "session_step (0, 4, demo_tables\<lparr>sessions := [demo_first]\<rparr>) (10, 4, demo_tables\<lparr>sessions := [demo_first]\<rparr>)"
    by (rule elapse) simp_all
  moreover have "session_step (10, 4, demo_tables\<lparr>sessions := [demo_first]\<rparr>) (10, 5, demo_rotated)"
    by (rule rotation [OF demo_rotation, where old = demo_first])
      (simp_all add: demo_defs find_session_def continues_def inserted_row_def)
  ultimately show ?thesis by (meson converse_rtranclp_into_rtranclp rtranclp.rtrancl_refl)
qed

lemma one_live_session_per_family_witness:
  "same_sign_in (mark_rotated 10 4 demo_first) demo_second \<and>
   \<not> (live (mark_rotated 10 4 demo_first) \<and> live demo_second) \<and> session_checks (mark_rotated 10 4 demo_first)"
proof -
  have "sessions demo_tables = []" "mark_rotated 10 4 demo_first \<in> set (sessions demo_rotated)"
    "demo_second \<in> set (sessions demo_rotated)"
    "s_session_family_id (mark_rotated 10 4 demo_first) = s_session_family_id demo_second"
    by (simp_all add: demo_defs)
  from one_live_session_per_family [OF demo_trace this]
  show ?thesis by (simp add: live_def)
qed

text \<open>A family without a live session.\<close>

definition family_dead :: "uuid \<Rightarrow> session list \<Rightarrow> bool" where
  "family_dead fam rows \<longleftrightarrow> list_all (\<lambda>s. s_session_family_id s = fam \<longrightarrow> \<not> live s) rows"

lemma family_dead_inherits:
  assumes "family_dead fam rows" "\<And>s'. s' \<in> set rows' \<Longrightarrow> \<exists>s \<in> set rows. inherits s s'"
  shows "family_dead fam rows'"
  using assms unfolding family_dead_def list_all_iff inherits_def by metis

lemma family_dead_update:
  assumes "family_dead fam (sessions t)" "update_sessions P f t = (Inr k, t')" "\<And>s. inherits s (f s)"
  shows "family_dead fam (sessions t')"
proof -
  have "sessions t' = update_where P f (sessions t)"
    using assms(2) by (auto simp: update_sessions_def put_sessions_ok)
  then show ?thesis
    using family_dead_inherits [OF assms(1)] update_where_inherits [OF assms(3)] by simp
qed

lemma family_dead_rotation:
  assumes dead: "family_dead fam (sessions t)" and rot: "rotate_tables i now old_id n t = (Inr s, t')"
    and old: "find_session old_id t = Some old" and cont: "continues old n"
  shows "family_dead fam (sessions t')"
proof -
  let ?new = "rotated_row i now old n" and ?mark = "update_where (\<lambda>s. s_id s = old_id) (mark_rotated now i)"
  have t': "sessions t' = ?mark (sessions t @ [?new])" and live_old: "s_revoked_at old = None"
    using rotate_tables_ok [OF rot] old
    by (metis option.inject tables.select_convs(2) tables.surjective tables.update_convs(2))+
  have "old \<in> set (sessions t)"
    using find_Some_set [OF old [unfolded find_session_def]] by simp
  then have "s_session_family_id old \<noteq> fam"
    using dead live_old by (auto simp: family_dead_def list_all_iff live_def)
  then have "family_dead fam (sessions t @ [?new])"
    using dead cont by (simp add: family_dead_def continues_def)
  then show ?thesis
    unfolding t' by (rule family_dead_inherits) (rule update_where_inherits [OF inherits_marks(3)])
qed

lemma family_dead_step:
  assumes "session_step x y" "x = (now, u, t)" "y = (now', u', t')" "fam < u" "family_dead fam (sessions t)"
  shows "fam < u' \<and> family_dead fam (sessions t')"
  using assms
proof (induction rule: session_step.induct)
  case (sign_in i now n t s t' u u')
  then show ?case
    by (auto simp: insert_session_def put_sessions_ok family_dead_def Let_def split: if_splits)
next
  case (rotation i now old_id n t s t' old u u')
  then show ?case using family_dead_rotation by auto
next
  case (revocation P now t k t' u)
  then show ?case using inherits_marks(1) family_dead_update by blast
next
  case (family_revocation i reason now t k t' u)
  then show ?case
    using inherits_marks(2) family_dead_update
    by (auto simp: revoke_session_family_def split: option.splits)
next
  case (authentication i at t k t' now u)
  then show ?case using inherits_marks(4) family_dead_update by blast
next
  case (deletion gone t k t' now u)
  then have "sessions t' = map (forget_replacement gone) (filter (\<lambda>s. s_id s \<notin> set gone) (sessions t))"
    by (auto simp: delete_sessions_def put_sessions_ok)
  then have "\<exists>s \<in> set (sessions t). inherits s s'" if "s' \<in> set (sessions t')" for s'
    using that inherits_marks(5) by auto
  then show ?case using deletion family_dead_inherits by blast
qed auto

lemma family_dead_steps:
  assumes "session_step\<^sup>*\<^sup>* (now, u, t) y" "fam < u" "family_dead fam (sessions t)"
  shows "fam < fst (snd y) \<and> family_dead fam (sessions (snd (snd y)))"
  using assms
proof (induction rule: rtranclp_induct)
  case (step y z)
  then show ?case using family_dead_step [OF step(2)] by (metis prod.collapse)
qed simp

text \<open>C16: A revoked family stays revoked. Once no session of a family is live,
  no later step of any request, in any order, makes one live again: a replay
  that revoked the family ends the sign-in for good.\<close>

theorem revoked_family_stays_dead:
  assumes "session_step\<^sup>*\<^sup>* (now, u, t) (now', u', t')" "fam < u"
    and "family_dead fam (sessions t)"
  shows "family_dead fam (sessions t')"
  using family_dead_steps [OF assms] by simp

lemma revoked_family_stays_dead_witness:
  "family_dead 3 (sessions (family_revoked 10 3 demo_rotated))"
proof (rule revoked_family_stays_dead [of 10 5 "family_revoked 10 3 demo_rotated" 20 9])
  show "session_step\<^sup>*\<^sup>* (10, 5, family_revoked 10 3 demo_rotated) (20, 9, family_revoked 10 3 demo_rotated)"
    by (rule r_into_rtranclp) (rule elapse, simp_all)
  show "family_dead 3 (sessions (family_revoked 10 3 demo_rotated))"
    using family_revoked_dead [of _ 10 3 demo_rotated] by (auto simp: family_dead_def list_all_iff live_def)
qed simp

text \<open>C17: Revoking a family always succeeds and is complete. On a table a
  reachable database holds, revoking the family of an existing session never
  runs into a constraint; afterwards every session of that family is revoked
  and marked compromised, every session of another family is as it was, and no
  session is lost.\<close>

theorem family_revocation_complete:
  assumes "table_inv now t" "find_session i t = Some s"
  defines "t' \<equiv> snd (revoke_session_family i RefreshTokenReuse now t)"
  shows "(\<exists>k. fst (revoke_session_family i RefreshTokenReuse now t) = Inr k) \<and>
         family_dead (s_session_family_id s) (sessions t') \<and>
         list_all (\<lambda>r. s_session_family_id r = s_session_family_id s \<longrightarrow> is_compromised r) (sessions t') \<and>
         filter (\<lambda>r. s_session_family_id r \<noteq> s_session_family_id s) (sessions t') =
         filter (\<lambda>r. s_session_family_id r \<noteq> s_session_family_id s) (sessions t) \<and>
         map s_id (sessions t') = map s_id (sessions t)"
proof -
  let ?fam = "s_session_family_id s"
  have t': "t' = family_revoked now ?fam t"
    unfolding t'_def revoke_session_family_total [OF assms(1,2)] by simp
  have "filter (\<lambda>r. s_session_family_id r \<noteq> ?fam) (update_where (\<lambda>r. in_family ?fam r \<and> not_marked r) (mark_compromised now RefreshTokenReuse) rows)
      = filter (\<lambda>r. s_session_family_id r \<noteq> ?fam) rows" for rows
    by (induction rows) (auto simp: update_where_def in_family_def)
  then have "filter (\<lambda>r. s_session_family_id r \<noteq> ?fam) (sessions t') = filter (\<lambda>r. s_session_family_id r \<noteq> ?fam) (sessions t)"
    unfolding t' family_revoked_def by simp
  moreover have "family_dead ?fam (sessions t') \<and> list_all (\<lambda>r. s_session_family_id r = ?fam \<longrightarrow> is_compromised r) (sessions t')"
    unfolding t' using family_revoked_dead [of _ now ?fam t]
    by (auto simp: family_dead_def list_all_iff live_def is_compromised_def)
  moreover have "map s_id (sessions t') = map s_id (sessions t)"
    unfolding t' by (simp add: family_revoked_def map_update_where)
  ultimately show ?thesis
    using revoke_session_family_total [OF assms(1,2)] by simp
qed

lemma family_revocation_complete_witness:
  "family_dead 3 (sessions (snd (revoke_session_family 2 RefreshTokenReuse 20 demo_rotated)))"
proof -
  have "state_ok (10, 5, demo_rotated)"
    using demo_trace session_steps_ok state_ok_empty [of demo_tables] by (simp add: demo_tables_def empty_tables_def)
  then have "table_inv 20 demo_rotated"
    by (auto simp: state_ok_def intro: table_inv_later)
  moreover have "find_session 2 demo_rotated = Some (mark_rotated 10 4 demo_first)"
    by (simp add: demo_defs find_session_def inserted_row_def mark_rotated_def)
  ultimately have "family_dead (s_session_family_id (mark_rotated 10 4 demo_first))
      (sessions (snd (revoke_session_family 2 RefreshTokenReuse 20 demo_rotated)))"
    using family_revocation_complete by blast
  then show ?thesis by (simp add: demo_defs)
qed

section \<open>Retention against the replacement constraint\<close>

text \<open>
  The foreign key clears \<^verbatim>\<open>replaced_by_session_id\<close> when the replacement is
  deleted, and the replacement constraint forbids a rotated row without one. So
  a replacement that expires before the session it replaced (the refresh
  lifetime was shortened between the two) makes the deletion of expired
  sessions fail: the whole call raises and deletes nothing.
\<close>

definition long_lived :: session where
  "long_lived = inserted_row 2 0 (demo_new 7 10000000000000000)"

definition shortened :: tables where
  "shortened = demo_tables\<lparr>sessions := [mark_rotated 10 4 long_lived, rotated_row 4 10 long_lived (demo_new 8 110)]\<rparr>"

lemma shortened_reachable: "session_step\<^sup>*\<^sup>* (0, 2, demo_tables) (10, 5, shortened)"
proof -
  have "insert_session 2 0 (demo_new 7 10000000000000000) demo_tables = (Inr long_lived, demo_tables\<lparr>sessions := [long_lived]\<rparr>)"
    by (simp add: demo_defs long_lived_def insert_session_def put_sessions_def session_table_ok_def
        session_checks_def ge_opt_def inserted_row_def Let_def)
  then have "session_step (0, 2, demo_tables) (0, 4, demo_tables\<lparr>sessions := [long_lived]\<rparr>)"
    by (rule sign_in) (simp_all add: demo_new_def)
  moreover have "session_step (0, 4, demo_tables\<lparr>sessions := [long_lived]\<rparr>) (10, 4, demo_tables\<lparr>sessions := [long_lived]\<rparr>)"
    by (rule elapse) simp_all
  moreover have "rotate_tables 4 10 2 (demo_new 8 110) (demo_tables\<lparr>sessions := [long_lived]\<rparr>) =
      (Inr (rotated_row 4 10 long_lived (demo_new 8 110)), shortened)"
    by (simp add: demo_defs long_lived_def shortened_def rotate_tables_def find_session_def insert_rotated_def
        update_sessions_def update_where_def put_sessions_def session_table_ok_def session_checks_def ge_opt_def
        inserted_row_def rotated_row_def mark_rotated_def replacements_def map_filter_def Let_def)
  then have "session_step (10, 4, demo_tables\<lparr>sessions := [long_lived]\<rparr>) (10, 5, shortened)"
    by (rule rotation [where old = long_lived])
      (simp_all add: demo_defs long_lived_def find_session_def continues_def inserted_row_def)
  ultimately show ?thesis by (meson converse_rtranclp_into_rtranclp rtranclp.rtrancl_refl)
qed

lemma cleanup_fails_on_a_short_lived_replacement:
  "session_step\<^sup>*\<^sup>* (0, 2, demo_tables) (10, 5, shortened) \<and>
   cleanup_expired_sessions (seconds 604800) None 1000000000000000 shortened =
     (Inl (ConstraintViolation ''sessions''), shortened)"
  using shortened_reachable
  by (simp add: demo_defs long_lived_def shortened_def cleanup_expired_sessions_def delete_sessions_def
      limit_rows_def forget_replacement_def put_sessions_def session_table_ok_def session_checks_def
      ge_opt_def inserted_row_def rotated_row_def mark_rotated_def seconds_def ns_per_sec_def)

end
