(* ===== verification/Repos.thy ===== *)
theory Repos
  imports Session_Repo
begin

text \<open>
  The other repositories the sign-in flows use: accounts
  (\<^verbatim>\<open>repositories/user.rs\<close>), sign-in attempts
  (\<^verbatim>\<open>repositories/login_attempt.rs\<close>), the audit log
  (\<^verbatim>\<open>repositories/audit.rs\<close>), known devices
  (\<^verbatim>\<open>repositories/known_device.rs\<close>), roles (\<^verbatim>\<open>repositories/role.rs\<close>), clients
  (\<^verbatim>\<open>repositories/registered_client.rs\<close>) and the event outbox.
\<close>

section \<open>Constraints\<close>

text \<open>A write whose rows break a constraint raises and changes nothing.\<close>

definition checked :: "bool \<Rightarrow> string \<Rightarrow> 'a \<Rightarrow> tables \<Rightarrow> tables \<Rightarrow> (sql_error + 'a) \<times> tables" where
  "checked ok name x t' t = (if ok then (Inr x, t') else (Inl (ConstraintViolation name), t))"

text \<open>A nullable reference to an account.\<close>

definition refers_to_user :: "uuid option \<Rightarrow> tables \<Rightarrow> bool" where
  "refers_to_user u t \<longleftrightarrow>
     (case u of None \<Rightarrow> True | Some i \<Rightarrow> list_ex (\<lambda>r. u_id r = i) (users t))"

section \<open>Accounts\<close>

definition find_user :: "uuid \<Rightarrow> tables \<Rightarrow> user option" where
  "find_user i t = find (\<lambda>u. u_id u = i) (users t)"

definition user_find_by_id :: "executor \<Rightarrow> uuid \<Rightarrow> (sql_error, user option) svc" where
  "user_find_by_id ex i = db_read ex (\<lambda>_ t. find_user i t)"

definition user_find_by_email :: "string \<Rightarrow> (sql_error, user option) svc" where
  "user_find_by_email email = db_read Pool (\<lambda>_ t. find (\<lambda>u. lower (u_email u) = lower email) (users t))"

definition user_find_by_username :: "string \<Rightarrow> (sql_error, user option) svc" where
  "user_find_by_username name = db_read Pool (\<lambda>_ t. find (\<lambda>u. lower (u_username u) = lower name) (users t))"

definition user_find_by_identifier :: "string \<Rightarrow> (sql_error, user option) svc" where
  "user_find_by_identifier identifier =
     (if CHR ''@'' \<in> set identifier then user_find_by_email identifier else user_find_by_username identifier)"

definition update_users :: "(user \<Rightarrow> bool) \<Rightarrow> (user \<Rightarrow> user) \<Rightarrow> tables \<Rightarrow> nat \<times> tables" where
  "update_users P f t = (length (filter P (users t)), t\<lparr>users := update_where P f (users t)\<rparr>)"

definition replace_password_hash :: "uuid \<Rightarrow> string \<Rightarrow> string \<Rightarrow> (sql_error, bool) svc" where
  "replace_password_hash i current replacement =
     bnd (db_write Pool (\<lambda>_ t. update_users (\<lambda>u. u_id u = i \<and> u_password_hash u = current)
       (\<lambda>u. u\<lparr>u_password_hash := replacement\<rparr>) t)) (\<lambda>n. ret (n = 1))"

definition set_locked_until :: "uuid \<Rightarrow> instant \<Rightarrow> (sql_error, bool) svc" where
  "set_locked_until i locked_until =
     bnd (db_write Pool (\<lambda>now t. update_users
       (\<lambda>u. u_id u = i \<and> (case u_locked_until u of None \<Rightarrow> True | Some l \<Rightarrow> l \<le> now))
       (\<lambda>u. u\<lparr>u_locked_until := Some locked_until\<rparr>) t)) (\<lambda>n. ret (n = 1))"

definition stamp_sign_in :: "instant \<Rightarrow> user \<Rightarrow> user" where
  "stamp_sign_in now u =
     u\<lparr>u_last_login_at := Some now, u_locked_until := None, u_lockout_cleared_at := Some now\<rparr>"

definition user_record_sign_in :: "executor \<Rightarrow> uuid \<Rightarrow> (sql_error, unit) svc" where
  "user_record_sign_in ex i =
     seq (db_write ex (\<lambda>now t. update_users (\<lambda>u. u_id u = i) (stamp_sign_in now) t)) (ret ())"

section \<open>Sign-in attempts\<close>

record new_login_attempt =
  nl_user_id :: "uuid option"
  nl_identifier :: string
  nl_successful :: bool
  nl_failure_reason :: "login_failure_reason option"
  nl_request_ip :: "ipnetwork option"
  nl_user_agent :: "string option"

text \<open>The constraints: a non-blank identifier, and a reason exactly for a failure.\<close>

definition attempt_checks :: "new_login_attempt \<Rightarrow> bool" where
  "attempt_checks a \<longleftrightarrow>
     list_ex (\<lambda>c. c \<noteq> CHR '' '') (nl_identifier a) \<and> (nl_successful a \<longleftrightarrow> nl_failure_reason a = None)"

definition attempt_row :: "instant \<Rightarrow> new_login_attempt \<Rightarrow> login_attempt" where
  "attempt_row now a =
     \<lparr>la_user_id = nl_user_id a, la_attempted_at = now, la_identifier = nl_identifier a,
      la_successful = nl_successful a, la_failure_reason = nl_failure_reason a,
      la_request_ip = nl_request_ip a, la_user_agent = nl_user_agent a\<rparr>"

definition record_attempt :: "executor \<Rightarrow> new_login_attempt \<Rightarrow> (sql_error, unit) svc" where
  "record_attempt ex a =
     db_stmt ex (\<lambda>now t.
       checked (attempt_checks a \<and> refers_to_user (nl_user_id a) t) ''login_attempts'' ()
         (t\<lparr>login_attempts := login_attempts t @ [attempt_row now a]\<rparr>) t)"

text \<open>SQL \<^verbatim>\<open>GREATEST\<close> ignores NULL arguments.\<close>

definition greatest :: "instant \<Rightarrow> instant option list \<Rightarrow> instant" where
  "greatest x os = fold (\<lambda>o' m. case o' of None \<Rightarrow> m | Some y \<Rightarrow> max m y) os x"

definition capped_count :: "int \<Rightarrow> ('r \<Rightarrow> bool) \<Rightarrow> 'r list \<Rightarrow> int" where
  "capped_count max_count P rows = min max_count (int (length (filter P rows)))"

definition identifier_cutoff :: "string \<Rightarrow> instant \<Rightarrow> tables \<Rightarrow> instant" where
  "identifier_cutoff identifier cutoff t =
     greatest cutoff
       [case find (\<lambda>u. lower (u_email u) = lower identifier \<or> lower (u_username u) = lower identifier) (users t) of
          None \<Rightarrow> None
        | Some u \<Rightarrow> u_lockout_cleared_at u]"

definition count_recent_failures_by_identifier :: "string \<Rightarrow> instant \<Rightarrow> int \<Rightarrow> (sql_error, int) svc" where
  "count_recent_failures_by_identifier identifier cutoff max_count =
     db_read Pool (\<lambda>_ t. capped_count max_count
       (\<lambda>a. lower (la_identifier a) = lower identifier \<and> \<not> la_successful a \<and>
            identifier_cutoff identifier cutoff t < la_attempted_at a) (login_attempts t))"

text \<open>\<^verbatim>\<open>inet <<= cidr\<close>: contained in the network or equal to it.\<close>

fun contained_in :: "ipnetwork \<Rightarrow> ipnetwork \<Rightarrow> bool" where
  "contained_in (IpNetwork (V4 a) p) (IpNetwork (V4 n) q) \<longleftrightarrow> q \<le> p \<and> clear_low (32 - q) a = clear_low (32 - q) n"
| "contained_in (IpNetwork (V6 a) p) (IpNetwork (V6 n) q) \<longleftrightarrow> q \<le> p \<and> clear_low (128 - q) a = clear_low (128 - q) n"
| "contained_in _ _ \<longleftrightarrow> False"

definition count_recent_failures_by_ip :: "ipnetwork \<Rightarrow> instant \<Rightarrow> int \<Rightarrow> (sql_error, int) svc" where
  "count_recent_failures_by_ip net cutoff max_count =
     db_read Pool (\<lambda>_ t. capped_count max_count
       (\<lambda>a. (case la_request_ip a of None \<Rightarrow> False | Some ip \<Rightarrow> contained_in ip net) \<and>
            \<not> la_successful a \<and> cutoff < la_attempted_at a) (login_attempts t))"

definition max_instant_of :: "instant list \<Rightarrow> instant option" where
  "max_instant_of ts = (case ts of [] \<Rightarrow> None | x # xs \<Rightarrow> Some (fold max xs x))"

definition consecutive_cutoff :: "uuid \<Rightarrow> instant \<Rightarrow> tables \<Rightarrow> instant" where
  "consecutive_cutoff u now t =
     greatest (now - seconds 86400)
       [max_instant_of (map la_attempted_at (filter (\<lambda>a. la_user_id a = Some u \<and> la_successful a) (login_attempts t))),
        (case find_user u t of None \<Rightarrow> None | Some r \<Rightarrow> u_lockout_cleared_at r),
        (case find_user u t of None \<Rightarrow> None | Some r \<Rightarrow> u_locked_until r)]"

definition count_consecutive_failures_by_user :: "uuid \<Rightarrow> int \<Rightarrow> (sql_error, int) svc" where
  "count_consecutive_failures_by_user u max_count =
     db_read Pool (\<lambda>now t. capped_count max_count
       (\<lambda>a. la_user_id a = Some u \<and> \<not> la_successful a \<and> la_failure_reason a = Some InvalidPassword \<and>
            consecutive_cutoff u now t < la_attempted_at a) (login_attempts t))"

section \<open>Audit log, known devices, events\<close>

definition audit_append ::
  "executor \<Rightarrow> uuid option \<Rightarrow> uuid option \<Rightarrow> audit_action \<Rightarrow> ipnetwork option \<Rightarrow> json \<Rightarrow> (sql_error, unit) svc" where
  "audit_append ex user_id request_id action ip metadata =
     db_stmt ex (\<lambda>now t. checked (refers_to_user user_id t) ''audit_log_user_id_fkey'' ()
       (t\<lparr>audit_log := audit_log t @
         [\<lparr>au_user_id = user_id, au_request_id = request_id, au_created_at = now, au_action = action,
           au_ip_address = ip, au_metadata = metadata\<rparr>]\<rparr>) t)"

definition same_device :: "uuid \<Rightarrow> bytes \<Rightarrow> known_device \<Rightarrow> bool" where
  "same_device u fp d \<longleftrightarrow> kd_user_id d = u \<and> kd_fingerprint d = fp"

definition known_device_record :: "executor \<Rightarrow> uuid \<Rightarrow> bytes \<Rightarrow> (sql_error, bool) svc" where
  "known_device_record ex u fp =
     db_stmt ex (\<lambda>now t.
       let devices = length (filter (\<lambda>d. kd_user_id d = u) (known_devices t));
           known = list_ex (same_device u fp) (known_devices t)
       in checked (length fp = 32 \<and> refers_to_user (Some u) t) ''known_devices'' (\<not> known \<and> 0 < devices)
           (if known
            then t\<lparr>known_devices := update_where (same_device u fp) (\<lambda>d. d\<lparr>kd_last_seen_at := now\<rparr>) (known_devices t)\<rparr>
            else t\<lparr>known_devices := known_devices t @
                   [\<lparr>kd_user_id = u, kd_fingerprint = fp, kd_first_seen_at = now, kd_last_seen_at = now\<rparr>]\<rparr>) t)"

text \<open>
  \<^verbatim>\<open>record_event\<close>: the outbox row and a delivery for every enabled endpoint
  subscribed to the event, in one statement.
\<close>

definition subscribed :: "string \<Rightarrow> webhook_endpoint \<Rightarrow> bool" where
  "subscribed event_name e \<longleftrightarrow> we_enabled e \<and> (event_name \<in> set (we_events e) \<or> ''*'' \<in> set (we_events e))"

definition delivery_row :: "uuid \<Rightarrow> string \<Rightarrow> json \<Rightarrow> instant \<Rightarrow> webhook_endpoint \<Rightarrow> webhook_delivery" where
  "delivery_row event_id event_name payload now e =
     \<lparr>wd_endpoint_id = we_id e, wd_event_id = event_id, wd_event_name = event_name, wd_payload = payload,
      wd_occurred_at = now, wd_attempts = 0, wd_next_attempt_at = now, wd_delivered_at = None,
      wd_failed_at = None\<rparr>"

definition record_event :: "executor \<Rightarrow> string \<Rightarrow> string \<Rightarrow> json \<Rightarrow> (sql_error, unit) svc" where
  "record_event ex subject event_name payload =
     bnd fresh_uuid (\<lambda>i.
     db_write ex (\<lambda>now t.
       ((), t\<lparr>event_outbox := event_outbox t @
                [\<lparr>ob_id = i, ob_subject = subject, ob_payload = payload, ob_created_at = now,
                  ob_published_at = None\<rparr>],
              webhook_deliveries := webhook_deliveries t @
                map (delivery_row i event_name payload now) (filter (subscribed event_name) (webhook_endpoints t))\<rparr>)))"

definition SUBJECT_PREFIX :: string where
  "SUBJECT_PREFIX = ''events.auth''"

definition enqueue :: "executor \<Rightarrow> string \<Rightarrow> json \<Rightarrow> (app_error, unit) svc" where
  "enqueue ex event_name payload =
     map_err internal (record_event ex (SUBJECT_PREFIX @ ''.'' @ event_name) event_name payload)"

section \<open>Roles and clients\<close>

definition role_names_of :: "uuid \<Rightarrow> tables \<Rightarrow> string list" where
  "role_names_of u t =
     sort (List.map_filter (\<lambda>ur. if ur_user_id ur = u
                            then map_option ro_name (find (\<lambda>r. ro_id r = ur_role_id ur) (roles t)) else None)
       (user_roles t))"

definition permissions_of_role :: "uuid \<Rightarrow> tables \<Rightarrow> string list" where
  "permissions_of_role r t =
     List.map_filter (\<lambda>(role, perm). if role = r
                      then map_option permission_name (find (\<lambda>p. pe_id p = perm) (permissions t)) else None)
       (role_permissions t)"

definition permission_names_of :: "uuid \<Rightarrow> tables \<Rightarrow> string list" where
  "permission_names_of u t =
     sort (remdups (concat (map (\<lambda>ur. permissions_of_role (ur_role_id ur) t)
       (filter (\<lambda>ur. ur_user_id ur = u) (user_roles t)))))"

definition find_rbac_names :: "uuid \<Rightarrow> (sql_error, string list \<times> string list) svc" where
  "find_rbac_names u = db_read Pool (\<lambda>_ t. (role_names_of u t, permission_names_of u t))"

definition client_find_by_id :: "executor \<Rightarrow> string \<Rightarrow> (sql_error, registered_client option) svc" where
  "client_find_by_id ex c = db_read ex (\<lambda>_ t. find_client c t)"

section \<open>Frames\<close>

text \<open>The writes here leave the sessions, the roles and the clients alone.\<close>

lemma keeps_user_reads [frame_intros]:
  "keeps same_db (user_find_by_id ex i)" "keeps same_db (user_find_by_identifier s)"
  "keeps same_db (user_find_by_email s)" "keeps same_db (user_find_by_username s)"
  by (simp_all add: user_find_by_id_def user_find_by_identifier_def user_find_by_email_def
      user_find_by_username_def keeps_db_read)

lemma keeps_counts [frame_intros]:
  "keeps same_db (count_recent_failures_by_identifier s c m)"
  "keeps same_db (count_recent_failures_by_ip n c m)"
  "keeps same_db (count_consecutive_failures_by_user u m)"
  by (simp_all add: count_recent_failures_by_identifier_def count_recent_failures_by_ip_def
      count_consecutive_failures_by_user_def keeps_db_read)

lemma keeps_rbac_reads [frame_intros]:
  "keeps same_db (find_rbac_names u)" "keeps same_db (client_find_by_id ex c)"
  by (simp_all add: find_rbac_names_def client_find_by_id_def keeps_db_read)

lemma permission_name_has_colon: "CHR '':'' \<in> set (permission_name p)"
  by (simp add: permission_name_def)

lemma set_permissions_of_role:
  "set (permissions_of_role r t) \<subseteq> permission_name ` set (permissions t)"
proof -
  have "the (map_option permission_name (find P ps)) \<in> permission_name ` set ps"
    if "map_option permission_name (find P ps) \<noteq> None" for P and ps :: "permission list"
    using that by (auto dest: find_Some_set)
  then show ?thesis
    by (fastforce simp: permissions_of_role_def map_filter_def split: if_splits prod.splits)
qed

lemma permission_names_have_colon: "p \<in> set (permission_names_of u t) \<Longrightarrow> CHR '':'' \<in> set p"
  using set_permissions_of_role permission_name_has_colon
  by (fastforce simp: permission_names_of_def)

lemma oidc_scope_no_colon: "is_oidc_scope s \<Longrightarrow> CHR '':'' \<notin> set s"
  by (auto simp: is_oidc_scope_def)

end
