(* ===== verification/Session_Machine.thy ===== *)
theory Session_Machine
  imports Repos
begin

text \<open>
  The session table as an abstract machine, and what it means for an action to
  refine it: whatever the action returns, its effect is a sequence of steps of
  \<^const>\<open>session_step\<close>. The relation composes along a handler, through errors and
  through transactions, so the invariants proved of the machine (one live
  session per family, a dead family stays dead) hold of every handler that
  refines it.
\<close>

text \<open>On the pool a statement runs at the database's time, in a transaction at the
  time the transaction began.\<close>

definition machine_state :: "executor \<Rightarrow> world \<Rightarrow> sess_state" where
  "machine_state ex w = (stmt_now ex w, uuids w, tables w)"

definition refines :: "executor \<Rightarrow> world \<Rightarrow> world \<Rightarrow> bool" where
  "refines ex w w' \<longleftrightarrow> later w w' \<and> session_step\<^sup>*\<^sup>* (machine_state ex w) (machine_state ex w')"

lemma later_stmt_now: "later w w' \<Longrightarrow> stmt_now ex w \<le> stmt_now ex w'"
  by (cases ex) (simp_all add: later_now)

lemma refines_elapse: "tables w' = tables w \<Longrightarrow> later w w' \<Longrightarrow> refines ex w w'"
  unfolding refines_def machine_state_def
  by (auto simp: later_stmt_now later_def intro!: r_into_rtranclp elapse)

interpretation rf: db_relation "refines ex" for ex
proof
  show "refines ex w w" for w
    by (simp add: refines_def later_def)
  show "refines ex u w" if "refines ex u v" "refines ex v w" for u v w
    using that lt.trans unfolding refines_def by (meson rtranclp_trans)
  show "refines ex w w'" if "same_db w w'" for w w'
    using that by (simp add: same_db_def refines_elapse)
  show "later w w'" if "refines ex w w'" for w w'
    using that by (simp add: refines_def)
qed

lemma refines_step:
  assumes "session_step (stmt_now ex w, uuids w, tables w) (stmt_now ex w, uuids w, t')"
  shows "refines ex w (w\<lparr>tables := t'\<rparr>)"
  using assms by (auto simp: refines_def later_def machine_state_def)

text \<open>A statement in the machine's terms: its effect at the statement's time is one step.\<close>

lemma keeps_refines_stmt:
  assumes "\<And>now u t x t'. g now t = (Inr x, t') \<Longrightarrow> session_step (now, u, t) (now, u, t')"
  shows "keeps (refines ex) (db_stmt ex g)"
  unfolding keeps_def
proof
  fix w
  have idle: "refines ex w (tick w)"
    by (rule rf.same_db_within) simp
  show "refines ex w (snd (db_stmt ex g w))"
  proof (cases "g (stmt_now ex (tick w)) (tables w)")
    case (Pair r t')
    then show ?thesis
    proof (cases r)
      case (Inr x)
      then have "refines ex (tick w) ((tick w)\<lparr>tables := t'\<rparr>)"
        using assms Pair by (intro refines_step) simp
      then have "refines ex w ((tick w)\<lparr>tables := t'\<rparr>)"
        using idle rf.trans by blast
      then show ?thesis
        using Pair Inr idle by (simp add: db_stmt_def Let_def split: outcome.split)
    qed (simp add: db_stmt_def Let_def idle)
  qed
qed

lemma keeps_refines_other:
  assumes "keeps (same_of sessions) m"
  shows "keeps (refines ex) m"
proof -
  have "refines ex w w'" if "same_of sessions w w'" for w w'
  proof -
    have "session_step (machine_state ex w) (stmt_now ex w, uuids w, tables w')"
      using that unfolding machine_state_def same_of_def by (blast intro: other_table)
    moreover have "session_step (stmt_now ex w, uuids w, tables w') (machine_state ex w')"
      using that unfolding machine_state_def same_of_def
      by (intro elapse) (auto simp: later_stmt_now later_def)
    ultimately show ?thesis
      using that unfolding refines_def same_of_def
      by (meson converse_rtranclp_into_rtranclp r_into_rtranclp)
  qed
  then show ?thesis
    using assms by (simp add: keeps_def)
qed

text \<open>A transaction refines the machine when its body does at the time it began.\<close>

lemma keeps_refines_in_tx:
  assumes "\<And>t. keeps (refines (Tx t)) (body (Tx t))"
  shows "keeps (refines Pool) (in_tx err body)"
  unfolding keeps_def
proof
  fix w
  let ?tx = "Tx (db_now (tick w))"
  obtain r w' where run: "body ?tx (tick w) = (r, w')"
    by (cases "body ?tx (tick w)")
  have idle: "refines Pool u (tick u)" for u
    by (rule rf.same_db_within) simp
  have body: "refines ?tx (tick w) w'"
    by (rule keeps_result [OF assms run])
  then have "session_step (db_now (tick w), uuids w', tables w') (db_now w', uuids w', tables w')"
    by (auto simp: refines_def later_now intro: elapse)
  then have "refines Pool (tick w) w'"
    using body by (auto simp: refines_def machine_state_def)
  then have whole: "refines Pool w w'"
    using idle rf.trans by blast
  show "refines Pool w (snd (in_tx err body w))"
    using idle [of w] rf.trans [OF whole idle] rf.rollback [OF whole] rf.rollback [OF rf.trans [OF whole idle]]
    by (simp add: in_tx_def Let_def run split: outcome.split sum.split)
qed

section \<open>The statements refine the machine\<close>

lemma returning_updates:
  "update_sessions_returning P f t = (Inr xs, t') \<Longrightarrow> update_sessions P f t = (Inr (length (filter P (sessions t))), t')"
  by (auto simp: update_sessions_returning_def update_sessions_def put_sessions_ok)

lemma keeps_revocation:
  assumes "\<And>s. P s \<Longrightarrow> s_revoked_at s = None"
  shows "keeps (refines ex) (db_stmt ex (\<lambda>now t. update_sessions P (mark_revoked now) t))"
    and "keeps (refines ex) (db_stmt ex (\<lambda>now t. update_sessions_returning P (mark_revoked now) t))"
  by (rule keeps_refines_stmt; blast intro: revocation assms dest: returning_updates)+

lemma keeps_session_writes:
  "keeps (refines ex) (revoke ex i)"
  "keeps (refines ex) (revoke_all_by_user ex v)"
  "keeps (refines ex) (revoke_personal_access_sessions ex v)"
  "keeps (refines ex) (revoke_all_by_user_returning ex v)"
  "keeps (refines ex) (revoke_others ex v i)"
  "keeps (refines ex) (revoke_by_client ex c)"
  "keeps (refines ex) (set_auth_time ex i at)"
  "keeps (refines Pool) (repo_revoke_family i)"
  unfolding revoke_def revoke_all_by_user_def revoke_personal_access_sessions_def
    revoke_all_by_user_returning_def revoke_others_def revoke_by_client_def set_auth_time_def repo_revoke_family_def
  by (intro rf.keeps_seq rf.keeps_ret keeps_revocation keeps_refines_stmt authentication family_revocation;
      simp; fail)+

lemma keeps_session_reads [frame_intros]:
  "keeps same_db (family_session_ids i)" "keeps same_db (find_by_token_hash h)"
  "keeps same_db (proved_second_factor i)" "keeps same_db (find_by_id i)"
  "keeps same_db (find_validation_by_id i)" "keeps same_db (find_active_by_user ex v)"
  "keeps same_db (find_active_summary_by_user v)"
  by (simp_all add: family_session_ids_def find_by_token_hash_def proved_second_factor_def find_by_id_def
      find_validation_by_id_def find_active_by_user_def find_active_summary_by_user_def keeps_db_read)

lemma wp_session_reads [wp_simps]:
  "wp (find_by_id i) Q E w =
     (if next_outcome w = Done then Q (find_session i (tables w)) (tick w) else E SqlFailed (tick w))"
  "wp (find_by_token_hash h) Q E w =
     (if next_outcome w = Done then Q (find (\<lambda>s. s_token_hash s = h) (sessions (tables w))) (tick w) else E SqlFailed (tick w))"
  "wp (find_validation_by_id i) Q' E w =
     (if next_outcome w = Done then Q' (map_option (validation_of (tables w)) (find_session i (tables w))) (tick w)
      else E SqlFailed (tick w))"
  "wp (find_active_by_user ex v) Q'' E w =
     (if next_outcome w = Done then Q'' (active_of_user v (tables w)) (tick w) else E SqlFailed (tick w))"
  by (simp_all add: find_by_id_def find_by_token_hash_def find_validation_by_id_def find_active_by_user_def wp_simps)

lemma wp_user_find_by_id [wp_simps]:
  "wp (user_find_by_id ex i) Q E w =
     (if next_outcome w = Done then Q (find_user i (tables w)) (tick w) else E SqlFailed (tick w))"
  by (simp add: user_find_by_id_def wp_simps)

text \<open>A sign-in draws the identifier of its family, then inserts the session.\<close>

lemma keeps_sign_in:
  assumes "\<And>fam. ns_session_family_id (n fam) = fam" "\<And>fam s. keeps (refines ex) (k fam s)"
  shows "keeps (refines ex) (bnd fresh_uuid (\<lambda>fam. bnd (map_err e (create ex (n fam))) (k fam)))"
proof -
  have ins: "refines ex w ((tick w)\<lparr>uuids := Suc (Suc (uuids w)), tables := t'\<rparr>)"
    if "insert_session (Suc (uuids w)) (stmt_now ex (tick w)) (n (uuids w)) (tables w) = (Inr s, t')" for w s t'
  proof -
    have "session_step (stmt_now ex w, uuids w, tables w) (stmt_now ex (tick w), uuids w, tables w)"
      by (rule elapse) (simp_all add: later_stmt_now same_db_later)
    moreover have "session_step (stmt_now ex (tick w), uuids w, tables w) (stmt_now ex (tick w), Suc (Suc (uuids w)), t')"
      using that by (rule sign_in) (simp_all add: assms(1))
    ultimately show ?thesis
      by (simp add: refines_def machine_state_def later_def)
  qed
  have idle: "refines ex w ((tick w)\<lparr>uuids := Suc (Suc (uuids w))\<rparr>)" for w
    by (rule refines_elapse) (simp_all add: later_def)
  have then_k: "wp (k fam s) (\<lambda>_. refines ex w) (\<lambda>_. refines ex w) w'" if "refines ex w w'" for fam s w w'
    by (rule keeps_wp [OF assms(2)]) (use that rf.trans in blast)+
  show ?thesis
    unfolding keeps_iff_wp create_def
    by (auto simp: wp_simps wp_db_stmt idle intro!: then_k ins split: outcome.split prod.split sum.split)
qed

lemma rotate_refines:
  assumes "\<And>old. find_session old_id (tables w) = Some old \<Longrightarrow> continues old n"
  shows "wp (rotate old_id n) (\<lambda>_. refines Pool w) (\<lambda>_. refines Pool w) w"
proof -
  have "keeps later (rotate old_id n)"
    unfolding rotate_def
    by (intro lt.keeps_in_tx lt.keeps_bnd lt.keeps_seq lt.keeps_ret lt.keeps_throw lt.keeps_if lt.keeps_ok_or
        lt.keeps_same_db [OF keeps_db_read] lt.keeps_same_db [OF keeps_fresh_uuid] keeps_later_db_stmt)
  then have later: "later w w'" if "rotate old_id n w = (r, w')" for r w'
    using that by (rule keeps_result)
  have rotated: "refines Pool w w'" if step: "rotated_in old_id n w new w'" and order: "later w w'" for new w'
  proof -
    obtain i now where rot: "rotate_tables i now old_id n (tables w) = (Inr new, tables w')"
      and time: "db_now w \<le> now" "now \<le> db_now w'" and ids: "uuids w \<le> i" "i < uuids w'"
      using step unfolding rotated_in_def by blast
    obtain old where old: "find_session old_id (tables w) = Some old"
      using rotate_tables_ok [OF rot] by blast
    have "session_step (db_now w, uuids w, tables w) (now, uuids w, tables w)"
      using time by (intro elapse) simp_all
    moreover have "session_step (now, uuids w, tables w) (now, uuids w', tables w')"
      using rotation [OF rot old assms [OF old] ids] .
    moreover have "session_step (now, uuids w', tables w') (db_now w', uuids w', tables w')"
      using time by (intro elapse) simp_all
    ultimately have "session_step\<^sup>*\<^sup>* (db_now w, uuids w, tables w) (db_now w', uuids w', tables w')"
      by (rule converse_rtranclp_into_rtranclp [OF _ converse_rtranclp_into_rtranclp [OF _ r_into_rtranclp]])
    then show ?thesis
      using order by (simp add: refines_def machine_state_def)
  qed
  show ?thesis
  proof (rule wpI)
    fix s w'
    assume r: "rotate old_id n w = (Inr s, w')"
    show "refines Pool w w'"
      by (rule rotated [OF wp_ok [OF rotate_wp r] later [OF r]])
  next
    fix e w'
    assume r: "rotate old_id n w = (Inl e, w')"
    show "refines Pool w w'"
      using wp_err [OF rotate_wp r] refines_elapse [OF _ later [OF r]] rotated [OF _ later [OF r]] by blast
  qed
qed

section \<open>Writes to the other tables\<close>

lemma keeps_other_writes [session_frame]:
  "keeps (same_of sessions) (audit_append ex who r a ip md)"
  "keeps (same_of sessions) (record_attempt ex att)"
  "keeps (same_of sessions) (known_device_record ex u fp)"
  "keeps (same_of sessions) (user_record_sign_in ex u)"
  "keeps (same_of sessions) (set_locked_until u at)"
  "keeps (same_of sessions) (replace_password_hash u h h')"
  "keeps (same_of sessions) (enqueue ex name payload)"
  unfolding audit_append_def record_attempt_def known_device_record_def user_record_sign_in_def
    set_locked_until_def replace_password_hash_def enqueue_def record_event_def
  by (intro so.keeps_bnd so.keeps_seq so.keeps_ret so.keeps_map_err so.keeps_same_db [OF keeps_fresh_uuid]
      keeps_same_of_stmt keeps_same_of_write; simp add: checked_def update_users_def Let_def; fail)+

lemmas refines_other = keeps_other_writes [THEN keeps_refines_other]

lemmas refines_reads = frame_intros [THEN rf.keeps_same_db]

lemmas refines_intros = rf.keeps_intros refines_other keeps_session_writes refines_reads

section \<open>A revoked row stays\<close>

text \<open>The requests (unlike the clean-up job) delete no session: each row stays under its
  identifier and its token's digest, and stays revoked once it is.\<close>

definition rows_stay :: "session list \<Rightarrow> session list \<Rightarrow> bool" where
  "rows_stay rows rows' \<longleftrightarrow>
     (\<forall>s \<in> set rows. \<exists>s' \<in> set rows'. s_id s' = s_id s \<and> s_token_hash s' = s_token_hash s \<and>
        (s_revoked_at s \<noteq> None \<longrightarrow> s_revoked_at s' \<noteq> None))"

definition rows_kept :: "world \<Rightarrow> world \<Rightarrow> bool" where
  "rows_kept w w' \<longleftrightarrow> later w w' \<and> rows_stay (sessions (tables w)) (sessions (tables w'))"

lemma rows_stay_refl [simp]: "rows_stay rows rows"
  by (auto simp: rows_stay_def)

lemma rows_stay_trans: "rows_stay a b \<Longrightarrow> rows_stay b c \<Longrightarrow> rows_stay a c"
  unfolding rows_stay_def by metis

interpretation rk: db_relation rows_kept
proof
  show "rows_kept w w" for w
    by (simp add: rows_kept_def later_def)
  show "rows_kept u w" if "rows_kept u v" "rows_kept v w" for u v w
    using that rows_stay_trans lt.trans unfolding rows_kept_def by blast
qed (auto simp: rows_kept_def same_db_def)

lemma keeps_rows_stmt:
  assumes "\<And>now t x t'. g now t = (Inr x, t') \<Longrightarrow> rows_stay (sessions t) (sessions t')"
  shows "keeps rows_kept (db_stmt ex g)"
  by (rule rk.keeps_stmt) (use assms in \<open>auto simp: rows_kept_def later_def\<close>)

lemma keeps_rows_other: "keeps (same_of sessions) m \<Longrightarrow> keeps rows_kept m"
  by (auto simp: keeps_def same_of_def rows_kept_def)

lemma rows_stay_append: "rows_stay rows (rows @ rows')"
  by (auto simp: rows_stay_def)

lemma rows_stay_update:
  assumes "\<And>s. s_id (f s) = s_id s \<and> s_token_hash (f s) = s_token_hash s \<and> (s_revoked_at s \<noteq> None \<longrightarrow> s_revoked_at (f s) \<noteq> None)"
  shows "rows_stay rows (update_where P f rows)"
  unfolding rows_stay_def
proof
  fix s
  assume "s \<in> set rows"
  then have "(if P s then f s else s) \<in> set (update_where P f rows)"
    by (auto simp: update_where_def)
  then show "\<exists>s' \<in> set (update_where P f rows). s_id s' = s_id s \<and> s_token_hash s' = s_token_hash s \<and>
      (s_revoked_at s \<noteq> None \<longrightarrow> s_revoked_at s' \<noteq> None)"
    by (rule bexI [rotated]) (use assms in auto)
qed

lemma marks_stay:
  "rows_stay rows (update_where P (mark_revoked now) rows)"
  "rows_stay rows (update_where P (mark_rotated now i) rows)"
  "rows_stay rows (update_where P (mark_compromised now reason) rows)"
  "rows_stay rows (update_where P (\<lambda>s. s\<lparr>s_auth_time := at\<rparr>) rows)"
  by (rule rows_stay_update; simp add: mark_revoked_def mark_rotated_def mark_compromised_def coalesce_def split: option.split)+

lemma keeps_rows_writes:
  "keeps rows_kept (revoke ex i)"
  "keeps rows_kept (revoke_all_by_user ex v)"
  "keeps rows_kept (revoke_personal_access_sessions ex v)"
  "keeps rows_kept (revoke_all_by_user_returning ex v)"
  "keeps rows_kept (revoke_others ex v i)"
  "keeps rows_kept (revoke_by_client ex c)"
  "keeps rows_kept (set_auth_time ex i at)"
  "keeps rows_kept (repo_revoke_family i)"
  unfolding revoke_def revoke_all_by_user_def revoke_personal_access_sessions_def
    revoke_all_by_user_returning_def revoke_others_def revoke_by_client_def set_auth_time_def repo_revoke_family_def
  by (auto simp: update_sessions_def update_sessions_returning_def put_sessions_ok revoke_session_family_def
      intro!: rk.keeps_intros keeps_rows_stmt marks_stay split: option.splits)

lemma keeps_rows_create: "keeps rows_kept (create ex n)"
  unfolding create_def
  by (auto simp: insert_session_def put_sessions_ok Let_def intro!: rk.keeps_intros rk.keeps_same_db [OF keeps_fresh_uuid]
      keeps_rows_stmt rows_stay_append split: if_splits)

lemma keeps_rows_rotate: "keeps rows_kept (rotate i n)"
  unfolding rotate_def
  by (auto simp: insert_rotated_def update_sessions_def put_sessions_ok Let_def
      intro!: rk.keeps_in_tx rk.keeps_intros frame_intros [THEN rk.keeps_same_db] keeps_rows_stmt rows_stay_append marks_stay
      split: if_splits)

lemmas rows_intros = rk.keeps_intros keeps_rows_writes keeps_rows_create keeps_rows_rotate keeps_other_writes [THEN keeps_rows_other]

section \<open>What refinement gives\<close>

lemma refines_state_ok:
  "refines ex w w' \<Longrightarrow> state_ok (machine_state ex w) \<Longrightarrow> state_ok (machine_state ex w')"
  unfolding refines_def using session_steps_ok by blast

lemma refines_family_dead:
  "refines ex w w' \<Longrightarrow> fam < uuids w \<Longrightarrow> family_dead fam (sessions (tables w)) \<Longrightarrow>
   family_dead fam (sessions (tables w'))"
  unfolding refines_def machine_state_def using family_dead_steps by fastforce

end
