(* ===== verification/Tokens.thy ===== *)
theory Tokens
  imports Redis_Counter Credentials Session_Machine
begin

text \<open>
  Issuing sessions and access tokens, the blocklists and the session validity
  cache (\<^verbatim>\<open>services/auth/tokens.rs\<close>). The claims of a token are the
  argument of \<^verbatim>\<open>jwt_encode\<close>; the properties speak of them, whatever the
  signature looks like.
\<close>

section \<open>Issuing\<close>

record sign_in =
  si_identifier :: "string option"
  si_request_id :: "uuid option"
  si_audit_metadata :: json
  si_second_factor :: bool

record auth_tokens =
  at_access_token :: string
  at_refresh_token :: string
  at_session :: session

definition current_scopes :: "registered_client option \<Rightarrow> string list option" where
  "current_scopes client = map_option cl_scopes client"

definition token_claims ::
  "app_state \<Rightarrow> instant \<Rightarrow> uuid \<Rightarrow> uuid \<Rightarrow> uuid \<Rightarrow> string list option \<Rightarrow> string option \<Rightarrow>
   registered_client option \<Rightarrow> session_type \<Rightarrow> string list \<times> string list \<Rightarrow> claims" where
  "token_claims st issued_at jti user_id session_id scopes client_id client ty names =
     (let exp = unix_timestamp (saturating_add issued_at (seconds (i64_of_u64 (access_expiry_secs st))));
          narrowed = within_client_scopes scopes (current_scopes client);
          (role_names, permission_names) = restrict_to_consent (fst names) (snd names) narrowed;
          role_names = (case client of Some c \<Rightarrow> if \<not> cl_is_primary c then [] else role_names | None \<Rightarrow> role_names)
      in (with_rbac (claims_new user_id session_id jti (unix_timestamp issued_at) exp) role_names permission_names)
           \<lparr>c_client_id := client_id, c_session_type := Some (session_type_as_str ty),
            c_iss := Some (public_url st), c_aud := audience st\<rparr>)"

definition build_access_token ::
  "app_state \<Rightarrow> uuid \<Rightarrow> uuid \<Rightarrow> string list option \<Rightarrow> string option \<Rightarrow> session_type \<Rightarrow> (app_error, string) svc" where
  "build_access_token st user_id session_id scopes client_id ty =
     bnd clock_now (\<lambda>issued_at.
     bnd (map_err internal (find_rbac_names user_id)) (\<lambda>names.
     bnd (case client_id of
            Some c \<Rightarrow> map_err internal (client_find_by_id Pool c)
          | None \<Rightarrow> ret None) (\<lambda>client.
     bnd fresh_uuid (\<lambda>jti.
     ok_or Internal (jwt_encode st (token_claims st issued_at jti user_id session_id scopes client_id client ty names))))))"

definition alert_new_device :: "uuid \<Rightarrow> device_family \<Rightarrow> ipnetwork option \<Rightarrow> ('e, unit) svc" where
  "alert_new_device user_id family ip =
     bnd (attempt (user_find_by_id Pool user_id)) (\<lambda>found.
     case found of
       Inr (Some user) \<Rightarrow>
         bnd clock_now (\<lambda>now.
         send_mail \<lparr>m_kind = ''new_device_login'', m_to = u_email user,
           m_args = [AStr (u_username user), AStr (u_preferred_locale user), AStr (describe family),
                     AIp (map_option net_ip ip), ATime now]\<rparr>)
     | _ \<Rightarrow> ret ())"

text \<open>What is recorded of a completed sign-in, in the transaction of its session.\<close>

definition record_sign_in ::
  "app_state \<Rightarrow> executor \<Rightarrow> uuid \<Rightarrow> ipnetwork option \<Rightarrow> string option \<Rightarrow> sign_in \<Rightarrow> (app_error, device_family option) svc" where
  "record_sign_in st tx user_id ip user_agent si =
     (let family = device_family user_agent in
      bnd (map_err internal (known_device_record tx user_id (crypto_sha256 st (fingerprint_input family)))) (\<lambda>unknown.
      let alert = unknown \<and> new_device_alerts st in
      seq (when_do alert (map_err internal (audit_append tx (Some user_id) (si_request_id si) NewDeviceLogin ip
            (JObj [(''device'', JStr (describe family))]))))
      (seq (map_err internal (user_record_sign_in tx user_id))
      (seq (case si_identifier si of
              None \<Rightarrow> ret ()
            | Some identifier \<Rightarrow> map_err internal (record_attempt tx
                \<lparr>nl_user_id = Some user_id, nl_identifier = identifier, nl_successful = True,
                 nl_failure_reason = None, nl_request_ip = ip, nl_user_agent = None\<rparr>))
      (seq (map_err internal (audit_append tx (Some user_id) (si_request_id si) AuditLogin ip (si_audit_metadata si)))
      (ret (if alert then Some family else None)))))))"

definition issue_tokens ::
  "app_state \<Rightarrow> uuid \<Rightarrow> ipnetwork option \<Rightarrow> string option \<Rightarrow> unicode option \<Rightarrow> bool \<Rightarrow> session_type \<Rightarrow>
   string option \<Rightarrow> string list option \<Rightarrow> sign_in option \<Rightarrow> (app_error, auth_tokens) svc" where
  "issue_tokens st user_id ip user_agent device_name remember_me ty client_id scopes sign =
     bnd (draw (generate_token st)) (\<lambda>raw_token.
     bnd clock_now (\<lambda>now.
     let expires_at = capped_expiry now (session_ttl_secs st remember_me) now (max_session_lifetime_secs st);
         label = Option.bind device_name device_label;
         mfa = (case sign of None \<Rightarrow> False | Some si \<Rightarrow> si_second_factor si) in
     bnd (in_tx internal (\<lambda>tx.
       bnd fresh_uuid (\<lambda>family_id.
       bnd (map_err internal (create tx
         \<lparr>ns_user_id = user_id, ns_session_family_id = family_id, ns_expires_at = expires_at,
          ns_ip_address = ip, ns_device_name = label, ns_remember_me = remember_me,
          ns_token_hash = crypto_sha256 st raw_token, ns_user_agent = user_agent,
          ns_session_type = ty, ns_client_id = client_id, ns_family_created_at = None,
          ns_scopes = scopes, ns_mfa = mfa\<rparr>)) (\<lambda>session.
       bnd (case sign of
              None \<Rightarrow> ret None
            | Some si \<Rightarrow> record_sign_in st tx user_id ip user_agent si) (\<lambda>new_device.
       ret (session, new_device)))))) (\<lambda>(session, new_device).
     seq (case new_device of None \<Rightarrow> ret () | Some family \<Rightarrow> alert_new_device user_id family ip)
     (bnd (build_access_token st user_id (s_id session) scopes (s_client_id session) (s_session_type session)) (\<lambda>access_token.
      ret \<lparr>at_access_token = access_token, at_refresh_token = raw_token, at_session = session\<rparr>)))))"

section \<open>Blocklists\<close>

definition blocklist_refresh_token :: "bytes \<Rightarrow> instant \<Rightarrow> ('e, unit) svc" where
  "blocklist_refresh_token token_hash session_expires_at =
     bnd clock_now (\<lambda>now.
     let ttl = whole_seconds (session_expires_at - now) in
     if ttl \<le> 0 then ret ()
     else redis_best_effort (\<lambda>now r. rset_ex now (RtBlock token_hash) (RInt 1) ttl r))"

definition is_refresh_token_blocked :: "bytes \<Rightarrow> (app_error, bool) svc" where
  "is_refresh_token_blocked token_hash =
     seq (map_err (\<lambda>_. ServiceUnavailable ''redis_unavailable'') redis_conn)
       (map_err (\<lambda>_. ServiceUnavailable ''redis_query_failed'')
         (redis_cmd (\<lambda>now r. (rexists now r (RtBlock token_hash), r))))"

definition blocklist_jti :: "uuid \<Rightarrow> int \<Rightarrow> ('e, unit) svc" where
  "blocklist_jti jti token_exp =
     bnd clock_now (\<lambda>now.
     let ttl = token_exp - unix_timestamp now in
     if ttl \<le> 0 then ret ()
     else redis_best_effort (\<lambda>now r. rset_ex now (JtiBlock jti) (RInt 1) ttl r))"

definition is_jti_blocked :: "uuid \<Rightarrow> (app_error, bool) svc" where
  "is_jti_blocked jti =
     seq (map_err (\<lambda>_. ServiceUnavailable ''redis_unavailable'') redis_conn)
       (map_err (\<lambda>_. ServiceUnavailable ''redis_query_failed'')
         (redis_cmd (\<lambda>now r. (rexists now r (JtiBlock jti), r))))"

section \<open>The state of a token\<close>

definition SESSION_CACHE_TTL_SECS :: int where
  "SESSION_CACHE_TTL_SECS = 5"

text \<open>The cached byte, \<^const>\<open>None\<close> when the stored value is no byte.\<close>

fun parse_u8 :: "rval option \<Rightarrow> (8 word) option option" where
  "parse_u8 None = Some None"
| "parse_u8 (Some (RInt n)) = (if 0 \<le> n \<and> n < 256 then Some (Some (word_of_int n)) else None)"
| "parse_u8 (Some _) = None"

definition session_cached :: "uuid \<Rightarrow> instant \<Rightarrow> rstore \<Rightarrow> (8 word) option option" where
  "session_cached session_id now r = parse_u8 (rget now r (SessValid session_id))"

definition verify_token_state :: "uuid \<Rightarrow> uuid \<Rightarrow> (app_error, bool) svc" where
  "verify_token_state jti session_id =
     seq (map_err (\<lambda>_. ServiceUnavailable ''redis_unavailable'') redis_conn)
     (bnd (map_err (\<lambda>_. ServiceUnavailable ''redis_query_failed'')
            (redis_cmd (\<lambda>now r. ((rexists now r (JtiBlock jti), session_cached session_id now r), r)))) (\<lambda>(blocked, reply).
      bnd (ok_or (ServiceUnavailable ''redis_query_failed'') reply) (\<lambda>cached.
      bnd (case token_state blocked cached of
             Revoked \<Rightarrow> throw TokenInvalid
           | Active first_party \<Rightarrow> ret (True, first_party)
           | Ended \<Rightarrow> ret (False, False)
           | Unknown \<Rightarrow>
               bnd (map_err internal (find_validation_by_id session_id)) (\<lambda>found.
               bnd (ok_or Unauthorized found) (\<lambda>session.
               bnd clock_now (\<lambda>now.
               let active = validation_is_active session now;
                   first_party = validation_first_party session in
               seq (ignore (redis_cmd (\<lambda>t r. rset_nx_ex t (SessValid session_id)
                      (RInt (uint (cached_value active first_party))) SESSION_CACHE_TTL_SECS r)))
               (ret (active, first_party)))))) (\<lambda>(active, first_party).
      if active then ret first_party else throw Unauthorized))))"

fun mark_ended :: "instant \<Rightarrow> uuid list \<Rightarrow> rstore \<Rightarrow> rstore" where
  "mark_ended now [] r = r"
| "mark_ended now (i # is) r =
     mark_ended now is (rset_ex now (SessValid i) (RInt (uint CACHED_ENDED)) SESSION_CACHE_TTL_SECS r)"

definition invalidate_session_caches :: "uuid list \<Rightarrow> ('e, unit) svc" where
  "invalidate_session_caches session_ids =
     (if session_ids = [] then ret () else redis_best_effort (\<lambda>now r. mark_ended now session_ids r))"

definition invalidate_session_cache :: "uuid \<Rightarrow> ('e, unit) svc" where
  "invalidate_session_cache session_id = invalidate_session_caches [session_id]"

definition revoke_family :: "uuid \<Rightarrow> (app_error, unit) svc" where
  "revoke_family session_id =
     seq (map_err internal (repo_revoke_family session_id))
     (bnd (map_err internal (family_session_ids session_id)) (\<lambda>family.
      invalidate_session_caches family))"

section \<open>Frames\<close>

lemma keeps_token_calls [frame_intros]:
  "keeps same_db (build_access_token st u sid scopes client_id ty)"
  "keeps same_db (alert_new_device u family ip)"
  "keeps same_db (blocklist_refresh_token h expires)"
  "keeps same_db (is_refresh_token_blocked h)"
  "keeps same_db (blocklist_jti jti expiry)"
  "keeps same_db (is_jti_blocked jti)"
  "keeps same_db (invalidate_session_caches is)"
  "keeps same_db (invalidate_session_cache i)"
  unfolding build_access_token_def alert_new_device_def blocklist_refresh_token_def is_refresh_token_blocked_def
    blocklist_jti_def is_jti_blocked_def invalidate_session_cache_def invalidate_session_caches_def
  by (auto intro!: sd.keeps_intros frame_intros split: option.split sum.split)

lemma keeps_verify_token_state [frame_intros]: "keeps same_db (verify_token_state jti sid)"
  unfolding verify_token_state_def
  by (auto intro!: sd.keeps_intros frame_intros split: token_state.split prod.split)

lemma keeps_record_sign_in: "keeps (same_of sessions) (record_sign_in st tx u ip ua si)"
  unfolding record_sign_in_def
  by (auto intro!: so.keeps_intros keeps_other_writes split: option.split)

lemma issue_tokens_refines:
  "keeps (refines Pool) (issue_tokens st u ip ua device remember ty client_id scopes si)"
  unfolding issue_tokens_def
  by (auto intro!: rf.keeps_intros keeps_refines_in_tx keeps_sign_in frame_intros [THEN rf.keeps_same_db]
      keeps_record_sign_in [THEN keeps_refines_other] split: option.split prod.split)

lemma revoke_family_refines: "keeps (refines Pool) (revoke_family i)"
  unfolding revoke_family_def
  by (intro rf.keeps_intros keeps_session_writes frame_intros [THEN rf.keeps_same_db])

section \<open>The authority of an access token\<close>

lemma narrowed_permissions:
  assumes "restrict_to_consent held perms (within_client_scopes scopes (current_scopes client)) = (rs, ps)"
    and perms: "\<And>p. p \<in> set perms \<Longrightarrow> CHR '':'' \<in> set p"
  shows "set ps \<subseteq> set perms" "set rs \<subseteq> set held"
    and "scopes = Some cs \<Longrightarrow> set ps \<subseteq> set cs \<and> rs = []"
    and "client = Some c \<Longrightarrow> cl_scopes c \<noteq> [] \<Longrightarrow> set ps \<subseteq> set (cl_scopes c) \<and> rs = []"
proof -
  have no_oidc: "\<not> is_oidc_scope p" if "p \<in> set perms" for p
    using that perms oidc_scope_no_colon by blast
  show "set ps \<subseteq> set perms" "set rs \<subseteq> set held"
    and "scopes = Some cs \<Longrightarrow> set ps \<subseteq> set cs \<and> rs = []"
    using assms(1)
    by (auto simp: restrict_to_consent_def within_client_scopes_def current_scopes_def split: option.splits if_splits)
  show "client = Some c \<Longrightarrow> cl_scopes c \<noteq> [] \<Longrightarrow> set ps \<subseteq> set (cl_scopes c) \<and> rs = []"
    using assms(1) no_oidc
    by (auto simp: restrict_to_consent_def within_client_scopes_def current_scopes_def split: option.splits if_splits)
qed

lemma token_claims_rbac:
  assumes "restrict_to_consent (fst names) (snd names) (within_client_scopes scopes (current_scopes client)) = (rs, ps)"
  shows "c_permissions (token_claims st at jti u sid scopes client_id client ty names) = ps"
    and "c_roles (token_claims st at jti u sid scopes client_id client ty names) =
      (case client of Some c \<Rightarrow> if \<not> cl_is_primary c then [] else rs | None \<Rightarrow> rs)"
  using assms by (simp_all add: token_claims_def with_rbac_def Let_def)

definition within_authority ::
  "tables \<Rightarrow> uuid \<Rightarrow> string list option \<Rightarrow> string option \<Rightarrow> claims \<Rightarrow> bool" where
  "within_authority t u scopes client_id c \<longleftrightarrow>
     set (c_permissions c) \<subseteq> set (permission_names_of u t) \<and>
     set (c_roles c) \<subseteq> set (role_names_of u t) \<and>
     (case scopes of None \<Rightarrow> True | Some cs \<Rightarrow> set (c_permissions c) \<subseteq> set cs \<and> c_roles c = []) \<and>
     (case Option.bind client_id (\<lambda>i. find_client i t) of
        None \<Rightarrow> True
      | Some r \<Rightarrow>
          (cl_scopes r \<noteq> [] \<longrightarrow> set (c_permissions c) \<subseteq> set (cl_scopes r) \<and> c_roles c = []) \<and>
          (\<not> cl_is_primary r \<longrightarrow> c_roles c = []))"

lemma token_claims_authority:
  "within_authority t u scopes client_id (token_claims st at jti u sid scopes client_id
     (Option.bind client_id (\<lambda>i. find_client i t)) ty (role_names_of u t, permission_names_of u t))"
proof -
  let ?client = "Option.bind client_id (\<lambda>i. find_client i t)"
  let ?names = "(role_names_of u t, permission_names_of u t)"
  obtain rs ps where r: "restrict_to_consent (fst ?names) (snd ?names) (within_client_scopes scopes (current_scopes ?client)) = (rs, ps)"
    by (cases "restrict_to_consent (fst ?names) (snd ?names) (within_client_scopes scopes (current_scopes ?client))")
  have colon: "CHR '':'' \<in> set p" if "p \<in> set (snd ?names)" for p
    using that permission_names_have_colon by simp
  have n: "set ps \<subseteq> set (permission_names_of u t)" "set rs \<subseteq> set (role_names_of u t)"
    "\<And>cs. scopes = Some cs \<Longrightarrow> set ps \<subseteq> set cs \<and> rs = []"
    "\<And>c. ?client = Some c \<Longrightarrow> cl_scopes c \<noteq> [] \<Longrightarrow> set ps \<subseteq> set (cl_scopes c) \<and> rs = []"
    using narrowed_permissions [OF r colon] by simp_all
  show ?thesis
    unfolding within_authority_def token_claims_rbac [OF r]
    using n by (auto split: option.splits)
qed

definition proper_claims :: "app_state \<Rightarrow> uuid \<Rightarrow> uuid \<Rightarrow> claims \<Rightarrow> bool" where
  "proper_claims st u sid c \<longleftrightarrow>
     c_sub c = u \<and> c_sid c = sid \<and> c_iss c = Some (public_url st) \<and> c_aud c = audience st \<and>
     c_nbf c = Some (c_iat c) \<and> c_exp c \<le> c_iat c + i64_of_u64 (access_expiry_secs st)"

lemma token_claims_proper:
  assumes "valid_instant at"
  shows "proper_claims st u sid (token_claims st at jti u sid scopes client_id client ty names)"
proof -
  have "saturating_add at (seconds n) \<le> at + seconds n" if "0 \<le> n" for n
    using saturating_add_le [OF assms, of "seconds n"] that by (simp add: seconds_def ns_per_sec_def)
  then have "unix_timestamp (saturating_add at (seconds n)) \<le> unix_timestamp (at + seconds n)" if "0 \<le> n" for n
    using that unix_timestamp_mono by blast
  moreover have "unix_timestamp (at + seconds n) = unix_timestamp at + n" for n
    by (simp add: unix_timestamp_def seconds_def ns_per_sec_def)
  moreover have "0 \<le> i64_of_u64 n" for n
    by (simp add: i64_of_u64_def i64_max_def)
  ultimately show ?thesis
    by (simp add: proper_claims_def token_claims_def with_rbac_def claims_new_def Let_def case_prod_beta)
qed

text \<open>C10: An access token never carries more than its session was granted. Whatever fails on
  the way, a token that is issued is the signature of claims for the account and the session asked
  for, issued by this service to its audience, valid from now and no longer than the configured
  lifetime, whose permissions are the account's current permissions, within the scopes consented
  to and within the scopes the client is registered for today; and whose roles are the account's,
  and none at all for a session with consented scopes, for a client with registered scopes and for
  any client but the primary one.\<close>

theorem access_token_authority:
  assumes "build_access_token st u sid scopes client_id ty w = (Inr token, w')" "valid_instant (app_now (tick w))"
  shows "\<exists>c. jwt_encode st c = Some token \<and> proper_claims st u sid c \<and>
    within_authority (tables w) u scopes client_id c"
proof -
  have "wp (build_access_token st u sid scopes client_id ty)
    (\<lambda>token _. \<exists>c. jwt_encode st c = Some token \<and> proper_claims st u sid c \<and>
      within_authority (tables w) u scopes client_id c) (\<lambda>_ _. True) w"
    using token_claims_proper [OF assms(2)] token_claims_authority [of "tables w" u scopes client_id]
    by (cases client_id) (auto simp: build_access_token_def wp_simps find_rbac_names_def client_find_by_id_def
        split: option.split)
  then show ?thesis
    using assms(1) by (rule wp_ok)
qed

lemma access_token_authority_witness:
  "\<exists>c. jwt_encode demo_state c = Some ''jwt'' \<and> proper_claims demo_state 1 2 c \<and>
     within_authority demo_tables 1 (Some [''a:b'']) None c"
  using access_token_authority [of demo_state 1 2 "Some [''a:b'']" None Web "initial_world demo_tables" "''jwt''"
      "snd (build_access_token demo_state 1 2 (Some [''a:b'']) None Web (initial_world demo_tables))"]
  by (simp add: demo_state_def build_access_token_def bnd_def clock_now_def map_err_def find_rbac_names_def
      db_read_def db_stmt_def fresh_uuid_def ok_or_def ret_def initial_world_def app_now_def valid_instant_def
      min_instant_def max_instant_def Let_def)

section \<open>Revocation and the validity cache\<close>

text \<open>The session is gone from the database or revoked there.\<close>

definition session_ended :: "uuid \<Rightarrow> tables \<Rightarrow> bool" where
  "session_ended sid t \<longleftrightarrow> (case find_session sid t of None \<Rightarrow> True | Some s \<Rightarrow> s_revoked_at s \<noteq> None)"

text \<open>What the cache still says of the session other than that it ended is gone by \<open>until\<close>.\<close>

definition cache_until :: "uuid \<Rightarrow> instant \<Rightarrow> rstore \<Rightarrow> bool" where
  "cache_until sid until r \<longleftrightarrow>
     (case r (SessValid sid) of
        None \<Rightarrow> True
      | Some (v, expiry) \<Rightarrow>
          v = RInt (uint CACHED_ENDED) \<or> (case expiry of None \<Rightarrow> False | Some x \<Rightarrow> x \<le> until))"

lemma cache_until_mono: "cache_until sid a r \<Longrightarrow> a \<le> b \<Longrightarrow> cache_until sid b r"
  by (auto simp: cache_until_def split: option.splits)

lemma cached_value_ended [simp]: "cached_value False fp = CACHED_ENDED"
  by (simp add: cached_value_def)

lemma parse_u8_ended [simp]: "parse_u8 (Some (RInt (uint CACHED_ENDED))) = Some (Some CACHED_ENDED)"
  by (simp add: CACHED_ENDED_def)

lemma cached_active_expires:
  assumes "cache_until sid until r" "session_cached sid now r = Some c" "token_state b c = Active fp"
  shows "now < until"
proof -
  have c: "c = Some (cached_value True fp)"
    using assms(3) token_state_Active_iff by blast
  then obtain v e where r: "r (SessValid sid) = Some (v, e)" "\<And>x. e = Some x \<Longrightarrow> now < x"
    and v: "parse_u8 (Some v) = Some (Some (cached_value True fp))"
    using assms(2) unfolding session_cached_def
    by (cases "rget now r (SessValid sid)") (auto simp: rget_def split: option.splits if_splits)
  have "v \<noteq> RInt (uint CACHED_ENDED)"
    using v by (cases fp) (auto simp: cached_value_def CACHED_ENDED_def CACHED_FIRST_PARTY_def CACHED_DELEGATED_def)
  then show ?thesis
    using assms(1) r by (auto simp: cache_until_def split: option.splits)
qed

lemma cache_until_nx:
  assumes "cache_until sid until r" "sid' = sid \<Longrightarrow> v = RInt (uint CACHED_ENDED)"
  shows "cache_until sid until (snd (rset_nx_ex now (SessValid sid') v secs r))"
  using assms by (auto simp: rset_nx_ex_def rset_ex_def cache_until_def)

lemma ended_validation:
  "session_ended sid t \<Longrightarrow> map_option (validation_of t) (find_session sid t) = Some v \<Longrightarrow> \<not> validation_is_active v now"
  by (auto simp: session_ended_def validation_of_def validation_is_active_def)

lemma verify_ended:
  assumes "session_ended sid (tables w)" "cache_until sid until (redis w)"
  shows "wp (verify_token_state jti sid')
    (\<lambda>_ w'. cache_until sid until (redis w') \<and> (sid' = sid \<longrightarrow> real_now w < until))
    (\<lambda>_ w'. cache_until sid until (redis w')) w"
proof -
  have later: "real_now w \<le> real_now (tick (tick w))"
    using tick_real_now order_trans by blast
  have active: "real_now w < until"
    if "session_cached sid (real_now (tick (tick w))) (redis w) = Some c" "token_state b c = Active fp" for b c fp
    using cached_active_expires [OF assms(2) that] later by simp
  have inactive: "\<not> validation_is_active (validation_of (tables w) s) now"
    if "find_session sid (tables w) = Some s" for s now
    using that ended_validation [OF assms(1)] by simp
  have nx: "cache_until sid until (snd (rset_nx_ex now (SessValid sid') (RInt (uint CACHED_ENDED)) secs (redis w)))"
    "sid' \<noteq> sid \<Longrightarrow> cache_until sid until (snd (rset_nx_ex now (SessValid sid') v secs (redis w)))" for now v secs
    by (auto intro!: cache_until_nx [OF assms(2)])
  show ?thesis
  proof (cases "find_session sid' (tables w)")
    case None
    then show ?thesis
      using assms(2) active
      by (auto simp: verify_token_state_def wp_simps Let_def split: outcome.split token_state.split option.split)
  next
    case (Some s)
    show ?thesis
      using assms(2) active nx Some inactive
      by (cases "sid' = sid") (auto simp: verify_token_state_def wp_simps Let_def
          split: outcome.split token_state.split option.split)
  qed
qed

definition verify_call :: "uuid \<times> uuid \<Rightarrow> (app_error, bool) svc" where
  "verify_call c = verify_token_state (fst c) (snd c)"

text \<open>C9: The end of a session reaches its access tokens. Once the database holds a session as
  revoked, or not at all, no sequence of token checks, whatever fails in it, makes a token of that
  session acceptable again: from the time the cached answers run out (at once, where the cache was
  marked) every check of it, for any token, is refused.\<close>

theorem revocation_takes_effect:
  assumes "session_ended sid (tables w)" "cache_until sid until (redis w)"
    and "until \<le> real_now (snd (history verify_call calls w))"
  shows "\<exists>e. fst (verify_token_state jti sid (snd (history verify_call calls w))) = Inl e"
proof -
  let ?w = "snd (history verify_call calls w)"
  have "session_ended sid (tables ?w) \<and> cache_until sid until (redis ?w)"
  proof (rule history_invariant [where I = "\<lambda>w. session_ended sid (tables w) \<and> cache_until sid until (redis w)"])
    show "session_ended sid (tables w) \<and> cache_until sid until (redis w)"
      using assms by simp
    fix c and u :: world
    assume u: "session_ended sid (tables u) \<and> cache_until sid until (redis u)"
    have "same_db u (snd (verify_call c u))"
      unfolding verify_call_def by (rule keepsD [OF keeps_verify_token_state])
    then show "session_ended sid (tables (snd (verify_call c u))) \<and> cache_until sid until (redis (snd (verify_call c u)))"
      using u verify_ended [of sid u until "fst c" "snd c"]
      by (auto simp: verify_call_def same_db_def wp_def split: prod.splits sum.splits)
  qed
  then show ?thesis
    using verify_ended [of sid ?w until jti sid] assms(3)
    by (auto simp: wp_def split: prod.splits sum.splits)
qed

lemma mark_ended_caches:
  "cache_until sid until (mark_ended now is r) \<longleftrightarrow> sid \<in> set is \<or> cache_until sid until r"
proof (induction "is" arbitrary: r)
  case (Cons i "is")
  have "cache_until sid until (rset_ex now (SessValid i) (RInt (uint CACHED_ENDED)) secs r) \<longleftrightarrow>
      sid = i \<or> cache_until sid until r" for secs
    by (auto simp: cache_until_def rset_ex_def)
  then show ?case
    using Cons.IH by auto
qed simp

lemma family_ended:
  assumes "table_inv now t" "s_session_family_id x = fam" "x \<in> set (sessions (family_revoked now fam t))"
  shows "session_ended (s_id x) (family_revoked now fam t)"
proof -
  have ids: "map s_id (sessions (family_revoked now fam t)) = map s_id (sessions t)"
    by (simp add: family_revoked_def map_update_where)
  have "distinct (map s_id (sessions (family_revoked now fam t)))"
    unfolding ids using assms(1) by (simp add: table_inv_def session_table_ok_def)
  then have "find_session (s_id x) (family_revoked now fam t) = Some x"
    unfolding find_session_def using assms(3) by (rule find_by_distinct_key)
  then show ?thesis
    using family_revoked_dead [OF assms(3,2)] by (simp add: session_ended_def)
qed

lemma family_of_revoked:
  assumes "find_session i t = Some s"
  shows "\<exists>s'. find_session i (family_revoked now fam t) = Some s' \<and> s_session_family_id s' = s_session_family_id s"
  using assms unfolding find_session_def family_revoked_def
  by (simp add: find_update_where)

definition family_members :: "uuid \<Rightarrow> tables \<Rightarrow> uuid list" where
  "family_members fam t = map s_id (filter (in_family fam) (sessions t))"

lemma wp_family_session_ids [wp_simps]:
  "wp (family_session_ids i) Q E w =
     (if next_outcome w = Done then
        Q (case find_session i (tables w) of None \<Rightarrow> [] | Some s \<Rightarrow> family_members (s_session_family_id s) (tables w)) (tick w)
      else E SqlFailed (tick w))"
  by (cases "find_session i (tables w)") (simp_all add: family_session_ids_def family_members_def wp_simps)

lemma invalidate_wp:
  assumes "\<And>w'. tables w' = tables w \<Longrightarrow> redis w' = redis w \<Longrightarrow> sched w \<noteq> [] \<Longrightarrow> Q () w'"
    and "\<And>w' now. tables w' = tables w \<Longrightarrow> redis w' = mark_ended now is (redis w) \<Longrightarrow>
      (sched w = [] \<longrightarrow> sched w' = []) \<Longrightarrow> Q () w'"
  shows "wp (invalidate_session_caches is) Q E w"
proof (cases "sched w")
  case Nil
  then show ?thesis
    using assms(2) by (simp add: invalidate_session_caches_def wp_simps)
next
  case (Cons a l)
  then show ?thesis
    using assms by (simp add: invalidate_session_caches_def wp_simps)
qed

lemma revoke_family_wp:
  assumes inv: "table_inv (db_now (tick w)) (tables w)" and found: "find_session i (tables w) = Some s"
  defines "t' \<equiv> family_revoked (db_now (tick w)) (s_session_family_id s) (tables w)"
  shows "wp (revoke_family i)
    (\<lambda>_ w'. tables w' = t' \<and> (sched w = [] \<longrightarrow> sched w' = []) \<and>
      (\<exists>now. redis w' = redis w \<and> sched w \<noteq> [] \<or> redis w' = mark_ended now (family_members (s_session_family_id s) t') (redis w)))
    (\<lambda>e w'. e = Internal \<and> redis w' = redis w \<and> sched w \<noteq> []) w"
proof -
  obtain s' where s': "find_session i t' = Some s'" "s_session_family_id s' = s_session_family_id s"
    using family_of_revoked [OF found] unfolding t'_def by blast
  have total: "revoke_session_family i RefreshTokenReuse (db_now (tick w)) (tables w) =
      (Inr (length (filter (\<lambda>r. in_family (s_session_family_id s) r \<and> not_marked r) (sessions (tables w)))), t')"
    unfolding t'_def by (rule revoke_session_family_total [OF inv found])
  have idle: "sched (tick (tick w)) = []" "next_outcome w = Done" "next_outcome (tick w) = Done" if "sched w = []"
    using that by (simp_all add: next_outcome_def tick_def)
  show ?thesis
    unfolding revoke_family_def repo_revoke_family_def
    using s' idle
    by (auto simp: wp_simps wp_db_stmt total internal_def intro!: invalidate_wp split: outcome.split)
qed

text \<open>C30: The revocation of a family reaches the access tokens of all its sessions. When it
  succeeds, each session of the family is ended in the database; what the cache holds of it is
  marked or was there before, so it runs out no later than it would have; and when Redis answers
  it is marked at once.\<close>

theorem family_revocation_reaches_tokens:
  assumes "state_ok (machine_state Pool w)" "find_session i (tables w) = Some s"
    and "revoke_family i w = (Inr (), w')"
    and "x \<in> set (sessions (tables w'))" "s_session_family_id x = s_session_family_id s"
  shows "session_ended (s_id x) (tables w') \<and>
    (cache_until (s_id x) until (redis w) \<longrightarrow> cache_until (s_id x) until (redis w')) \<and>
    (sched w = [] \<longrightarrow> cache_until (s_id x) until (redis w'))"
proof -
  have inv: "table_inv (db_now (tick w)) (tables w)"
    using assms(1) table_inv_later db_now_tick by (auto simp: machine_state_def state_ok_def)
  from wp_ok [OF revoke_family_wp [OF inv assms(2)] assms(3)]
  have t': "tables w' = family_revoked (db_now (tick w)) (s_session_family_id s) (tables w)"
    and cache: "redis w' = redis w \<and> sched w \<noteq> [] \<or>
      (\<exists>now. redis w' = mark_ended now (family_members (s_session_family_id s) (tables w')) (redis w))"
    by auto
  have "s_id x \<in> set (family_members (s_session_family_id s) (tables w'))"
    using assms(4,5) by (auto simp: family_members_def in_family_def)
  then show ?thesis
    using family_ended [OF inv assms(5)] assms(4) cache by (auto simp: t' mark_ended_caches)
qed

section \<open>Witnesses\<close>

definition demo_world :: world where
  "demo_world = (initial_world demo_rotated)\<lparr>real_now := 20\<rparr>"

lemma demo_world_ok: "state_ok (machine_state Pool demo_world)"
proof -
  have "session_step (10, 5, demo_rotated) (20, 1000, demo_rotated)"
    by (rule elapse) simp_all
  then have "session_step\<^sup>*\<^sup>* (0, 2, demo_tables) (20, 1000, demo_rotated)"
    using demo_trace by (rule rtranclp.rtrancl_into_rtrancl [rotated])
  then have "state_ok (20, 1000, demo_rotated)"
    by (rule session_steps_ok) (simp add: state_ok_empty demo_tables_def empty_tables_def)
  then show ?thesis
    by (simp add: machine_state_def demo_world_def initial_world_def db_now_def)
qed

theorem revocation_takes_effect_witness:
  "\<exists>e. fst (verify_token_state 7 2 demo_world) = Inl e"
  using revocation_takes_effect [of 2 demo_world 20 "[]" 7]
  by (simp add: session_ended_def cache_until_def demo_world_def initial_world_def demo_defs find_session_def
      mark_rotated_def inserted_row_def)

lemma demo_family_revoked: "fst (revoke_family 2 demo_world) = Inr ()"
  by code_simp

lemma demo_family_kept: "map s_id (sessions (tables (snd (revoke_family 2 demo_world)))) = [2, 4]"
  by code_simp

lemma demo_family_of: "find_session 2 (tables demo_world) = Some (mark_rotated 10 4 demo_first)"
  by (simp add: demo_world_def initial_world_def demo_defs find_session_def)

theorem family_revocation_reaches_tokens_witness:
  "\<exists>x \<in> set (sessions (tables (snd (revoke_family 2 demo_world)))).
     s_id x = 4 \<and> session_ended 4 (tables (snd (revoke_family 2 demo_world))) \<and>
     cache_until 4 0 (redis (snd (revoke_family 2 demo_world)))"
proof -
  let ?w' = "snd (revoke_family 2 demo_world)"
  have run: "revoke_family 2 demo_world = (Inr (), ?w')"
    using demo_family_revoked by (metis prod.collapse)
  have fam: "list_all (\<lambda>x. s_session_family_id x = 3) (sessions (tables ?w'))"
    by code_simp
  have "4 \<in> set (map s_id (sessions (tables ?w')))"
    unfolding demo_family_kept by simp
  then obtain x where x: "x \<in> set (sessions (tables ?w'))" "s_id x = 4"
    unfolding set_map by (elim imageE) simp
  then have "s_session_family_id x = s_session_family_id (mark_rotated 10 4 demo_first)"
    using fam by (simp add: list_all_iff demo_defs mark_rotated_def inserted_row_def)
  then show ?thesis
    using family_revocation_reaches_tokens [OF demo_world_ok demo_family_of run x(1), of 0] x
    by (intro bexI [of _ x]) (simp_all add: demo_world_def initial_world_def)
qed

end
