(* ===== verification/Reauth.thy ===== *)
theory Reauth
  imports Tokens
begin

text \<open>
  Re-authentication for sensitive actions: the password check of a signed-in
  session with its two budgets (\<^verbatim>\<open>verify_password\<close> of
  \<^verbatim>\<open>services/user.rs\<close>) and the short-lived proof it leaves
  (\<^verbatim>\<open>services/reauth.rs\<close>).
\<close>

section \<open>Checking the password of a session\<close>

definition REAUTH_FAIL_TTL_SECS :: int where
  "REAUTH_FAIL_TTL_SECS = 3600"

definition REAUTH_ACCOUNT_CEILING_FACTOR :: int where
  "REAUTH_ACCOUNT_CEILING_FACTOR = 3"

definition reauth_fail_key :: "uuid \<Rightarrow> rkey" where
  "reauth_fail_key user_id = ReauthFail user_id"

definition session_reauth_fail_key :: "uuid \<Rightarrow> uuid \<Rightarrow> rkey" where
  "session_reauth_fail_key user_id session_id = SessionReauthFail user_id session_id"

definition reauth_threshold :: "app_state \<Rightarrow> int" where
  "reauth_threshold st = uint (lockout_threshold st)"

definition reauth_budgets :: "app_state \<Rightarrow> uuid \<Rightarrow> uuid \<Rightarrow> budget list" where
  "reauth_budgets st user_id session_id =
     [\<lparr>b_key = session_reauth_fail_key user_id session_id, b_limit = reauth_threshold st,
       b_window_secs = REAUTH_FAIL_TTL_SECS\<rparr>,
      \<lparr>b_key = reauth_fail_key user_id, b_limit = reauth_threshold st * REAUTH_ACCOUNT_CEILING_FACTOR,
       b_window_secs = REAUTH_FAIL_TTL_SECS\<rparr>]"

definition verify_password :: "app_state \<Rightarrow> uuid \<Rightarrow> uuid \<Rightarrow> string \<Rightarrow> (app_error, unit) svc" where
  "verify_password st user_id session_id password =
     bnd (map_err internal (user_find_by_id Pool user_id)) (\<lambda>found.
     bnd (ok_or NotFound found) (\<lambda>user.
     bnd (consume_in_order (reauth_budgets st user_id session_id)) (\<lambda>att.
     if exceeded att then throw AccountLocked
     else bnd (map_err internal (of_sum (verify_async st password (u_password_hash user)))) (\<lambda>valid.
     if \<not> valid then
       (if reauth_threshold st \<le> counts att ! 0 then throw AccountLocked else throw ReauthenticationFailed)
     else reset [session_reauth_fail_key user_id session_id, reauth_fail_key user_id]))))"

section \<open>The proof of a recent re-authentication\<close>

definition mark_recent_reauth :: "app_state \<Rightarrow> uuid \<Rightarrow> ('e, unit) svc" where
  "mark_recent_reauth st session_id =
     (let ttl = sensitive_action_reauth_secs st in
      if ttl = 0 then ret ()
      else bnd (attempt redis_conn) (\<lambda>conn.
        case conn of
          Inl _ \<Rightarrow> ret ()
        | Inr _ \<Rightarrow>
            bnd clock_now (\<lambda>now.
            ignore (redis_cmd (\<lambda>t r. ((), rset_ex t (Reauth session_id) (RInt (unix_timestamp now)) (uint ttl) r))))))"

definition clear_recent_reauth :: "uuid \<Rightarrow> ('e, unit) svc" where
  "clear_recent_reauth session_id = redis_best_effort (\<lambda>now r. snd (rdel now (Reauth session_id) r))"

definition reauth_proven_at :: "uuid \<Rightarrow> ('e, int option) svc" where
  "reauth_proven_at session_id =
     bnd (attempt redis_conn) (\<lambda>conn.
     case conn of
       Inl _ \<Rightarrow> ret None
     | Inr _ \<Rightarrow>
         bnd (attempt (redis_cmd (\<lambda>now r. (rget now r (Reauth session_id), r)))) (\<lambda>value.
         ret (case value of Inr (Some (RInt n)) \<Rightarrow> Some n | _ \<Rightarrow> None)))"

definition has_recent_reauth :: "uuid \<Rightarrow> ('e, bool) svc" where
  "has_recent_reauth session_id =
     bnd (attempt redis_conn) (\<lambda>conn.
     case conn of
       Inl _ \<Rightarrow> ret False
     | Inr _ \<Rightarrow>
         bnd (attempt (redis_cmd (\<lambda>now r. (rexists now r (Reauth session_id), r)))) (\<lambda>found.
         ret (case found of Inr b \<Rightarrow> b | Inl _ \<Rightarrow> False)))"

definition record_reauth_event ::
  "uuid \<Rightarrow> ipnetwork option \<Rightarrow> uuid option \<Rightarrow> string \<Rightarrow> (app_error, unit) svc" where
  "record_reauth_event user_id ip request_id reason =
     map_err internal (audit_append Pool (Some user_id) request_id Reauthenticated ip (JObj [(''reason'', JStr reason)]))"

definition reauthenticate ::
  "app_state \<Rightarrow> uuid \<Rightarrow> uuid \<Rightarrow> string \<Rightarrow> ipnetwork option \<Rightarrow> uuid option \<Rightarrow> string \<Rightarrow> (app_error, unit) svc" where
  "reauthenticate st user_id session_id current_password ip request_id reason =
     seq (verify_password st user_id session_id current_password)
     (seq (record_reauth_event user_id ip request_id reason)
     (mark_recent_reauth st session_id))"

definition require_recent_reauth_or_password ::
  "app_state \<Rightarrow> uuid \<Rightarrow> uuid \<Rightarrow> string option \<Rightarrow> ipnetwork option \<Rightarrow> uuid option \<Rightarrow> string \<Rightarrow> (app_error, unit) svc" where
  "require_recent_reauth_or_password st user_id session_id current_password ip request_id reason =
     (case current_password of
        Some pw \<Rightarrow> reauthenticate st user_id session_id pw ip request_id reason
      | None \<Rightarrow>
          bnd (has_recent_reauth session_id) (\<lambda>recent.
          if recent then ret () else throw ReauthenticationRequired))"

section \<open>Frames\<close>

lemma keeps_reauth_calls [frame_intros]:
  "keeps same_db (verify_password st u sid pw)"
  "keeps same_db (mark_recent_reauth st sid)"
  "keeps same_db (clear_recent_reauth sid)"
  "keeps same_db (reauth_proven_at sid)"
  "keeps same_db (has_recent_reauth sid)"
  unfolding verify_password_def mark_recent_reauth_def clear_recent_reauth_def reauth_proven_at_def has_recent_reauth_def
  by (auto intro!: sd.keeps_intros frame_intros)

lemma require_reauth_other:
  "keeps (same_of sessions) (require_recent_reauth_or_password st u sid pw ip req reason)"
  unfolding require_recent_reauth_or_password_def reauthenticate_def record_reauth_event_def
  by (auto intro!: so.keeps_intros frame_intros [THEN so.keeps_same_db] keeps_other_writes split: option.split)

section \<open>A sensitive action needs the password or a live proof\<close>

definition password_matches :: "app_state \<Rightarrow> uuid \<Rightarrow> string \<Rightarrow> tables \<Rightarrow> bool" where
  "password_matches st u pw t \<longleftrightarrow>
     (case find_user u t of None \<Rightarrow> False | Some user \<Rightarrow> verify_async st pw (u_password_hash user) = Inr True)"

lemma reauth_budgets_nonempty [simp]: "reauth_budgets st u sid \<noteq> []"
  by (simp add: reauth_budgets_def)

lemma verify_password_ok:
  "wp (verify_password st u sid pw) (\<lambda>_ _. password_matches st u pw (tables w)) (\<lambda>_ _. True) w"
  by (auto simp: verify_password_def wp_simps reset_def password_matches_def Let_def
      split: option.split outcome.split sum.split)

definition audited :: "audit_action \<Rightarrow> uuid \<Rightarrow> tables \<Rightarrow> bool" where
  "audited action u t \<longleftrightarrow> list_ex (\<lambda>e. au_action e = action \<and> au_user_id e = Some u) (audit_log t)"



lemma reauth_audited:
  "wp (seq (record_reauth_event u ip req reason) (mark_recent_reauth st sid))
    (\<lambda>_ w'. audited Reauthenticated u (tables w')) (\<lambda>_ _. True) w"
proof -
  have "wp (record_reauth_event u ip req reason) (\<lambda>_ w'. audited Reauthenticated u (tables w')) (\<lambda>_ _. True) w"
    by (auto simp: record_reauth_event_def audit_append_def checked_def audited_def wp_simps wp_db_stmt
        split: outcome.split)
  then show ?thesis
    unfolding wp_seq by (rule wp_mono) (auto simp: same_db_def intro!: keeps_wp [OF keeps_reauth_calls(2)])
qed

text \<open>The session's proof of the password is in Redis and has not run out at \<open>now\<close>.\<close>

definition reauth_live :: "instant \<Rightarrow> uuid \<Rightarrow> rstore \<Rightarrow> bool" where
  "reauth_live now sid r \<longleftrightarrow> rexists now r (Reauth sid)"

text \<open>C8: A sensitive action is let through only on proof of the password. With a password
  given it is the account's and the proof is in the audit log; without one, the session holds
  a proof in Redis that has not run out. Whatever fails on the way, nothing else is let
  through.\<close>

theorem sensitive_action_needs_proof:
  assumes "require_recent_reauth_or_password st u sid pw ip req reason w = (Inr (), w')"
  shows "case pw of
      Some p \<Rightarrow> password_matches st u p (tables w) \<and> audited Reauthenticated u (tables w')
    | None \<Rightarrow> \<exists>now \<ge> real_now w. reauth_live now sid (redis w)"
proof -
  have "wp (require_recent_reauth_or_password st u sid pw ip req reason)
    (\<lambda>_ w'. case pw of
      Some p \<Rightarrow> password_matches st u p (tables w) \<and> audited Reauthenticated u (tables w')
    | None \<Rightarrow> \<exists>now \<ge> real_now w. reauth_live now sid (redis w)) (\<lambda>_ _. True) w"
  proof (cases pw)
    case None
    have "real_now w \<le> real_now (tick (tick w))"
      using tick_real_now order_trans by blast
    then show ?thesis
      using None by (auto simp: require_recent_reauth_or_password_def has_recent_reauth_def wp_simps reauth_live_def
          split: outcome.split)
  next
    case (Some p)
    have "wp (verify_password st u sid p) (\<lambda>_. wp (seq (record_reauth_event u ip req reason) (mark_recent_reauth st sid))
        (\<lambda>_ w'. password_matches st u p (tables w) \<and> audited Reauthenticated u (tables w')) (\<lambda>_ _. True)) (\<lambda>_ _. True) w"
      by (rule wp_mono [OF verify_password_ok]) (auto intro: wp_mono [OF reauth_audited])
    then show ?thesis
      using Some by (simp add: require_recent_reauth_or_password_def reauthenticate_def wp_seq)
  qed
  then show ?thesis
    using assms by (rule wp_ok)
qed

section \<open>A session that guesses locks itself out\<close>

text \<open>The budget of the session is used up, until \<open>d\<close>.\<close>

definition exhausted :: "app_state \<Rightarrow> uuid \<Rightarrow> uuid \<Rightarrow> instant \<Rightarrow> rstore \<Rightarrow> bool" where
  "exhausted st u sid d r \<longleftrightarrow>
     (case r (SessionReauthFail u sid) of
        Some (RInt n, Some d') \<Rightarrow> d' = d \<and> 1 \<le> n \<and> reauth_threshold st \<le> n
      | _ \<Rightarrow> False)"

definition reauth_call :: "app_state \<Rightarrow> uuid \<times> uuid \<times> string \<Rightarrow> (app_error, unit) svc" where
  "reauth_call st c = verify_password st (fst c) (fst (snd c)) (snd (snd c))"

lemma exhausted_iff:
  "exhausted st u sid d r \<longleftrightarrow>
     (\<exists>n. r (SessionReauthFail u sid) = Some (RInt n, Some d) \<and> 1 \<le> n \<and> reauth_threshold st \<le> n)"
  by (auto simp: exhausted_def split: option.splits prod.splits rval.splits)

lemma exhausted_armed:
  assumes "exhausted st u sid d r" "now < d"
  shows "armed now r (SessionReauthFail u sid) d" "reauth_threshold st \<le> live_count now r (SessionReauthFail u sid)"
  using assms by (auto simp: exhausted_iff armed_def live_count_def rget_def as_int_def)

lemma exhausted_consume:
  assumes "exhausted st u sid d r" "now < d"
  shows "consume_in_order_script now (reauth_budgets st u sid) r =
    ((True, [live_count now r (SessionReauthFail u sid) + 1, 0]),
     r(SessionReauthFail u sid := Some (RInt (live_count now r (SessionReauthFail u sid) + 1), Some d)))"
  using hit_armed [of now r "hd (reauth_budgets st u sid)" d] exhausted_armed [OF assms]
  by (simp add: reauth_budgets_def session_reauth_fail_key_def Let_def)

lemma exhausted_other_session:
  assumes "exhausted st u sid d r" "(u', sid') \<noteq> (u, sid)"
    and "consume_in_order_script now (reauth_budgets st u' sid') r = (res, r')"
  shows "exhausted st u sid d r'"
proof -
  have "r' (SessionReauthFail u sid) = r (SessionReauthFail u sid)"
    using assms(2) by (intro consume_in_order_other [OF _ assms(3)]) (auto simp: reauth_budgets_def session_reauth_fail_key_def reauth_fail_key_def)
  then show ?thesis
    using assms(1) by (simp add: exhausted_def)
qed

lemma exhausted_reset:
  assumes "exhausted st u sid d r" "(u', sid') \<noteq> (u, sid)"
  shows "exhausted st u sid d (rdel_all [session_reauth_fail_key u' sid', reauth_fail_key u'] r)"
  using assms by (auto simp: exhausted_def session_reauth_fail_key_def reauth_fail_key_def)

text \<open>The budget stays used up until \<open>d\<close>, and until then an attempt of the session ends at the
  budget.\<close>

definition shut :: "app_state \<Rightarrow> uuid \<Rightarrow> uuid \<Rightarrow> instant \<Rightarrow> world \<Rightarrow> bool" where
  "shut st u sid d w \<longleftrightarrow> exhausted st u sid d (redis w) \<or> d \<le> real_now w"

lemma shut_later: "shut st u sid d w \<Longrightarrow> redis w' = redis w \<Longrightarrow> real_now w \<le> real_now w' \<Longrightarrow> shut st u sid d w'"
  by (auto simp: shut_def)

lemma shut_consume:
  assumes "shut st u sid d w"
  shows "wp (consume_in_order (reauth_budgets st u' sid'))
    (\<lambda>att w'. shut st u sid d w' \<and> ((u', sid') = (u, sid) \<longrightarrow> exceeded att \<or> d \<le> real_now w'))
    (\<lambda>_ w'. shut st u sid d w') w"
proof -
  let ?w = "tick (tick w)"
  let ?r = "consume_in_order_script (real_now ?w) (reauth_budgets st u' sid') (redis w)"
  have time: "real_now w \<le> real_now (tick w)" "real_now w \<le> real_now ?w"
    using tick_real_now order_trans by blast+
  have kept: "shut st u sid d (tick w)" "shut st u sid d ?w"
    by (rule shut_later [OF assms]; use time in simp)+
  have after: "(exhausted st u sid d (snd ?r) \<and> ((u', sid') = (u, sid) \<longrightarrow> fst (fst ?r))) \<or> d \<le> real_now ?w"
  proof (cases "exhausted st u sid d (redis w) \<and> real_now ?w < d")
    case True
    show ?thesis
    proof (cases "(u', sid') = (u, sid)")
      case True
      then show ?thesis
        using exhausted_consume [of st u sid d "redis w" "real_now ?w"] exhausted_armed [of st u sid d "redis w" "real_now ?w"]
          \<open>exhausted st u sid d (redis w) \<and> real_now ?w < d\<close>
        by (auto simp: exhausted_iff armed_def live_count_def rget_def as_int_def)
    next
      case False
      then show ?thesis
        using exhausted_other_session [of st u sid d "redis w" u' sid' "real_now ?w" "fst ?r" "snd ?r"] True by auto
    qed
  qed (use kept(2) in \<open>auto simp: shut_def\<close>)
  then show ?thesis
    using kept by (auto simp: wp_simps Let_def shut_def split: outcome.split)
qed


lemma shut_reset:
  assumes "shut st u sid d w" "(u', sid') \<noteq> (u, sid) \<or> d \<le> real_now w"
  shows "wp (reset [session_reauth_fail_key u' sid', reauth_fail_key u']) (\<lambda>_. shut st u sid d) E w"
proof -
  have time: "real_now w \<le> real_now (tick w)" "real_now w \<le> real_now (tick (tick w))"
    using tick_real_now order_trans by blast+
  have kept: "shut st u sid d (tick w)" "shut st u sid d (tick (tick w))"
    by (rule shut_later [OF assms(1)]; use time in simp)+
  have "shut st u sid d ((tick (tick w))\<lparr>redis := rdel_all [session_reauth_fail_key u' sid', reauth_fail_key u'] (redis w)\<rparr>)"
    using assms kept(2) time(2) exhausted_reset [of st u sid d "redis w" u' sid'] by (auto simp: shut_def)
  then show ?thesis
    using kept by (auto simp: reset_def wp_simps simp del: rdel_all.simps split: outcome.split)
qed

lemma shut_verify:
  assumes "shut st u sid d w"
  shows "wp (verify_password st u' sid' pw) (\<lambda>_. shut st u sid d) (\<lambda>_. shut st u sid d) w"
proof -
  have tick: "shut st u sid d (tick w)"
    by (rule shut_later [OF assms]) simp_all
  have rest: "wp (if exceeded att then throw AccountLocked
     else bnd (map_err internal (of_sum (verify_async st pw h))) (\<lambda>valid.
     if \<not> valid then
       (if reauth_threshold st \<le> counts att ! 0 then throw AccountLocked else throw ReauthenticationFailed)
     else reset [session_reauth_fail_key u' sid', reauth_fail_key u'])) (\<lambda>_. shut st u sid d) (\<lambda>_. shut st u sid d) w'"
    if "shut st u sid d w' \<and> ((u', sid') = (u, sid) \<longrightarrow> exceeded att \<or> d \<le> real_now w')" for att h w'
    using that shut_reset [of st u sid d w' u' sid'] by (auto simp: wp_simps split: sum.split)
  show ?thesis
    unfolding verify_password_def
    by (auto simp: wp_bnd wp_map_err wp_user_find_by_id wp_ok_or tick split: option.split
        intro!: wp_mono [OF shut_consume [OF tick]] rest)
qed

lemma exhausted_consume_wp:
  assumes "exhausted st u sid d (redis w)"
  shows "wp (consume_in_order (reauth_budgets st u sid))
    (\<lambda>att w'. d \<le> real_now w' \<or> exceeded att \<and> redis w' (ReauthFail u) = redis w (ReauthFail u))
    (\<lambda>e w'. e \<noteq> ReauthenticationFailed \<and> (d \<le> real_now w' \<or> redis w' (ReauthFail u) = redis w (ReauthFail u))) w"
  using exhausted_consume [OF assms, of "real_now (tick (tick w))"]
  by (cases "real_now (tick (tick w)) < d") (auto simp: wp_simps Let_def split: outcome.split)

lemma exhausted_verify:
  assumes "exhausted st u sid d (redis w)" "real_now (snd (verify_password st u sid pw w)) < d"
  shows "verify_password st u sid pw' w = verify_password st u sid pw w \<and>
    (\<exists>e. fst (verify_password st u sid pw w) = Inl e \<and> e \<noteq> ReauthenticationFailed) \<and>
    redis (snd (verify_password st u sid pw w)) (ReauthFail u) = redis w (ReauthFail u)"
proof (cases "next_outcome w = Done")
  case False
  then show ?thesis
    by (simp add: verify_password_def user_find_by_id_def db_read_def db_stmt_def bnd_def map_err_def internal_def Let_def
        split: outcome.split)
next
  case True
  then have found: "user_find_by_id Pool u w = (Inr (find_user u (tables w)), tick w)"
    by (simp add: user_find_by_id_def db_read_def db_stmt_def Let_def)
  obtain res w2 where run: "consume_in_order (reauth_budgets st u sid) (tick w) = (res, w2)"
    by fastforce
  show ?thesis
  proof (cases "find_user u (tables w)")
    case None
    then show ?thesis
      using found by (simp add: verify_password_def bnd_def map_err_def ok_or_def throw_def)
  next
    case (Some user)
    define rest where "rest p att = (if exceeded att then throw AccountLocked
     else bnd (map_err internal (of_sum (verify_async st p (u_password_hash user)))) (\<lambda>valid.
     if \<not> valid then
       (if reauth_threshold st \<le> counts att ! 0 then throw AccountLocked else throw ReauthenticationFailed)
     else reset [session_reauth_fail_key u sid, reauth_fail_key u]))" for p and att :: consumed
    have eq: "verify_password st u sid p w = (case res of Inl e \<Rightarrow> (Inl e, w2) | Inr att \<Rightarrow> rest p att w2)" for p
      using found run Some
      by (simp add: verify_password_def bnd_def map_err_def ok_or_def ret_def rest_def split: sum.split)
    have "keeps later (rest p att)" for p att
      unfolding rest_def by (auto intro!: lt.keeps_intros frame_intros [THEN lt.keeps_same_db])
    then have "later w2 (snd (rest p att w2))" for p att
      by (rule keepsD)
    then have "real_now w2 \<le> real_now (snd (verify_password st u sid pw w))"
      unfolding eq by (auto simp: later_def split: sum.split)
    then have "real_now w2 < d"
      using assms(2) by simp
    moreover have "exhausted st u sid d (redis (tick w))"
      using assms(1) by simp
    ultimately show ?thesis
      using wp_ok [OF exhausted_consume_wp, of st u sid d "tick w"] wp_err [OF exhausted_consume_wp, of st u sid d "tick w"] run
      unfolding eq by (cases res) (auto simp: rest_def throw_def)
  qed
qed

text \<open>C29: A session that guesses passwords locks itself out, and only itself. Once its own
  budget is used up, then for as long as that window lasts, after any sequence of attempts by any
  sessions with any passwords, an attempt of that session is refused in the same way whatever
  password it submits, so it learns nothing, and the budget of the account is not charged.\<close>

theorem locked_session_stays_locked:
  assumes "exhausted st u sid d (redis w)"
    and "real_now (snd (verify_password st u sid pw (snd (history (reauth_call st) calls w)))) < d"
  shows "\<exists>e w'. e \<noteq> ReauthenticationFailed \<and>
    (\<forall>pw'. verify_password st u sid pw' (snd (history (reauth_call st) calls w)) = (Inl e, w')) \<and>
    redis w' (ReauthFail u) = redis (snd (history (reauth_call st) calls w)) (ReauthFail u)"
proof -
  let ?w = "snd (history (reauth_call st) calls w)"
  have "shut st u sid d ?w"
  proof (rule history_invariant)
    show "shut st u sid d w"
      using assms(1) by (simp add: shut_def)
    show "shut st u sid d (snd (reauth_call st c v))" if "shut st u sid d v" for c v
      using shut_verify [OF that, of "fst c" "fst (snd c)" "snd (snd c)"]
      by (auto simp: reauth_call_def wp_def split: prod.splits sum.splits)
  qed
  moreover have "real_now ?w \<le> real_now (snd (verify_password st u sid pw ?w))"
    using keepsD [OF keeps_reauth_calls(1), of ?w st u sid pw] by (simp add: same_db_def later_def)
  ultimately have "exhausted st u sid d (redis ?w)"
    using assms(2) by (simp add: shut_def)
  note locked = exhausted_verify [OF this assms(2)]
  then show ?thesis
    by (metis prod.collapse)
qed

section \<open>Witnesses\<close>

definition demo_reauth_world :: world where
  "demo_reauth_world = (initial_world demo_tables)
     \<lparr>redis := (\<lambda>_. None)(Reauth 2 := Some (RInt 0, Some 900000000000),
        SessionReauthFail 1 2 := Some (RInt (uint (lockout_threshold demo_state)), Some 900000000000))\<rparr>"

theorem sensitive_action_needs_proof_witness:
  "\<exists>now \<ge> 0. reauth_live now 2 (redis demo_reauth_world)"
proof -
  have "require_recent_reauth_or_password demo_state 1 2 None None None ''revoke'' demo_reauth_world =
      (Inr (), demo_reauth_world)"
    by (simp add: require_recent_reauth_or_password_def has_recent_reauth_def bnd_def attempt_def redis_conn_def
        redis_cmd_def ret_def demo_reauth_world_def initial_world_def rexists_def rget_def Let_def)
  from sensitive_action_needs_proof [OF this] show ?thesis
    by (simp add: demo_reauth_world_def initial_world_def)
qed

theorem locked_session_stays_locked_witness:
  "\<exists>e w'. e \<noteq> ReauthenticationFailed \<and>
     (\<forall>pw'. verify_password demo_state 1 2 pw' (snd (history (reauth_call demo_state) [(1, 3, ''x'')] demo_reauth_world)) = (Inl e, w')) \<and>
     redis w' (ReauthFail 1) = redis (snd (history (reauth_call demo_state) [(1, 3, ''x'')] demo_reauth_world)) (ReauthFail 1)"
proof (rule locked_session_stays_locked [of _ _ _ 900000000000])
  have idle: "real_now (snd (verify_password demo_state u s pw w)) = real_now w \<and>
      sched (snd (verify_password demo_state u s pw w)) = []" if "sched w = []" for u s pw w
    using that
    by (auto simp: verify_password_def user_find_by_id_def db_read_def db_stmt_def bnd_def map_err_def ok_or_def of_sum_def
        throw_def ret_def consume_in_order_def run_script_def seq_def redis_conn_def redis_cmd_def reset_def attempt_def
        ignore_def Let_def split: option.split sum.split prod.split)
  show "exhausted demo_state 1 2 900000000000 (redis demo_reauth_world)"
    by (simp add: exhausted_def demo_reauth_world_def reauth_threshold_def demo_state_def)
  show "real_now (snd (verify_password demo_state 1 2 ''guess''
      (snd (history (reauth_call demo_state) [(1, 3, ''x'')] demo_reauth_world)))) < 900000000000"
    using idle by (simp add: reauth_call_def case_prod_beta demo_reauth_world_def initial_world_def)
qed

end
