(* ===== verification/Guards.thy ===== *)
theory Guards
  imports Reauth
begin

text \<open>
  The abuse guards the sign-in flows share (\<^verbatim>\<open>services/auth/guards.rs\<close>): attempt
  budgets that fail closed or open, the record of a failure, the check of an
  account's status and of a one-time token. The constants are those of
  \<^verbatim>\<open>services/auth/mod.rs\<close>.
\<close>

section \<open>Constants\<close>

definition MAX_FAILURES_BY_IDENTIFIER :: int where "MAX_FAILURES_BY_IDENTIFIER = 10"
definition MAX_FAILURES_BY_IP :: int where "MAX_FAILURES_BY_IP = 30"
definition BRUTE_FORCE_WINDOW_SECS :: int where "BRUTE_FORCE_WINDOW_SECS = 900"
definition MAX_OPEN_CHALLENGES :: nat where "MAX_OPEN_CHALLENGES = 5"
definition CS_WINDOW_SECS :: int where "CS_WINDOW_SECS = 300"
definition CS_MAX_DISTINCT_IDENTIFIERS :: int where "CS_MAX_DISTINCT_IDENTIFIERS = 50"
definition MAX_REFRESH_FAILURES_BY_IP :: int where "MAX_REFRESH_FAILURES_BY_IP = 20"
definition REFRESH_FAILURE_WINDOW_SECS :: int where "REFRESH_FAILURE_WINDOW_SECS = 900"
definition REFRESH_REUSE_GRACE :: duration where "REFRESH_REUSE_GRACE = seconds 1"
definition PRE_AUTH_TTL_SECS :: int where "PRE_AUTH_TTL_SECS = 300"
definition MAX_TOTP_FAILURES :: int where "MAX_TOTP_FAILURES = 5"
definition MAX_TOTP_FAILURES_BY_USER :: int where "MAX_TOTP_FAILURES_BY_USER = 10"
definition TOTP_USER_FAIL_PREFIX :: string where "TOTP_USER_FAIL_PREFIX = ''totp_user_fail:''"
definition EMAIL_2FA_USER_FAIL_PREFIX :: string where "EMAIL_2FA_USER_FAIL_PREFIX = ''email2fa_user_fail:''"
definition SECOND_FACTOR_ACCOUNT_FACTOR :: int where "SECOND_FACTOR_ACCOUNT_FACTOR = 3"
definition MAX_EMAIL_RESENDS_PER_CHALLENGE :: int where "MAX_EMAIL_RESENDS_PER_CHALLENGE = 2"
definition MAX_EMAIL_RESENDS_PER_ACCOUNT :: int where "MAX_EMAIL_RESENDS_PER_ACCOUNT = 10"
definition SECOND_FACTOR_USER_WINDOW_SECS :: int where "SECOND_FACTOR_USER_WINDOW_SECS = 3600"
definition MAX_RECOVERY_FAILURES :: int where "MAX_RECOVERY_FAILURES = 5"
definition MAX_RECOVERY_FAILURES_BY_USER :: int where "MAX_RECOVERY_FAILURES_BY_USER = 5"
definition RECOVERY_FAILURE_USER_WINDOW_SECS :: int where "RECOVERY_FAILURE_USER_WINDOW_SECS = 3600"
definition RC_USER_FAIL_PREFIX :: string where "RC_USER_FAIL_PREFIX = ''rc_user_fail:''"
definition MAX_TOKEN_SUBMIT_BY_IP :: int where "MAX_TOKEN_SUBMIT_BY_IP = 10"
definition MAX_TOKEN_SUBMIT_BY_HASH :: int where "MAX_TOKEN_SUBMIT_BY_HASH = 3"
definition TOKEN_SUBMIT_WINDOW_SECS :: int where "TOKEN_SUBMIT_WINDOW_SECS = 3600"
definition MAX_MAILBOX_LINKS_BY_ACCOUNT_AND_IP :: int where "MAX_MAILBOX_LINKS_BY_ACCOUNT_AND_IP = 3"
definition MAX_MAILBOX_LINKS_BY_ACCOUNT :: int where "MAX_MAILBOX_LINKS_BY_ACCOUNT = 10"
definition ONE_TIME_TOKEN_MIN_DURATION :: duration where "ONE_TIME_TOKEN_MIN_DURATION = 100000000"

section \<open>The account\<close>

definition ensure_status_allows_sign_in :: "user \<Rightarrow> (app_error, unit) svc" where
  "ensure_status_allows_sign_in user =
     (case u_status user of
        UserActive \<Rightarrow> ret ()
      | Suspended \<Rightarrow> throw AccountSuspended
      | Inactive \<Rightarrow> throw AccountInactive
      | PendingVerification \<Rightarrow> throw EmailNotVerified)"

definition ensure_account_usable :: "user \<Rightarrow> (app_error, unit) svc" where
  "ensure_account_usable user = ensure_status_allows_sign_in user"

section \<open>Budgets that fail closed\<close>

definition redis_unavailable :: "redis_error \<Rightarrow> app_error" where
  "redis_unavailable e = ServiceUnavailable ''redis_unavailable''"

definition challenge_id :: "app_state \<Rightarrow> string \<Rightarrow> string" where
  "challenge_id st pre_auth_token = token_id st pre_auth_token"

definition budget_email_resend :: "app_state \<Rightarrow> string \<Rightarrow> uuid \<Rightarrow> (app_error, unit) svc" where
  "budget_email_resend st pre_auth_token user_id =
     bnd (consume
       [\<lparr>b_key = Email2faResend (challenge_id st pre_auth_token), b_limit = MAX_EMAIL_RESENDS_PER_CHALLENGE,
         b_window_secs = PRE_AUTH_TTL_SECS\<rparr>,
        \<lparr>b_key = Email2faResendUser user_id, b_limit = MAX_EMAIL_RESENDS_PER_ACCOUNT,
         b_window_secs = SECOND_FACTOR_USER_WINDOW_SECS\<rparr>]) (\<lambda>att.
     if exceeded att then throw RateLimitExceeded
     else bnd (map_err internal (user_find_by_id Pool user_id)) (\<lambda>found.
       bnd (ok_or TokenInvalid found) ensure_account_usable))"

definition second_factor_budget_keys :: "string \<Rightarrow> uuid \<Rightarrow> ipnetwork option \<Rightarrow> int \<Rightarrow> (rkey \<times> int) list" where
  "second_factor_budget_keys prefix user_id ip limit =
     (UserFail prefix user_id, limit * SECOND_FACTOR_ACCOUNT_FACTOR) #
     (case ip of None \<Rightarrow> [] | Some ip \<Rightarrow> [(UserFailIp prefix user_id (ip_bucket (net_ip ip)), limit)])"

definition account_budget_exceeded :: "int list \<Rightarrow> int \<Rightarrow> bool" where
  "account_budget_exceeded ns account_limit \<longleftrightarrow>
     (case ns of _ # count # _ \<Rightarrow> account_limit < count | _ \<Rightarrow> False)"

definition guard_token_submission :: "string \<Rightarrow> ipnetwork option \<Rightarrow> bytes \<Rightarrow> (app_error, unit) svc" where
  "guard_token_submission kind ip token_hash =
     bnd (consume
       (\<lparr>b_key = TokenSubmit kind token_hash, b_limit = MAX_TOKEN_SUBMIT_BY_HASH,
         b_window_secs = TOKEN_SUBMIT_WINDOW_SECS\<rparr> #
        (case ip of
           None \<Rightarrow> []
         | Some ip \<Rightarrow> [\<lparr>b_key = TokenSubmitIp kind (ip_bucket (net_ip ip)), b_limit = MAX_TOKEN_SUBMIT_BY_IP,
             b_window_secs = TOKEN_SUBMIT_WINDOW_SECS\<rparr>]))) (\<lambda>att.
     if exceeded att then throw RateLimitExceeded else ret ())"

definition notify_second_factor_pressure :: "uuid \<Rightarrow> ('e, unit) svc" where
  "notify_second_factor_pressure user_id =
     bnd (claim_cooldown (PressureNotice user_id) SECOND_FACTOR_USER_WINDOW_SECS) (\<lambda>claimed.
     if \<not> claimed then ret ()
     else bnd (attempt (user_find_by_id Pool user_id)) (\<lambda>found.
       case found of
         Inr (Some user) \<Rightarrow>
           send_mail \<lparr>m_kind = ''second_factor_attempts'', m_to = u_email user,
             m_args = [AStr (u_username user), AStr (u_preferred_locale user)]\<rparr>
       | _ \<Rightarrow> ret ()))"

section \<open>Budgets that fail open\<close>

definition budget_exhausted :: "rkey \<Rightarrow> int \<Rightarrow> int \<Rightarrow> ('e, bool) svc" where
  "budget_exhausted key limit window_secs =
     bnd (attempt (consume [\<lparr>b_key = key, b_limit = limit, b_window_secs = window_secs\<rparr>])) (\<lambda>res.
     ret (case res of Inr att \<Rightarrow> exceeded att | Inl _ \<Rightarrow> False))"

definition mailbox_budget_exhausted :: "string \<Rightarrow> uuid \<Rightarrow> ipnetwork option \<Rightarrow> int \<Rightarrow> ('e, bool) svc" where
  "mailbox_budget_exhausted prefix user_id ip window_secs =
     bnd (case ip of
            None \<Rightarrow> ret False
          | Some ip \<Rightarrow> budget_exhausted (MailboxBudgetIp prefix user_id (ip_bucket (net_ip ip)))
              MAX_MAILBOX_LINKS_BY_ACCOUNT_AND_IP window_secs) (\<lambda>over.
     if over then ret True
     else budget_exhausted (MailboxBudget prefix user_id) MAX_MAILBOX_LINKS_BY_ACCOUNT window_secs)"

text \<open>\<^verbatim>\<open>PFADD\<close>, \<^verbatim>\<open>PFCOUNT\<close> on the set of the values added.\<close>

definition rpfadd :: "instant \<Rightarrow> rkey \<Rightarrow> string \<Rightarrow> rstore \<Rightarrow> rstore" where
  "rpfadd now k x r =
     (case rget now r k of
        None \<Rightarrow> r(k := Some (RHll [x], None))
      | Some (RHll xs) \<Rightarrow> r(k := Some (RHll (List.insert x xs), snd (the (r k))))
      | Some _ \<Rightarrow> r)"

definition rpfcount :: "app_state \<Rightarrow> instant \<Rightarrow> rkey \<Rightarrow> rstore \<Rightarrow> int" where
  "rpfcount st now k r = (case rget now r k of Some (RHll xs) \<Rightarrow> hll_estimate st xs | _ \<Rightarrow> 0)"

definition track_credential_stuffing :: "ipnetwork option \<Rightarrow> string \<Rightarrow> ('e, unit) svc" where
  "track_credential_stuffing ip identifier =
     (case ip of
        None \<Rightarrow> ret ()
      | Some ip \<Rightarrow>
          redis_best_effort (\<lambda>now r.
            let key = CsHll (ip_bucket (net_ip ip)) in rexpire now key CS_WINDOW_SECS (rpfadd now key identifier r)))"

section \<open>Failures\<close>

definition record_failure ::
  "uuid option \<Rightarrow> string \<Rightarrow> login_failure_reason \<Rightarrow> ipnetwork option \<Rightarrow> string option \<Rightarrow> ('e, unit) svc" where
  "record_failure user_id identifier reason ip user_agent =
     ignore (record_attempt Pool
       \<lparr>nl_user_id = user_id, nl_identifier = storable_identifier identifier, nl_successful = False,
        nl_failure_reason = Some reason, nl_request_ip = ip, nl_user_agent = user_agent\<rparr>)"

definition record_second_factor_failure ::
  "user \<Rightarrow> ipnetwork option \<Rightarrow> string option \<Rightarrow> uuid option \<Rightarrow> ('e, unit) svc" where
  "record_second_factor_failure user ip user_agent request_id =
     seq (record_failure (Some (u_id user)) (u_email user) FailedTwoFactor ip user_agent)
     (ignore (audit_append Pool (Some (u_id user)) request_id AuditTwoFactorFailed ip (JObj [])))"

section \<open>One-time tokens\<close>

definition check_one_time_token ::
  "('t \<Rightarrow> instant option) \<Rightarrow> ('t \<Rightarrow> instant) \<Rightarrow> (sql_error, 't option) svc \<Rightarrow> (app_error, 't) svc" where
  "check_one_time_token used_at expires_at lookup =
     bnd (gets real_now) (\<lambda>start.
     bnd (attempt
       (bnd (bnd (map_err internal lookup) (ok_or TokenInvalid)) (\<lambda>record.
        bnd clock_now (\<lambda>now.
        case token_verdict used_at expires_at record now of
          TokenIsValid \<Rightarrow> ret record
        | TokenIsExpired \<Rightarrow> throw TokenExpired
        | TokenIsUsed \<Rightarrow> throw TokenInvalid)))) (\<lambda>result.
     bnd (gets real_now) (\<lambda>stop.
     seq (when_do (stop - start \<le> ONE_TIME_TOKEN_MIN_DURATION)
            (modify (\<lambda>w. w\<lparr>real_now := real_now w + (ONE_TIME_TOKEN_MIN_DURATION - (stop - start))\<rparr>)))
     (of_sum result))))"

section \<open>Frames\<close>

lemma keeps_guards [frame_intros]:
  "keeps same_db (ensure_status_allows_sign_in u)"
  "keeps same_db (ensure_account_usable u)"
  "keeps same_db (budget_email_resend st tok i)"
  "keeps same_db (guard_token_submission kind ip h)"
  "keeps same_db (notify_second_factor_pressure i)"
  "keeps same_db (budget_exhausted k n secs)"
  "keeps same_db (mailbox_budget_exhausted prefix i ip secs)"
  "keeps same_db (track_credential_stuffing ip identifier)"
  unfolding ensure_account_usable_def ensure_status_allows_sign_in_def budget_email_resend_def guard_token_submission_def
    notify_second_factor_pressure_def mailbox_budget_exhausted_def budget_exhausted_def track_credential_stuffing_def Let_def
  by (auto intro!: sd.keeps_intros frame_intros split: user_status.split option.split sum.split)

lemma keeps_one_time_token [frame_intros]:
  assumes "keeps same_db lookup"
  shows "keeps same_db (check_one_time_token used_at expires_at lookup)"
proof -
  have pad: "keeps same_db (when_do (d \<le> m) (modify (\<lambda>w. w\<lparr>real_now := real_now w + (m - d)\<rparr>)))" for d m
    by (simp add: keeps_def when_do_def modify_def ret_def same_db_def later_def)
  show ?thesis
    unfolding check_one_time_token_def
    by (intro sd.keeps_bnd sd.keeps_seq sd.keeps_attempt pad)
      (auto intro!: sd.keeps_intros frame_intros assms split: token_verdict.split)
qed

lemma keeps_failures [session_frame]:
  "keeps (same_of sessions) (record_failure i identifier reason ip ua)"
  "keeps (same_of sessions) (record_second_factor_failure user ip ua req)"
  unfolding record_second_factor_failure_def record_failure_def
  by (auto intro!: so.keeps_intros keeps_other_writes)

section \<open>Calls that never fail\<close>

lemma throws_best_effort [throws_intros]:
  "throws S (blocklist_refresh_token h at)" "throws S (blocklist_jti jti expiry)"
  "throws S (invalidate_session_caches is)" "throws S (invalidate_session_cache i)"
  "throws S (mark_recent_reauth st sid)" "throws S (clear_recent_reauth sid)" "throws S (alert_new_device u family ip)"
  "throws S (apply_backoff n)" "throws S (reset ks)" "throws S (release ks)" "throws S (track_credential_stuffing ip identifier)"
  "throws S (record_failure who identifier reason ip ua)" "throws S (record_second_factor_failure user ip ua req)"
  "throws S (notify_second_factor_pressure u)"
  unfolding blocklist_refresh_token_def blocklist_jti_def invalidate_session_cache_def invalidate_session_caches_def
    mark_recent_reauth_def clear_recent_reauth_def alert_new_device_def apply_backoff_def reset_def release_def
    track_credential_stuffing_def record_second_factor_failure_def record_failure_def notify_second_factor_pressure_def
    claim_cooldown_def
  by (auto intro!: throws_intros split: option.split sum.split)

section \<open>A one-time token\<close>

lemma one_time_token_wp:
  "wp (check_one_time_token used_at expires_at (db_read Pool f))
    (\<lambda>r w'. real_now w + ONE_TIME_TOKEN_MIN_DURATION \<le> real_now w' \<and> tables w' = tables w \<and>
      f (db_now (tick w)) (tables w) = Some r \<and> used_at r = None \<and> app_now w \<le> expires_at r)
    (\<lambda>e w'. real_now w + ONE_TIME_TOKEN_MIN_DURATION \<le> real_now w' \<and> tables w' = tables w \<and>
      (sched w = [] \<longrightarrow> (case f (db_now w) (tables w) of
         None \<Rightarrow> e = TokenInvalid
       | Some r \<Rightarrow> e = (if expires_at r < app_now w then TokenExpired else TokenInvalid)))) w"
proof -
  have order: "app_now w \<le> app_now (tick (tick w))"
    using app_now_tick order_trans by blast
  have idle: "tick w = w" "next_outcome w = Done" if "sched w = []"
    using that by (simp_all add: tick_def next_outcome_def)
  show ?thesis
  proof (cases "f (db_now (tick w)) (tables w)")
    case None
    then show ?thesis
      using idle by (auto simp: check_one_time_token_def wp_simps internal_def split: option.split)
  next
    case (Some r)
    then show ?thesis
      using idle order
      by (cases "token_verdict used_at expires_at r (app_now (tick (tick w)))")
        (auto simp: check_one_time_token_def wp_simps internal_def token_verdict_def token_is_expired_def token_is_used_def
          split: option.split if_splits)
  qed
qed

text \<open>C32: A one-time token is judged on its row, in constant time. Whatever the lookup finds, and
  whatever fails, the answer takes at least the minimum duration and writes nothing. A token is
  accepted only if its row was found, unused and not past its expiry; and when nothing fails, an
  unknown or used token is invalid and an expired one is reported as such.\<close>

theorem one_time_token_judged:
  assumes "check_one_time_token used_at expires_at (db_read Pool f) w = (res, w')"
  shows "real_now w + ONE_TIME_TOKEN_MIN_DURATION \<le> real_now w' \<and> tables w' = tables w \<and>
    (case res of
       Inr r \<Rightarrow> f (db_now (tick w)) (tables w) = Some r \<and> used_at r = None \<and> app_now w \<le> expires_at r
     | Inl e \<Rightarrow> sched w \<noteq> [] \<or> (case f (db_now w) (tables w) of
           None \<Rightarrow> e = TokenInvalid
         | Some r \<Rightarrow> e = (if expires_at r < app_now w then TokenExpired else TokenInvalid)))"
proof (cases res)
  case (Inr r)
  then show ?thesis
    using wp_ok [OF one_time_token_wp assms [unfolded Inr]] by simp
next
  case (Inl e)
  then show ?thesis
    using wp_err [OF one_time_token_wp assms [unfolded Inl]] by simp
qed

theorem one_time_token_judged_witness:
  "ONE_TIME_TOKEN_MIN_DURATION \<le> real_now (snd (check_one_time_token ml_used_at ml_expires_at (db_read Pool (\<lambda>_ _. None :: magic_link_token option)) (initial_world demo_tables)))"
  using one_time_token_judged [of ml_used_at ml_expires_at "\<lambda>_ _. None :: magic_link_token option" "initial_world demo_tables", OF prod.collapse [symmetric]]
  by (simp add: initial_world_def)

end
