(* ===== verification/Refresh.thy ===== *)
theory Refresh
  imports Guards
begin

text \<open>
  Refresh token rotation and logout (\<^verbatim>\<open>services/auth/session.rs\<close>).
\<close>

section \<open>Rotation\<close>

definition refresh_failure_key :: "ipnetwork \<Rightarrow> rkey" where
  "refresh_failure_key ip = RefreshFail (ip_bucket (net_ip ip))"

definition note_refresh_failure :: "ipnetwork option \<Rightarrow> ('e, unit) svc" where
  "note_refresh_failure ip =
     (case ip of
        None \<Rightarrow> ret ()
      | Some ip \<Rightarrow> ignore (consume [\<lparr>b_key = refresh_failure_key ip, b_limit = MAX_REFRESH_FAILURES_BY_IP,
          b_window_secs = REFRESH_FAILURE_WINDOW_SECS\<rparr>]))"

definition rotated_by_this_client :: "session \<Rightarrow> ipnetwork option \<Rightarrow> string option \<Rightarrow> ('e, bool) svc" where
  "rotated_by_this_client session ip user_agent =
     (case s_replaced_by_session_id session of
        None \<Rightarrow> ret False
      | Some next_id \<Rightarrow>
          bnd (attempt (find_by_id next_id)) (\<lambda>found.
          ret (case found of
             Inr (Some next) \<Rightarrow>
               (if s_ip_address next = None \<and> ip = None then True
                else same_network (s_ip_address next) ip = Some True) \<and>
               s_user_agent next = user_agent
           | _ \<Rightarrow> False)))"

text \<open>The budget of refused refreshes, and the blocklist: both leave a refresh to the database
  when Redis does not answer.\<close>

definition refresh_budget :: "ipnetwork option \<Rightarrow> (app_error, unit) svc" where
  "refresh_budget ip =
     (case ip of
        None \<Rightarrow> ret ()
      | Some ip \<Rightarrow>
          bnd (attempt (peek (refresh_failure_key ip))) (\<lambda>res.
          case res of
            Inr failures \<Rightarrow> if MAX_REFRESH_FAILURES_BY_IP \<le> failures then throw RateLimitExceeded else ret ()
          | Inl _ \<Rightarrow> ret ()))"

definition refresh_blocklist :: "bytes \<Rightarrow> (app_error, unit) svc" where
  "refresh_blocklist token_hash =
     bnd (attempt (is_refresh_token_blocked token_hash)) (\<lambda>res.
     case res of
       Inr blocked \<Rightarrow> if blocked then throw TokenInvalid else ret ()
     | Inl (ServiceUnavailable _) \<Rightarrow> ret ()
     | Inl e \<Rightarrow> throw e)"

text \<open>A replay: the family goes, and the refusal is audited.\<close>

definition audit_replay ::
  "session \<Rightarrow> ipnetwork option \<Rightarrow> uuid option \<Rightarrow> (string \<times> json) list \<Rightarrow> (app_error, unit) svc" where
  "audit_replay session ip request_id metadata =
     map_err internal (audit_append Pool (Some (s_user_id session)) request_id SessionReplayDetected ip (JObj metadata))"

definition refuse_replay ::
  "session \<Rightarrow> ipnetwork option \<Rightarrow> uuid option \<Rightarrow> (string \<times> json) list \<Rightarrow> (app_error, 'a) svc" where
  "refuse_replay session ip request_id metadata =
     seq (revoke_family (s_id session))
     (seq (audit_replay session ip request_id metadata)
     (throw TokenInvalid))"

definition refresh_policy_of :: "app_state \<Rightarrow> refresh_policy" where
  "refresh_policy_of st =
     \<lparr>rp_reuse_grace = REFRESH_REUSE_GRACE, rp_max_lifetime_secs = max_session_lifetime_secs st,
      rp_strict_binding = strict_session_binding st\<rparr>"

definition judge_refresh ::
  "app_state \<Rightarrow> session \<Rightarrow> ipnetwork option \<Rightarrow> string option \<Rightarrow> uuid option \<Rightarrow> (app_error, unit) svc" where
  "judge_refresh st session ip user_agent request_id =
     bnd clock_now (\<lambda>now.
     case refresh_verdict session now (map_option net_ip ip) (refresh_policy_of st) of
       Rotate \<Rightarrow> ret ()
     | ConcurrentRefresh \<Rightarrow>
         bnd (rotated_by_this_client session ip user_agent) (\<lambda>same.
         if same then throw TokenInvalid
         else seq (note_refresh_failure ip)
           (refuse_replay session ip request_id
             [(''session_id'', JUuid (s_id session)), (''reason'', JStr ''reused_by_another_client'')]))
     | Expired \<Rightarrow> throw TokenExpired
     | Replay \<Rightarrow>
         seq (note_refresh_failure ip)
         (refuse_replay session ip request_id [(''session_id'', JUuid (s_id session))])
     | AddressMismatch \<Rightarrow>
         seq (note_refresh_failure ip)
         (seq (audit_replay session ip request_id
                [(''reason'', JStr ''ip_mismatch''), (''session_id'', JUuid (s_id session)),
                 (''same_network'',
                  case same_network (s_ip_address session) ip of None \<Rightarrow> JNull | Some b \<Rightarrow> JBool b)])
         (throw TokenInvalid)))"

text \<open>The rotation itself. A row another request rotated in between is a concurrent refresh or a
  replay.\<close>

definition rotation_of :: "app_state \<Rightarrow> session \<Rightarrow> uuid \<Rightarrow> instant \<Rightarrow> ipnetwork option \<Rightarrow> string option \<Rightarrow> string \<Rightarrow> new_session" where
  "rotation_of st session user_id expires_at ip user_agent raw =
     \<lparr>ns_user_id = user_id, ns_session_family_id = s_session_family_id session, ns_expires_at = expires_at,
      ns_ip_address = ip, ns_device_name = s_device_name session, ns_remember_me = s_remember_me session,
      ns_token_hash = crypto_sha256 st raw, ns_user_agent = user_agent,
      ns_session_type = s_session_type session, ns_client_id = s_client_id session,
      ns_family_created_at = Some (s_family_created_at session), ns_scopes = None, ns_mfa = s_mfa session\<rparr>"

definition lost_race ::
  "session \<Rightarrow> ipnetwork option \<Rightarrow> string option \<Rightarrow> uuid option \<Rightarrow> (app_error, 'a) svc" where
  "lost_race session ip user_agent request_id =
     bnd (attempt (find_by_id (s_id session))) (\<lambda>found.
     bnd (case found of
            Inr (Some current) \<Rightarrow>
              bnd clock_now (\<lambda>now.
              if rotated_within current REFRESH_REUSE_GRACE now then rotated_by_this_client current ip user_agent
              else ret False)
          | _ \<Rightarrow> ret False) (\<lambda>concurrent.
     if concurrent then throw TokenInvalid
     else refuse_replay session ip request_id [(''session_id'', JUuid (s_id session))]))"

definition rotate_session ::
  "app_state \<Rightarrow> session \<Rightarrow> ipnetwork option \<Rightarrow> string option \<Rightarrow> uuid option \<Rightarrow> (app_error, auth_tokens) svc" where
  "rotate_session st session ip user_agent request_id =
     bnd (map_err internal (user_find_by_id Pool (s_user_id session))) (\<lambda>found.
     bnd (ok_or Unauthorized found) (\<lambda>user.
     seq (ensure_status_allows_sign_in user)
     (bnd (draw (generate_token st)) (\<lambda>new_raw_token.
      bnd clock_now (\<lambda>now.
      let expires_at = capped_expiry now (session_ttl_secs st (s_remember_me session)) (s_family_created_at session)
            (max_session_lifetime_secs st) in
      bnd (attempt (rotate (s_id session) (rotation_of st session (u_id user) expires_at ip user_agent new_raw_token))) (\<lambda>res.
      bnd (case res of
             Inr new_session \<Rightarrow> ret new_session
           | Inl RowNotFound \<Rightarrow> lost_race session ip user_agent request_id
           | Inl _ \<Rightarrow> throw Internal) (\<lambda>new_session.
      bnd (build_access_token st (u_id user) (s_id new_session) (s_scopes new_session) (s_client_id new_session)
             (s_session_type new_session)) (\<lambda>access_token.
      ret \<lparr>at_access_token = access_token, at_refresh_token = new_raw_token, at_session = new_session\<rparr>))))))))"

text \<open>The part of a refresh that asks the database.\<close>

definition refresh_stored ::
  "app_state \<Rightarrow> bytes \<Rightarrow> string option \<Rightarrow> ipnetwork option \<Rightarrow> string option \<Rightarrow> uuid option \<Rightarrow> (app_error, auth_tokens) svc" where
  "refresh_stored st token_hash client_id ip user_agent request_id =
     bnd (map_err internal (find_by_token_hash token_hash)) (\<lambda>found.
     case found of
       None \<Rightarrow> seq (note_refresh_failure ip) (throw TokenInvalid)
     | Some session \<Rightarrow>
         if s_client_id session \<noteq> client_id then seq (note_refresh_failure ip) (throw TokenInvalid)
         else seq (judge_refresh st session ip user_agent request_id)
                (rotate_session st session ip user_agent request_id))"

definition refresh_token ::
  "app_state \<Rightarrow> string \<Rightarrow> string option \<Rightarrow> ipnetwork option \<Rightarrow> string option \<Rightarrow> uuid option \<Rightarrow> (app_error, auth_tokens) svc" where
  "refresh_token st raw_token client_id ip user_agent request_id =
     seq (refresh_budget ip)
     (let token_hash = crypto_sha256 st raw_token in
      seq (refresh_blocklist token_hash)
      (refresh_stored st token_hash client_id ip user_agent request_id))"

section \<open>Logout\<close>

definition logout ::
  "uuid \<Rightarrow> uuid \<Rightarrow> uuid \<Rightarrow> int \<Rightarrow> ipnetwork option \<Rightarrow> uuid option \<Rightarrow> (app_error, unit) svc" where
  "logout session_id user_id jti token_exp ip request_id =
     bnd (map_err internal (find_by_id session_id)) (\<lambda>session.
     seq (map_err internal (revoke Pool session_id))
     (seq (invalidate_session_cache session_id)
     (seq (blocklist_jti jti token_exp)
     (seq (case session of
             None \<Rightarrow> ret ()
           | Some s \<Rightarrow> seq (blocklist_refresh_token (s_token_hash s) (s_expires_at s)) (clear_recent_reauth (s_id s)))
     (map_err internal (audit_append Pool (Some user_id) request_id AuditLogout ip
        (JObj [(''session_id'', JUuid session_id)])))))))"

section \<open>Frames\<close>

lemma keeps_refresh_checks [frame_intros]:
  "keeps same_db (note_refresh_failure ip)"
  "keeps same_db (rotated_by_this_client s ip ua)"
  "keeps same_db (refresh_budget ip)"
  "keeps same_db (refresh_blocklist h)"
  unfolding note_refresh_failure_def rotated_by_this_client_def refresh_budget_def refresh_blocklist_def
  by (auto intro!: sd.keeps_intros frame_intros split: option.split sum.split app_error.split)

lemma keeps_audit_replay: "keeps (same_of sessions) (audit_replay s ip req md)"
  unfolding audit_replay_def by (intro so.keeps_map_err keeps_other_writes)

lemma keeps_refuse_replay: "keeps (refines Pool) (refuse_replay s ip req md)"
  unfolding refuse_replay_def
  by (intro rf.keeps_intros revoke_family_refines keeps_audit_replay [THEN keeps_refines_other])

lemma keeps_judge_refresh: "keeps (refines Pool) (judge_refresh st s ip ua req)"
  unfolding judge_refresh_def
  by (auto intro!: rf.keeps_intros keeps_refuse_replay keeps_audit_replay [THEN keeps_refines_other]
      frame_intros [THEN rf.keeps_same_db] split: refresh_verdict.split)

lemma keeps_lost_race: "keeps (refines Pool) (lost_race s ip ua req)"
  unfolding lost_race_def
  by (auto intro!: rf.keeps_intros keeps_refuse_replay frame_intros [THEN rf.keeps_same_db] split: sum.split option.split)

lemma logout_refines: "keeps (refines Pool) (logout sid u jti expiry ip req)"
  unfolding logout_def
  by (auto intro!: refines_intros frame_intros [THEN rf.keeps_same_db] split: option.split)

section \<open>What a refresh that succeeds has done\<close>

lemma refuse_replay_refuses: "wp (refuse_replay s ip req md) Q (\<lambda>_ _. True) w"
  unfolding refuse_replay_def by (intro wp_whatever) (simp add: wp_throw)

lemma judge_refresh_ok:
  "wp (judge_refresh st s ip ua req)
    (\<lambda>_ w'. w' = tick w \<and> refresh_verdict s (app_now (tick w)) (map_option net_ip ip) (refresh_policy_of st) = Rotate)
    (\<lambda>_ _. True) w"
  unfolding judge_refresh_def
  by (auto simp: wp_bnd [of clock_now] wp_clock_now wp_ret wp_throw intro!: wp_whatever refuse_replay_refuses
      split: refresh_verdict.split)

lemma rotation_continues: "continues s (rotation_of st s (s_user_id s) expires ip ua raw)"
  by (simp add: continues_def rotation_of_def)

text \<open>What the rotation of a session hands over to its successor.\<close>

definition refreshed_as :: "app_state \<Rightarrow> session \<Rightarrow> auth_tokens \<Rightarrow> bool" where
  "refreshed_as st old tok \<longleftrightarrow>
     (let new = at_session tok in
      s_user_id new = s_user_id old \<and> s_session_family_id new = s_session_family_id old \<and>
      s_session_type new = s_session_type old \<and> s_client_id new = s_client_id old \<and>
      s_scopes new = s_scopes old \<and> s_mfa new = s_mfa old \<and> s_auth_time new = s_auth_time old \<and>
      s_remember_me new = s_remember_me old \<and> s_family_created_at new = s_family_created_at old \<and>
      s_token_hash new = crypto_sha256 st (at_refresh_token tok) \<and> s_revoked_at new = None \<and>
      s_expires_at new \<le> saturating_add (s_family_created_at old) (seconds (i64_of_u64 (max_session_lifetime_secs st))))"


text \<open>The row is found by its token and by its identifier alike.\<close>

lemma found_by_hash:
  assumes "state_ok (machine_state ex w)" "find (\<lambda>s. s_token_hash s = h) (sessions (tables w)) = Some s"
  shows "find_session (s_id s) (tables w) = Some s" "s_token_hash s = h" "s \<in> set (sessions (tables w))"
proof -
  show mem: "s \<in> set (sessions (tables w))" and "s_token_hash s = h"
    using find_Some_set [OF assms(2)] by auto
  have "distinct (map s_id (sessions (tables w)))"
    using assms(1) by (simp add: machine_state_def state_ok_def table_inv_def session_table_ok_def)
  then show "find_session (s_id s) (tables w) = Some s"
    unfolding find_session_def using mem by (rule find_by_distinct_key)
qed

definition rotated_for ::
  "app_state \<Rightarrow> session \<Rightarrow> ipnetwork option \<Rightarrow> string option \<Rightarrow> world \<Rightarrow> auth_tokens \<Rightarrow> world \<Rightarrow> bool" where
  "rotated_for st old ip ua w tok w' \<longleftrightarrow>
     (\<exists>user expires i now. find_user (s_user_id old) (tables w) = Some user \<and> u_status user = UserActive \<and>
        expires \<le> saturating_add (s_family_created_at old) (seconds (i64_of_u64 (max_session_lifetime_secs st))) \<and>
        db_now w \<le> now \<and> uuids w \<le> i \<and>
        rotate_tables i now (s_id old) (rotation_of st old (s_user_id old) expires ip ua (at_refresh_token tok)) (tables w)
          = (Inr (at_session tok), tables w'))"

lemma keeps_status [simp]:
  "wp (ensure_status_allows_sign_in user) Q E w =
     (case u_status user of UserActive \<Rightarrow> Q () w | Suspended \<Rightarrow> E AccountSuspended w
      | Inactive \<Rightarrow> E AccountInactive w | PendingVerification \<Rightarrow> E EmailNotVerified w)"
  by (simp add: ensure_status_allows_sign_in_def wp_simps split: user_status.split)

text \<open>After the rotation only the token is built, which leaves the tables alone.\<close>

lemma after_rotation:
  assumes "find_user (s_user_id s) (tables w) = Some user" "u_status user = UserActive"
    and "tables w1 = tables w" "later w w1"
    and "expires \<le> saturating_add (s_family_created_at s) (seconds (i64_of_u64 (max_session_lifetime_secs st)))"
    and "rotated_in (s_id s) (rotation_of st s (s_user_id s) expires ip ua raw) w1 new w2" "later w w2"
  shows "wp (bnd (build_access_token st u (s_id new) (s_scopes new) (s_client_id new) (s_session_type new)) (\<lambda>access_token.
      ret \<lparr>at_access_token = access_token, at_refresh_token = raw, at_session = new\<rparr>))
    (\<lambda>tok. rotated_for st s ip ua w tok) (\<lambda>_ _. True) w2"
proof -
  obtain i now where "rotate_tables i now (s_id s) (rotation_of st s (s_user_id s) expires ip ua raw) (tables w) = (Inr new, tables w2)"
    "db_now w1 \<le> now" "uuids w1 \<le> i"
    using assms(3,6) unfolding rotated_in_def by auto
  moreover have "db_now w \<le> db_now w1" "uuids w \<le> uuids w1"
    using assms(4) by (auto simp: later_now later_def)
  ultimately have "rotated_for st s ip ua w \<lparr>at_access_token = a, at_refresh_token = raw, at_session = new\<rparr> w'"
    if "tables w' = tables w2" for a w'
    unfolding rotated_for_def using assms(1,2,5) that
    by (intro exI [of _ user] exI [of _ expires] exI [of _ i] exI [of _ now]) simp
  then show ?thesis
    unfolding wp_bnd wp_ret by (intro keeps_wp [OF keeps_token_calls(1)]) (simp_all add: same_db_def)
qed


lemma rotate_later: "keeps later (rotate i n)"
  unfolding rotate_def
  by (intro lt.keeps_in_tx lt.keeps_bnd lt.keeps_seq lt.keeps_ret lt.keeps_throw lt.keeps_if lt.keeps_ok_or
      lt.keeps_same_db [OF keeps_db_read] lt.keeps_same_db [OF keeps_fresh_uuid] keeps_later_db_stmt)

lemma lost_race_refuses: "wp (lost_race s ip ua req) Q (\<lambda>_ _. True) w"
  unfolding lost_race_def by (auto intro!: wp_whatever refuse_replay_refuses simp: wp_throw)

lemma rotate_session_ok:
  "wp (rotate_session st s ip ua req) (\<lambda>tok. rotated_for st s ip ua w tok) (\<lambda>_ _. True) w"
proof (cases "find_user (s_user_id s) (tables w)")
  case None
  then show ?thesis
    by (simp add: rotate_session_def wp_simps)
next
  case (Some user)
  have id: "u_id user = s_user_id s"
    using find_Some_set [OF Some [unfolded find_user_def]] by simp
  let ?w1 = "tick ((tick w)\<lparr>draws := Suc (draws w)\<rparr>)"
  let ?expires = "capped_expiry (app_now ?w1) (session_ttl_secs st (s_remember_me s)) (s_family_created_at s)
    (max_session_lifetime_secs st)"
  let ?n = "\<lambda>raw. rotation_of st s (s_user_id s) ?expires ip ua raw"
  have w1: "tables ?w1 = tables w" "later w ?w1"
    using order_trans [OF tick_real_now tick_real_now, of w] by (auto simp: later_def)
  have cap: "?expires \<le> saturating_add (s_family_created_at s) (seconds (i64_of_u64 (max_session_lifetime_secs st)))"
    by (simp add: capped_expiry_def)
  have rot: "wp (rotate (s_id s) (?n raw)) (\<lambda>new w2. rotated_in (s_id s) (?n raw) ?w1 new w2 \<and> later w w2) (\<lambda>_ _. True) ?w1" for raw
  proof (rule wp_mono [OF wp_conj [OF rotate_wp keeps_wp [OF rotate_later]]])
    show "later w x" if "later ?w1 x" for x
      using w1(2) that lt.trans by blast
  qed auto
  have issue: "wp (rotate (s_id s) (?n raw))
    (\<lambda>new w2. wp (bnd (build_access_token st (s_user_id s) (s_id new) (s_scopes new) (s_client_id new) (s_session_type new))
        (\<lambda>access_token. ret \<lparr>at_access_token = access_token, at_refresh_token = raw, at_session = new\<rparr>))
      (\<lambda>tok. rotated_for st s ip ua w tok) (\<lambda>_ _. True) w2) (\<lambda>_ _. True) ?w1" if "u_status user = UserActive" for raw
    using after_rotation [OF Some that w1 cap] by (intro wp_mono [OF rot]) auto
  have race: "wp (case e of RowNotFound \<Rightarrow> lost_race s ip ua req | _ \<Rightarrow> throw Internal) Q (\<lambda>_ _. True) w2" for e Q w2
    by (cases e) (simp_all add: wp_throw lost_race_refuses)
  show ?thesis
    using Some
    by (auto simp: rotate_session_def wp_simps id Let_def race split: user_status.split
        intro!: wp_mono [OF issue, simplified])
qed


lemma refresh_token_ok:
  "wp (refresh_token st raw client ip ua req)
    (\<lambda>tok w'. \<exists>old w1. find (\<lambda>s. s_token_hash s = crypto_sha256 st raw) (sessions (tables w)) = Some old \<and>
      s_client_id old = client \<and> tables w1 = tables w \<and> later w w1 \<and>
      refresh_verdict old (app_now w1) (map_option net_ip ip) (refresh_policy_of st) = Rotate \<and>
      rotated_for st old ip ua w1 tok w')
    (\<lambda>_ _. True) w"
proof -
  let ?R = "\<lambda>tok w'. \<exists>old w1. find (\<lambda>s. s_token_hash s = crypto_sha256 st raw) (sessions (tables w)) = Some old \<and>
      s_client_id old = client \<and> tables w1 = tables w \<and> later w w1 \<and>
      refresh_verdict old (app_now w1) (map_option net_ip ip) (refresh_policy_of st) = Rotate \<and>
      rotated_for st old ip ua w1 tok w'"
  have main: "wp (seq (judge_refresh st s ip ua req) (rotate_session st s ip ua req)) ?R (\<lambda>_ _. True) v"
    if s: "find (\<lambda>s. s_token_hash s = crypto_sha256 st raw) (sessions (tables w)) = Some s" "s_client_id s = client"
      and v: "same_db w v" for s v
    unfolding wp_seq
  proof (rule wp_mono [OF judge_refresh_ok])
    fix x v'
    assume v': "v' = tick v \<and> refresh_verdict s (app_now (tick v)) (map_option net_ip ip) (refresh_policy_of st) = Rotate"
    then have "tables v' = tables w" "later w v'"
      "refresh_verdict s (app_now v') (map_option net_ip ip) (refresh_policy_of st) = Rotate"
      using same_dbD [OF same_db_then_tick [OF v]] by simp_all
    then show "wp (rotate_session st s ip ua req) ?R (\<lambda>_ _. True) v'"
      using s by (intro wp_mono [OF rotate_session_ok]) blast+
  qed simp
  have find: "wp (find_by_token_hash h) Q E v = (if next_outcome v = Done
      then Q (find (\<lambda>s. s_token_hash s = h) (sessions (tables v))) (tick v) else E SqlFailed (tick v))" for h Q E v
    by (simp add: wp_session_reads)
  have rest: "wp (refresh_stored st (crypto_sha256 st raw) client ip ua req) ?R (\<lambda>_ _. True) v" if v: "same_db w v" for v
  proof -
    have "same_db w (tick v)" "tables v = tables w"
      using same_db_then_tick [OF v] same_dbD(1) [OF v] by simp_all
    then show ?thesis
      using main [of _ "tick v"] by (auto simp: refresh_stored_def wp_bnd wp_map_err find intro!: wp_whatever split: option.split simp: wp_throw)
  qed
  show ?thesis
    unfolding refresh_token_def wp_seq Let_def
    by (rule keeps_wp [OF keeps_refresh_checks(3)], rule keeps_wp [OF keeps_refresh_checks(4)], rule rest, erule (1) sd.trans)
      simp_all
qed


lemma rotated_for_facts:
  assumes "rotated_for st old ip ua w tok w'" "state_ok (machine_state Pool w)"
    "find_session (s_id old) (tables w) = Some old"
  shows "refreshed_as st old tok"
    and "find_session (s_id (at_session tok)) (tables w') = Some (at_session tok)"
    and "\<exists>now. find_session (s_id old) (tables w') = Some (mark_rotated now (s_id (at_session tok)) old)"
proof -
  obtain user expires i now where cap: "expires \<le> saturating_add (s_family_created_at old) (seconds (i64_of_u64 (max_session_lifetime_secs st)))"
    and rot: "rotate_tables i now (s_id old) (rotation_of st old (s_user_id old) expires ip ua (at_refresh_token tok)) (tables w)
      = (Inr (at_session tok), tables w')"
    using assms(1) unfolding rotated_for_def by blast
  obtain old' where o: "find_session (s_id old) (tables w) = Some old'"
      "at_session tok = rotated_row i now old' (rotation_of st old (s_user_id old) expires ip ua (at_refresh_token tok))"
      "tables w' = (tables w)\<lparr>sessions := update_where (\<lambda>s. s_id s = s_id old) (mark_rotated now i) (sessions (tables w) @ [at_session tok])\<rparr>"
      "session_table_ok (sessions (tables w'))" "session_table_ok (sessions (tables w) @ [at_session tok])"
    by (rule rotate_tables_ok [OF rot])
  have new: "at_session tok = rotated_row i now old (rotation_of st old (s_user_id old) expires ip ua (at_refresh_token tok))"
    and t': "sessions (tables w') = update_where (\<lambda>s. s_id s = s_id old) (mark_rotated now i) (sessions (tables w) @ [at_session tok])"
    using o(1-3) assms(3) by simp_all
  note ok = o(4,5)
  have i: "s_id (at_session tok) = i"
    by (simp add: new rotated_row_def inserted_row_def)
  show "refreshed_as st old tok"
    using cap by (simp add: refreshed_as_def new rotated_row_def inserted_row_def rotation_of_def Let_def)
  have mem: "old \<in> set (sessions (tables w))"
    using find_Some_set [OF assms(3) [unfolded find_session_def]] by simp
  have distinct: "distinct (map s_id (sessions (tables w')))"
    using ok(1) by (simp add: session_table_ok_def)
  have "s_id old \<noteq> i"
    using ok(2) imageI [OF mem, of s_id] i by (auto simp: session_table_ok_def)
  then have "at_session tok \<in> set (sessions (tables w'))" "mark_rotated now i old \<in> set (sessions (tables w'))"
    using mem i unfolding t' by (auto simp: update_where_def)
  then show "find_session (s_id (at_session tok)) (tables w') = Some (at_session tok)"
    "\<exists>now. find_session (s_id old) (tables w') = Some (mark_rotated now (s_id (at_session tok)) old)"
    using find_by_distinct_key [OF distinct, of "at_session tok"] find_by_distinct_key [OF distinct, of "mark_rotated now i old"] i
    unfolding find_session_def by (simp_all add: mark_rotated_def exI [of _ now])
qed


text \<open>C4: A refresh continues one live session and nothing else. Whatever fails on the way, tokens
  are issued only for a session that is in the table under the digest of the token presented, was
  issued to the client presenting it, is neither revoked, expired nor past the lifetime of its
  family, and belongs to an active account. The new session belongs to the same account, family,
  client and type with the same scopes, second factor and authentication time, and never outlives
  the family; it is in the table, and the one it replaces is revoked in its favour.\<close>

theorem refresh_continues_a_live_session:
  assumes "state_ok (machine_state Pool w)" "refresh_token st raw client ip ua req w = (Inr tok, w')"
  shows "\<exists>old now. old \<in> set (sessions (tables w)) \<and> s_token_hash old = crypto_sha256 st raw \<and>
      s_client_id old = client \<and> app_now w \<le> now \<and>
      refresh_verdict old now (map_option net_ip ip) (refresh_policy_of st) = Rotate \<and>
      (case find_user (s_user_id old) (tables w) of None \<Rightarrow> False | Some user \<Rightarrow> u_status user = UserActive) \<and>
      refreshed_as st old tok \<and>
      find_session (s_id (at_session tok)) (tables w') = Some (at_session tok) \<and>
      (\<exists>at. find_session (s_id old) (tables w') = Some (mark_rotated at (s_id (at_session tok)) old))"
proof -
  obtain old w1 where found: "find (\<lambda>s. s_token_hash s = crypto_sha256 st raw) (sessions (tables w)) = Some old"
    and client: "s_client_id old = client" and w1: "tables w1 = tables w" "later w w1"
    and rotate: "refresh_verdict old (app_now w1) (map_option net_ip ip) (refresh_policy_of st) = Rotate"
    and rotated: "rotated_for st old ip ua w1 tok w'"
    using wp_ok [OF refresh_token_ok assms(2)] by blast
  note row = found_by_hash [OF assms(1) found]
  have ok: "state_ok (machine_state Pool w1)"
    by (rule refines_state_ok [OF refines_elapse [OF w1] assms(1)])
  note facts = rotated_for_facts [OF rotated ok, unfolded w1(1), OF row(1)]
  have "case find_user (s_user_id old) (tables w) of None \<Rightarrow> False | Some user \<Rightarrow> u_status user = UserActive"
    using rotated w1(1) by (auto simp: rotated_for_def)
  then show ?thesis
    using row client facts rotate later_now [OF w1(2)]
    by - (rule exI [of _ old], rule exI [of _ "app_now w1"], simp)
qed

section \<open>Refinement\<close>

lemma refines_then:
  "refines Pool w w1 \<Longrightarrow> keeps (refines Pool) m \<Longrightarrow> wp m (\<lambda>_. refines Pool w) (\<lambda>_. refines Pool w) w1"
  by (erule keeps_wp) (use rf.trans in blast)+

lemma rotate_session_refines:
  assumes "find_session (s_id s) (tables w) = Some s"
  shows "wp (rotate_session st s ip ua req) (\<lambda>_. refines Pool w) (\<lambda>_. refines Pool w) w"
proof (cases "find_user (s_user_id s) (tables w)")
  case None
  then show ?thesis
    by (simp add: rotate_session_def wp_simps rf.same_db_within)
next
  case (Some user)
  have id: "u_id user = s_user_id s"
    using find_Some_set [OF Some [unfolded find_user_def]] by simp
  have idle: "refines Pool w (tick w)"
    by (simp add: rf.same_db_within)
  let ?w1 = "tick ((tick w)\<lparr>draws := Suc (draws w)\<rparr>)"
  have w1: "refines Pool w ?w1"
    using order_trans [OF tick_real_now tick_real_now, of w] by (intro refines_elapse) (auto simp: later_def)
  have rot: "wp (rotate (s_id s) (rotation_of st s (s_user_id s) expires ip ua raw)) (\<lambda>_. refines Pool w) (\<lambda>_. refines Pool w) ?w1"
    for expires raw
    by (rule wp_mono [OF rotate_refines]) (use assms w1 rotation_continues rf.trans in auto)
  have race: "keeps (refines Pool) (case e of RowNotFound \<Rightarrow> lost_race s ip ua req | _ \<Rightarrow> throw Internal)" for e
    by (auto intro!: rf.keeps_intros keeps_lost_race split: sql_error.split)
  have token: "keeps (refines Pool) (bnd (build_access_token st u i sc c ty) (\<lambda>a. ret (f a)))" for u i sc c ty and f :: "string \<Rightarrow> auth_tokens"
    by (intro rf.keeps_intros frame_intros [THEN rf.keeps_same_db])
  show ?thesis
    using Some idle
    by (auto simp: rotate_session_def wp_simps id Let_def split: user_status.split
        intro!: wp_mono [OF rot [simplified]] refines_then token race rf.keeps_bnd rf.keeps_ret)
qed


lemma refresh_token_refines:
  assumes "state_ok (machine_state Pool w)"
  shows "refines Pool w (snd (refresh_token st raw client ip ua req w))"
proof -
  let ?R = "\<lambda>_. refines Pool w"
  have refuse: "keeps (refines Pool) (seq (note_refresh_failure ip) (throw TokenInvalid))"
    by (intro rf.keeps_intros frame_intros [THEN rf.keeps_same_db])
  have main: "wp (seq (judge_refresh st s ip ua req) (rotate_session st s ip ua req)) ?R ?R v"
    if s: "find (\<lambda>s. s_token_hash s = crypto_sha256 st raw) (sessions (tables w)) = Some s" and v: "same_db w v" for s v
    unfolding wp_seq
  proof (rule wp_mono [OF wp_conj [OF judge_refresh_ok refines_then [OF rf.same_db_within [OF v] keeps_judge_refresh]]])
    fix x v'
    assume "(v' = tick v \<and> refresh_verdict s (app_now (tick v)) (map_option net_ip ip) (refresh_policy_of st) = Rotate) \<and>
      refines Pool w v'"
    then have v': "tables v' = tables w" "refines Pool w v'"
      using same_dbD(1) [OF v] by auto
    show "wp (rotate_session st s ip ua req) ?R ?R v'"
      by (rule wp_mono [OF rotate_session_refines]) (use found_by_hash [OF assms s] v' rf.trans in auto)
  qed simp
  have rest: "wp (refresh_stored st (crypto_sha256 st raw) client ip ua req) ?R ?R v" if v: "same_db w v" for v
  proof -
    have v': "same_db w (tick v)" "tables v = tables w"
      using same_db_then_tick [OF v] same_dbD(1) [OF v] by simp_all
    then show ?thesis
      using main [of _ "tick v"] rf.same_db_within [OF v'(1)]
      by (auto simp: refresh_stored_def wp_bnd wp_map_err wp_session_reads intro!: refines_then [OF _ refuse] split: option.split)
  qed
  have "wp (refresh_token st raw client ip ua req) ?R ?R w"
    unfolding refresh_token_def wp_seq Let_def
    by (rule keeps_wp [OF keeps_refresh_checks(3)], rule keeps_wp [OF keeps_refresh_checks(4)], rule rest, erule (1) sd.trans)
      (auto intro: rf.same_db_within sd.trans)
  then show ?thesis
    by (auto simp: wp_def split: prod.splits sum.splits)
qed


section \<open>Replay\<close>

lemma state_ok_same_db: "same_db w v \<Longrightarrow> state_ok (machine_state ex w) \<Longrightarrow> state_ok (machine_state ex v)"
  by (rule refines_state_ok [OF rf.same_db_within])

lemma inv_now:
  "state_ok (machine_state Pool w) \<Longrightarrow> table_inv (db_now (tick w)) (tables w)"
  using table_inv_later db_now_tick by (auto simp: machine_state_def state_ok_def)

definition replay_answered :: "session \<Rightarrow> world \<Rightarrow> bool" where
  "replay_answered s w \<longleftrightarrow>
     family_dead (s_session_family_id s) (sessions (tables w)) \<and> audited SessionReplayDetected (s_user_id s) (tables w)"

lemma audit_replay_wp:
  "wp (audit_replay s ip req md)
    (\<lambda>_ w'. sessions (tables w') = sessions (tables w) \<and> audited SessionReplayDetected (s_user_id s) (tables w'))
    (\<lambda>e _. e = Internal \<and> (sched w = [] \<longrightarrow> find_user (s_user_id s) (tables w) = None)) w"
  by (auto simp: audit_replay_def audit_append_def checked_def audited_def wp_simps wp_db_stmt internal_def
      refers_to_user_def find_user_def find_None_iff list_ex_iff split: outcome.split)

lemma refuse_replay_wp:
  assumes "state_ok (machine_state Pool v)" "find_session (s_id s) (tables v) = Some s"
  shows "wp (refuse_replay s ip req md) (\<lambda>_ _. False)
    (\<lambda>e w'. (e = TokenInvalid \<longrightarrow> replay_answered s w') \<and>
      (sched v = [] \<and> find_user (s_user_id s) (tables v) \<noteq> None \<longrightarrow> e = TokenInvalid)) v"
proof -
  let ?t = "family_revoked (db_now (tick v)) (s_session_family_id s) (tables v)"
  have dead: "family_dead (s_session_family_id s) (sessions ?t)"
    using family_revoked_dead by (auto simp: family_dead_def list_all_iff live_def)
  have users: "find_user i ?t = find_user i (tables v)" for i
    by (simp add: find_user_def family_revoked_def)
  have audit: "wp (seq (audit_replay s ip req md) (throw TokenInvalid)) (\<lambda>_ _. False)
      (\<lambda>e w'. (e = TokenInvalid \<longrightarrow> replay_answered s w') \<and>
        (sched v = [] \<and> find_user (s_user_id s) (tables v) \<noteq> None \<longrightarrow> e = TokenInvalid)) v'"
    if "tables v' = ?t" "sched v = [] \<longrightarrow> sched v' = []" for v'
    unfolding wp_seq wp_throw
    by (rule wp_mono [OF audit_replay_wp]) (use that dead users in \<open>auto simp: replay_answered_def\<close>)
  show ?thesis
    unfolding refuse_replay_def wp_seq [of "revoke_family (s_id s)"]
    by (rule wp_mono [OF revoke_family_wp [OF inv_now [OF assms(1)] assms(2)]], rule audit) auto
qed


text \<open>A call that leaves the database alone, and the schedule empty when it is.\<close>

definition quiet :: "world \<Rightarrow> world \<Rightarrow> bool" where
  "quiet w w' \<longleftrightarrow> same_db w w' \<and> (sched w = [] \<longrightarrow> sched w' = [])"

lemma quiet_trans: "quiet u v \<Longrightarrow> quiet v w \<Longrightarrow> quiet u w"
  using sd.trans by (auto simp: quiet_def)

lemma quiet_tick: "quiet w v \<Longrightarrow> quiet w (tick v)"
  by (auto simp: quiet_def same_db_then_tick)

lemma quiet_redis: "quiet w v \<Longrightarrow> quiet w (v\<lparr>redis := r\<rparr>)"
  by (auto simp: quiet_def same_db_def later_def)

lemma quiet_refl [simp]: "quiet w w"
  by (simp add: quiet_def)

lemma note_refresh_failure_quiet: "wp (note_refresh_failure ip) (\<lambda>_. quiet w) E w"
  by (cases ip) (simp_all add: note_refresh_failure_def wp_simps Let_def quiet_tick quiet_redis split: outcome.split)

lemma refresh_budget_quiet:
  "wp (refresh_budget ip) (\<lambda>_ w'. quiet w w' \<and> redis w' = redis w) (\<lambda>e _. e = RateLimitExceeded \<and> ip \<noteq> None) w"
  by (cases ip) (simp_all add: refresh_budget_def peek_def wp_simps Let_def quiet_tick quiet_redis split: outcome.split)

lemma refresh_blocklist_quiet:
  "redis w (RtBlock h) = None \<Longrightarrow> wp (refresh_blocklist h) (\<lambda>_. quiet w) (\<lambda>_ _. False) w"
  by (simp add: refresh_blocklist_def is_refresh_token_blocked_def rexists_def rget_def wp_simps quiet_tick quiet_redis
      split: outcome.split)

lemma not_rotated_within_later: "\<not> rotated_within s g now \<Longrightarrow> now \<le> now' \<Longrightarrow> \<not> rotated_within s g now'"
  by (auto simp: rotated_within_def split: option.splits)

lemma replay_verdict:
  assumes "s_revoked_at s \<noteq> None" "\<not> rotated_within s REFRESH_REUSE_GRACE now"
  shows "refresh_verdict s now addr (refresh_policy_of st) = Replay"
  using assms by (simp add: refresh_verdict_def refresh_policy_of_def)

lemma judge_replay:
  assumes "state_ok (machine_state Pool v)" "find_session (s_id s) (tables v) = Some s"
    and "s_revoked_at s \<noteq> None" "\<not> rotated_within s REFRESH_REUSE_GRACE (app_now v)"
  shows "wp (seq (judge_refresh st s ip ua req) k) (\<lambda>_ _. False)
    (\<lambda>e w'. (e = TokenInvalid \<longrightarrow> replay_answered s w') \<and>
      (sched v = [] \<and> find_user (s_user_id s) (tables v) \<noteq> None \<longrightarrow> e = TokenInvalid)) v"
proof -
  have "\<not> rotated_within s REFRESH_REUSE_GRACE (app_now (tick v))"
    using assms(4) by (rule not_rotated_within_later) simp
  note verdict = replay_verdict [OF assms(3) this]
  have refuse: "wp (refuse_replay s ip req md) (\<lambda>_ _. False)
      (\<lambda>e w'. (e = TokenInvalid \<longrightarrow> replay_answered s w') \<and>
        (sched v = [] \<and> find_user (s_user_id s) (tables v) \<noteq> None \<longrightarrow> e = TokenInvalid)) v'"
    if "quiet (tick v) v'" for md v'
  proof -
    have v': "same_db v v'" "sched v = [] \<longrightarrow> sched v' = []"
      using quiet_trans [OF quiet_tick [OF quiet_refl] that] by (simp_all add: quiet_def)
    then have "tables v' = tables v"
      by (simp add: same_dbD)
    then show ?thesis
      by (intro wp_mono [OF refuse_replay_wp [OF state_ok_same_db [OF v'(1) assms(1)]]]) (use assms(2) v' in auto)
  qed
  show ?thesis
    unfolding judge_refresh_def wp_seq wp_bnd wp_clock_now verdict refresh_verdict.case
    by (rule wp_mono [OF note_refresh_failure_quiet [of ip "tick v"]], rule wp_mono [OF refuse]) simp_all
qed




section \<open>A spent token\<close>

lemma keeps_rows_tokens:
  "keeps rows_kept (issue_tokens st u ip ua device remember ty client_id scopes si)"
  "keeps rows_kept (revoke_family i)"
  unfolding issue_tokens_def revoke_family_def
  by (auto intro!: rk.keeps_in_tx rows_intros frame_intros [THEN rk.keeps_same_db] keeps_record_sign_in [THEN keeps_rows_other]
      split: option.split prod.split)

lemma keeps_rows_refuse: "keeps rows_kept (refuse_replay s ip req md)" "keeps rows_kept (lost_race s ip ua req)"
  unfolding lost_race_def refuse_replay_def
  by (auto intro!: rows_intros keeps_rows_tokens keeps_audit_replay [THEN keeps_rows_other]
      frame_intros [THEN rk.keeps_same_db] split: sum.split option.split)

lemma keeps_rows_judge: "keeps rows_kept (judge_refresh st s ip ua req)"
  unfolding judge_refresh_def
  by (auto intro!: rows_intros keeps_rows_refuse keeps_audit_replay [THEN keeps_rows_other]
      frame_intros [THEN rk.keeps_same_db] split: refresh_verdict.split)

lemma keeps_rows_rotate_session: "keeps rows_kept (rotate_session st s ip ua req)"
  unfolding rotate_session_def
  by (auto intro!: rows_intros keeps_rows_refuse frame_intros [THEN rk.keeps_same_db] split: sum.split sql_error.split)

lemma keeps_rows_refresh: "keeps rows_kept (refresh_token st raw client ip ua req)"
  unfolding refresh_token_def refresh_stored_def
  by (auto intro!: rows_intros keeps_rows_judge keeps_rows_rotate_session frame_intros [THEN rk.keeps_same_db] split: option.split)

lemma keeps_rows_logout: "keeps rows_kept (logout sid u jti expiry ip req)"
  unfolding logout_def
  by (auto intro!: rows_intros frame_intros [THEN rk.keeps_same_db] split: option.split)

definition spent :: "bytes \<Rightarrow> world \<Rightarrow> bool" where
  "spent h w \<longleftrightarrow> state_ok (machine_state Pool w) \<and>
     (\<exists>s \<in> set (sessions (tables w)). s_token_hash s = h \<and> s_revoked_at s \<noteq> None)"

lemma spent_kept: "spent h w \<Longrightarrow> rows_kept w w' \<Longrightarrow> refines Pool w w' \<Longrightarrow> spent h w'"
  using refines_state_ok unfolding spent_def rows_kept_def rows_stay_def by metis

lemma spent_refused:
  assumes "spent (crypto_sha256 st raw) w"
  shows "wp (refresh_token st raw client ip ua req) (\<lambda>_ _. False) (\<lambda>_ _. True) w"
proof (rule wp_mono [OF refresh_token_ok])
  fix tok w'
  assume "\<exists>old w1. find (\<lambda>s. s_token_hash s = crypto_sha256 st raw) (sessions (tables w)) = Some old \<and>
      s_client_id old = client \<and> tables w1 = tables w \<and> later w w1 \<and>
      refresh_verdict old (app_now w1) (map_option net_ip ip) (refresh_policy_of st) = Rotate \<and>
      rotated_for st old ip ua w1 tok w'"
  then obtain old now where old: "find (\<lambda>s. s_token_hash s = crypto_sha256 st raw) (sessions (tables w)) = Some old"
    "refresh_verdict old now (map_option net_ip ip) (refresh_policy_of st) = Rotate"
    by blast
  obtain s where s: "state_ok (machine_state Pool w)" "s \<in> set (sessions (tables w))"
    "s_token_hash s = crypto_sha256 st raw" "s_revoked_at s \<noteq> None"
    using assms unfolding spent_def by blast
  have "distinct (map s_token_hash (sessions (tables w)))"
    using s(1) by (simp add: machine_state_def state_ok_def table_inv_def session_table_ok_def)
  from find_by_distinct_key [OF this s(2)] have "old = s"
    using old(1) s(3) by simp
  then show False
    using old(2) s(4) by (simp add: refresh_verdict_def split: if_splits)
qed simp

lemma refreshed_is_spent:
  assumes "state_ok (machine_state Pool w)" "refresh_token st raw client ip ua req w = (Inr tok, w')"
  shows "spent (crypto_sha256 st raw) w'"
proof -
  have ok: "state_ok (machine_state Pool w')"
    using refines_state_ok [OF refresh_token_refines [OF assms(1), of st raw client ip ua req] assms(1)] assms(2) by simp
  obtain old w1 where old: "find (\<lambda>s. s_token_hash s = crypto_sha256 st raw) (sessions (tables w)) = Some old"
    "tables w1 = tables w" "later w w1" "rotated_for st old ip ua w1 tok w'"
    using wp_ok [OF refresh_token_ok assms(2)] by blast
  obtain at where "find_session (s_id old) (tables w') = Some (mark_rotated at (s_id (at_session tok)) old)"
    using rotated_for_facts(3) [OF old(4) refines_state_ok [OF refines_elapse [OF old(2,3)] assms(1)], unfolded old(2),
        OF found_by_hash(1) [OF assms(1) old(1)]] by blast
  then have "mark_rotated at (s_id (at_session tok)) old \<in> set (sessions (tables w'))"
    unfolding find_session_def using find_Some_set by fast
  then show ?thesis
    unfolding spent_def using ok found_by_hash(2) [OF assms(1) old(1)]
    by (intro conjI bexI [of _ "mark_rotated at (s_id (at_session tok)) old"]) (simp_all add: mark_rotated_def)
qed


section \<open>Logout\<close>

lemma revoke_ends:
  assumes "update_sessions (\<lambda>s. s_id s = i \<and> s_revoked_at s = None) (mark_revoked now) t = (Inr k, t')"
  shows "session_ended i t'"
proof -
  let ?f = "\<lambda>r. if s_id r = i \<and> s_revoked_at r = None then mark_revoked now r else r"
  have "t' = t\<lparr>sessions := update_where (\<lambda>s. s_id s = i \<and> s_revoked_at s = None) (mark_revoked now) (sessions t)\<rparr>"
    using assms unfolding update_sessions_def put_sessions_ok by (elim conjE)
  then have rows: "sessions t' = update_where (\<lambda>s. s_id s = i \<and> s_revoked_at s = None) (mark_revoked now) (sessions t)"
    by simp
  have found: "find_session i t' = map_option ?f (find_session i t)"
    unfolding find_session_def rows by (rule find_update_where) (simp add: mark_revoked_def)
  show ?thesis
  proof (cases "find_session i t")
    case (Some s)
    then have "s_id s = i"
      using find_Some_set [of "\<lambda>s. s_id s = i" "sessions t"] by (simp add: find_session_def)
    then show ?thesis
      using found Some by (simp add: session_ended_def mark_revoked_def)
  qed (simp add: session_ended_def found)
qed

lemma revoke_wp: "wp (revoke ex i) (\<lambda>_ w'. session_ended i (tables w')) (\<lambda>_ _. True) w"
proof -
  have "wp (db_stmt ex (\<lambda>now t. update_sessions (\<lambda>s. s_id s = i \<and> s_revoked_at s = None) (mark_revoked now) t))
    (\<lambda>_ w'. session_ended i (tables w')) (\<lambda>_ _. True) w"
    unfolding wp_db_stmt by (auto dest: revoke_ends split: outcome.split prod.split sum.split)
  then show ?thesis
    unfolding revoke_def wp_seq wp_ret .
qed

text \<open>What the rest of a logout leaves: the tables up to the audit log, and the ended mark.\<close>

lemma logout_wp:
  "wp (logout sid u jti expiry ip req)
    (\<lambda>_ w'. session_ended sid (tables w') \<and> audited AuditLogout u (tables w')) (\<lambda>_ _. True) w"
proof -
  have audit: "wp (map_err internal (audit_append Pool (Some u) req AuditLogout ip md))
      (\<lambda>_ w'. session_ended sid (tables w') \<and> audited AuditLogout u (tables w')) (\<lambda>_ _. True) v"
    if "session_ended sid (tables v)" for v md
    using that by (auto simp: audit_append_def checked_def audited_def session_ended_def find_session_def wp_simps wp_db_stmt
        split: outcome.split)
  have rest: "wp (seq (invalidate_session_cache sid) (seq (blocklist_jti jti expiry)
      (seq (case s of None \<Rightarrow> ret ()
           | Some s \<Rightarrow> seq (blocklist_refresh_token (s_token_hash s) (s_expires_at s)) (clear_recent_reauth (s_id s)))
      (map_err internal (audit_append Pool (Some u) req AuditLogout ip md)))))
      (\<lambda>_ w'. session_ended sid (tables w') \<and> audited AuditLogout u (tables w')) (\<lambda>_ _. True) v"
    if ended: "session_ended sid (tables v)" for s v md
  proof -
    let ?m = "seq (invalidate_session_cache sid) (seq (blocklist_jti jti expiry)
      (case s of None \<Rightarrow> ret ()
       | Some s \<Rightarrow> seq (blocklist_refresh_token (s_token_hash s) (s_expires_at s)) (clear_recent_reauth (s_id s)))) :: (app_error, unit) svc"
    have "keeps same_db ?m"
      by (auto intro!: sd.keeps_intros frame_intros split: option.split)
    then have "wp ?m (\<lambda>_ v'. session_ended sid (tables v')) (\<lambda>_ _. True) v"
      by (rule keeps_wp) (use ended in \<open>simp_all add: same_dbD\<close>)
    then show ?thesis
      unfolding wp_seq by (elim wp_mono) (auto intro!: audit elim!: wp_mono)
  qed
  show ?thesis
    unfolding logout_def
    by (auto simp: wp_bnd wp_map_err wp_session_reads wp_seq [of "map_err internal (revoke Pool sid)"]
        intro!: wp_mono [OF revoke_wp] rest)
qed


text \<open>C31: A logout that reports success has ended the session: the database holds it as
  revoked, or not at all, and the logout is in the audit log.\<close>

theorem logout_ends_the_session:
  assumes "logout sid u jti expiry ip req w = (Inr (), w')"
  shows "session_ended sid (tables w') \<and> audited AuditLogout u (tables w')"
  using wp_ok [OF logout_wp assms] .

section \<open>Witnesses\<close>

text \<open>The session 2 was rotated into 4 at time 10; its token comes back a minute later.\<close>

definition demo_refresh_state :: app_state where
  "demo_refresh_state = demo_state\<lparr>crypto_sha256 := (\<lambda>s. replicate 32 (of_nat (length s)))\<rparr>"

definition demo_replay_world :: world where
  "demo_replay_world = (initial_world demo_rotated)\<lparr>real_now := 60000000000\<rparr>"

lemma demo_replay_ok: "state_ok (machine_state Pool demo_replay_world)"
proof -
  have "refines Pool demo_world demo_replay_world"
    by (rule refines_elapse) (simp_all add: demo_world_def demo_replay_world_def initial_world_def later_def)
  then show ?thesis
    using demo_world_ok by (rule refines_state_ok)
qed



lemma demo_refresh_runs:
  "case fst (refresh_token demo_refresh_state ''live-one'' None None None None demo_world) of Inr _ \<Rightarrow> True | Inl _ \<Rightarrow> False"
  by code_simp

theorem refresh_continues_a_live_session_witness:
  "\<exists>tok w' old. refresh_token demo_refresh_state ''live-one'' None None None None demo_world = (Inr tok, w') \<and>
     old \<in> set (sessions demo_rotated) \<and> s_token_hash old = replicate 32 8 \<and> refreshed_as demo_refresh_state old tok"
proof -
  obtain tok w' where run: "refresh_token demo_refresh_state ''live-one'' None None None None demo_world = (Inr tok, w')"
    using demo_refresh_runs
    by (cases "refresh_token demo_refresh_state ''live-one'' None None None None demo_world") (auto split: sum.splits)
  from refresh_continues_a_live_session [OF demo_world_ok run] obtain old where
    "old \<in> set (sessions (tables demo_world))" "s_token_hash old = crypto_sha256 demo_refresh_state ''live-one''"
    "refreshed_as demo_refresh_state old tok"
    by blast
  then show ?thesis
    using run by (auto simp: demo_world_def initial_world_def demo_refresh_state_def)
qed

lemma demo_logout_runs: "fst (logout 4 1 7 900 None None demo_world) = Inr ()"
  by code_simp

theorem logout_ends_the_session_witness:
  "session_ended 4 (tables (snd (logout 4 1 7 900 None None demo_world)))"
  using logout_ends_the_session [of 4 1 7 900 None None demo_world "snd (logout 4 1 7 900 None None demo_world)"] demo_logout_runs
  by (metis prod.collapse)

end
