(* ===== verification/Sessions.thy ===== *)
theory Sessions
  imports Refresh
begin

text \<open>
  Session management by the signed-in owner (\<^verbatim>\<open>services/session.rs\<close>): the list
  of active sessions, the revocation of one and of all.
\<close>

section \<open>Operations\<close>

definition list_active :: "uuid \<Rightarrow> (app_error, active_session_summary list) svc" where
  "list_active user_id = map_err internal (find_active_summary_by_user user_id)"

definition revoke_session ::
  "app_state \<Rightarrow> uuid \<Rightarrow> uuid \<Rightarrow> uuid \<Rightarrow> string option \<Rightarrow> ipnetwork option \<Rightarrow> uuid option \<Rightarrow> (app_error, unit) svc" where
  "revoke_session st user_id current_session_id session_id current_password ip request_id =
     seq (require_recent_reauth_or_password st user_id current_session_id current_password ip request_id ''revoke_session'')
     (bnd (map_err internal (find_by_id session_id)) (\<lambda>found.
      bnd (ok_or NotFound found) (\<lambda>session.
      if s_user_id session \<noteq> user_id then throw Forbidden
      else seq (in_tx internal (\<lambda>tx.
             seq (map_err internal (revoke tx session_id))
             (map_err internal (audit_append tx (Some user_id) request_id SessionRevoked ip
                (JObj [(''session_id'', JUuid session_id)])))))
        (seq (blocklist_refresh_token (s_token_hash session) (s_expires_at session))
        (seq (invalidate_session_cache (s_id session))
        (clear_recent_reauth (s_id session)))))))"

definition revoke_all ::
  "app_state \<Rightarrow> uuid \<Rightarrow> uuid \<Rightarrow> string option \<Rightarrow> bool \<Rightarrow> ipnetwork option \<Rightarrow> uuid option \<Rightarrow> (app_error, nat) svc" where
  "revoke_all st user_id current_session_id current_password keep_current_session ip request_id =
     seq (require_recent_reauth_or_password st user_id current_session_id current_password ip request_id ''revoke_all_sessions'')
     (bnd (map_err internal (find_active_by_user Pool user_id)) (\<lambda>found.
      let active = filter (\<lambda>s. \<not> keep_current_session \<or> s_id s \<noteq> current_session_id) found in
      bnd (in_tx internal (\<lambda>tx.
        bnd (map_err internal
               (if keep_current_session then revoke_others tx user_id current_session_id
                else revoke_all_by_user tx user_id)) (\<lambda>count.
        seq (map_err internal (audit_append tx (Some user_id) request_id SessionRevoked ip
               (JObj [(''count'', JNum (int count)), (''all'', JBool (\<not> keep_current_session))])))
        (seq (enqueue tx ''user.sessions_revoked'' (JObj [(''user_id'', JUuid user_id)]))
        (ret count))))) (\<lambda>count.
      seq (invalidate_session_caches (map s_id active))
      (seq (for_each active (\<lambda>s.
             seq (blocklist_refresh_token (s_token_hash s) (s_expires_at s)) (clear_recent_reauth (s_id s))))
      (ret count)))))"

section \<open>Refinement of the session machine\<close>

lemma revoke_session_refines: "keeps (refines Pool) (revoke_session st u cur sid pw ip req)"
  unfolding revoke_session_def
  by (auto intro!: keeps_refines_in_tx refines_intros require_reauth_other [THEN keeps_refines_other]
      frame_intros [THEN rf.keeps_same_db])

lemma revoke_all_refines: "keeps (refines Pool) (revoke_all st u cur pw keep ip req)"
  unfolding revoke_all_def Let_def
  by (auto intro!: keeps_refines_in_tx refines_intros require_reauth_other [THEN keeps_refines_other]
      frame_intros [THEN rf.keeps_same_db])

lemma revoke_keeps_rows:
  "keeps rows_kept (revoke_session st u cur sid pw ip req)"
  "keeps rows_kept (revoke_all st u cur pw keep ip req)"
  unfolding revoke_session_def revoke_all_def Let_def
  by (auto intro!: rk.keeps_in_tx rows_intros require_reauth_other [THEN keeps_rows_other] frame_intros [THEN rk.keeps_same_db])

section \<open>Revoking one session\<close>

text \<open>The sessions selected by \<open>P\<close> that were not revoked are; no other row changed; and it is in
  the audit log.\<close>

definition marked_where :: "(session \<Rightarrow> bool) \<Rightarrow> uuid \<Rightarrow> session list \<Rightarrow> tables \<Rightarrow> bool" where
  "marked_where P u rows t \<longleftrightarrow>
     (\<exists>now. sessions t = update_where (\<lambda>s. P s \<and> s_revoked_at s = None) (mark_revoked now) rows) \<and>
     audited SessionRevoked u t"

lemma audit_append_wp:
  "wp (map_err internal (audit_append ex (Some u) req SessionRevoked ip md))
    (\<lambda>_ w'. sessions (tables w') = sessions (tables w) \<and> audited SessionRevoked u (tables w')) (\<lambda>e _. e = Internal) w"
  by (auto simp: audit_append_def checked_def audited_def wp_simps wp_db_stmt internal_def split: outcome.split)

text \<open>All or nothing: what a transaction reports as done is done, and after an error it is done
  entirely or not at all.\<close>

lemma in_tx_atomic:
  assumes "\<And>t v. tables v = tables w \<Longrightarrow> wp (body (Tx t)) (\<lambda>x w'. D x (tables w')) (\<lambda>e _. e = Internal) v"
  shows "wp (in_tx internal body) (\<lambda>x w'. D x (tables w'))
    (\<lambda>e w'. e = Internal \<and> (tables w' = tables w \<or> (\<exists>x. D x (tables w')))) w"
  unfolding wp_in_tx
  by (auto simp: internal_def split: outcome.split intro!: wp_mono [OF assms])

text \<open>The rest of a handler that leaves the database alone keeps the outcome.\<close>

lemma then_same_db:
  assumes "keeps same_db m" "throws (\<lambda>_. False) m" "\<And>x w'. tables w' = tables w \<Longrightarrow> Q x w'"
  shows "wp m Q E w"
  by (rule wp_no_throw [OF assms(2) keeps_wp [OF assms(1)]]) (simp_all add: assms(3) same_dbD)

lemma revoke_tx_wp:
  assumes rows: "sessions (tables w) = rows"
  shows "wp (in_tx internal (\<lambda>tx. seq (map_err internal (revoke tx sid))
      (map_err internal (audit_append tx (Some u) req SessionRevoked ip md))))
    (\<lambda>_ w'. marked_where (\<lambda>s. s_id s = sid) u rows (tables w'))
    (\<lambda>e w'. e = Internal \<and> (tables w' = tables w \<or> marked_where (\<lambda>s. s_id s = sid) u rows (tables w'))) w"
proof (rule wp_mono [OF in_tx_atomic [where D = "\<lambda>_. marked_where (\<lambda>s. s_id s = sid) u rows"]])
  fix t and v :: world
  assume "tables v = tables w"
  then have v: "sessions (tables v) = rows"
    using rows by simp
  have "wp (revoke (Tx t) sid) (\<lambda>_ w'. \<exists>now. sessions (tables w') = update_where (\<lambda>s. s_id s = sid \<and> s_revoked_at s = None)
      (mark_revoked now) rows) (\<lambda>_ _. True) v"
    unfolding revoke_def wp_seq wp_ret wp_db_stmt update_sessions_def
    by (auto simp: put_sessions_def v split: outcome.split)
  then show "wp (seq (map_err internal (revoke (Tx t) sid)) (map_err internal (audit_append (Tx t) (Some u) req SessionRevoked ip md)))
      (\<lambda>x w'. marked_where (\<lambda>s. s_id s = sid) u rows (tables w')) (\<lambda>e _. e = Internal) v"
    unfolding wp_seq wp_map_err [of internal "revoke (Tx t) sid"]
    by (rule wp_mono) (auto simp: internal_def marked_where_def intro!: wp_mono [OF audit_append_wp])
qed auto

definition owned_revocation :: "uuid \<Rightarrow> uuid \<Rightarrow> tables \<Rightarrow> tables \<Rightarrow> bool" where
  "owned_revocation u sid t t' \<longleftrightarrow>
     (case find_session sid t of None \<Rightarrow> False | Some s \<Rightarrow> s_user_id s = u) \<and>
     marked_where (\<lambda>s. s_id s = sid) u (sessions t) t'"

lemma revoke_session_wp:
  "wp (revoke_session st u cur sid pw ip req) (\<lambda>_ w'. owned_revocation u sid (tables w) (tables w'))
    (\<lambda>e w'. sessions (tables w') = sessions (tables w) \<or> (e = Internal \<and> owned_revocation u sid (tables w) (tables w'))) w"
proof -
  let ?Q = "\<lambda>_ w'. owned_revocation u sid (tables w) (tables w')"
  let ?E = "\<lambda>e w'. sessions (tables w') = sessions (tables w) \<or> (e = Internal \<and> owned_revocation u sid (tables w) (tables w'))"
  let ?tx = "\<lambda>tx. seq (map_err internal (revoke tx sid))
    (map_err internal (audit_append tx (Some u) req SessionRevoked ip (JObj [(''session_id'', JUuid sid)])))"
  let ?after = "\<lambda>s. seq (blocklist_refresh_token (s_token_hash s) (s_expires_at s))
    (seq (invalidate_session_cache (s_id s)) (clear_recent_reauth (s_id s))) :: (app_error, unit) svc"
  have after: "keeps same_db (?after s)" "throws (\<lambda>_. False) (?after s)" for s
    by (auto intro!: sd.keeps_intros frame_intros throws_intros)
  have owned: "wp (seq (in_tx internal ?tx) (?after s)) ?Q ?E v"
    if "sessions (tables v) = sessions (tables w)" "find_session sid (tables w) = Some s" "s_user_id s = u" for v s
    unfolding wp_seq [of "in_tx internal ?tx"]
    by (rule wp_mono [OF revoke_tx_wp [OF that(1)]])
      (use that in \<open>auto intro!: then_same_db [OF after] simp: owned_revocation_def\<close>)
  have "wp (bnd (map_err internal (find_by_id sid)) (\<lambda>found.
      bnd (ok_or NotFound found) (\<lambda>session.
      if s_user_id session \<noteq> u then throw Forbidden else seq (in_tx internal ?tx) (?after session)))) ?Q ?E v"
    if "sessions (tables v) = sessions (tables w)" for v
    using that owned [of "tick v"]
    by (auto simp: wp_bnd wp_map_err wp_session_reads wp_ok_or wp_throw find_session_def split: option.split)
  then show ?thesis
    unfolding revoke_session_def wp_seq [of "require_recent_reauth_or_password st u cur pw ip req ''revoke_session''"]
    by (intro keeps_wp [OF require_reauth_other]) (simp_all add: same_of_def)
qed

text \<open>C33: Only the owner revokes a session, and the revocation and its audit entry stand or fall
  together. A revocation that reports success was asked for by the account the session belongs to;
  it has marked that session alone, and is in the audit log. After an error the sessions are as
  they were, unless it is the internal error of a lost answer, and then the whole revocation was
  made.\<close>

theorem session_revocation_owned:
  assumes "revoke_session st u cur sid pw ip req w = (res, w')"
  shows "case res of
      Inr _ \<Rightarrow> owned_revocation u sid (tables w) (tables w')
    | Inl e \<Rightarrow> sessions (tables w') = sessions (tables w) \<or>
        (e = Internal \<and> owned_revocation u sid (tables w) (tables w'))"
proof (cases res)
  case (Inr x)
  then show ?thesis
    using wp_ok [OF revoke_session_wp assms [unfolded Inr]] by simp
next
  case (Inl e)
  then show ?thesis
    using wp_err [OF revoke_session_wp assms [unfolded Inl]] by simp
qed

section \<open>Signing out everywhere\<close>

definition signed_out :: "uuid \<Rightarrow> uuid \<Rightarrow> bool \<Rightarrow> session \<Rightarrow> bool" where
  "signed_out u cur keep s \<longleftrightarrow> s_user_id s = u \<and> (keep \<longrightarrow> s_id s \<noteq> cur)"

lemma keeps_enqueue_rows: "keeps (same_of sessions) (enqueue ex name payload)" "keeps (same_of audit_log) (enqueue ex name payload)"
proof -
  show "keeps (same_of sessions) (enqueue ex name payload)"
    by (rule keeps_other_writes)
  show "keeps (same_of audit_log) (enqueue ex name payload)"
    unfolding enqueue_def record_event_def
    by (intro so.keeps_bnd so.keeps_seq so.keeps_ret so.keeps_map_err so.keeps_same_db [OF keeps_fresh_uuid]
        keeps_same_of_stmt keeps_same_of_write; simp add: checked_def Let_def)
qed

lemma revoke_all_statement:
  assumes "sessions (tables v) = rows"
  shows "wp (if keep then revoke_others ex u cur else revoke_all_by_user ex u)
    (\<lambda>n w'. n = length (filter (\<lambda>s. signed_out u cur keep s \<and> s_revoked_at s = None) rows) \<and>
      (\<exists>now. sessions (tables w') = update_where (\<lambda>s. signed_out u cur keep s \<and> s_revoked_at s = None) (mark_revoked now) rows))
    (\<lambda>_ _. True) v"
  using assms unfolding revoke_others_def revoke_all_by_user_def wp_if wp_db_stmt update_sessions_def
  by (cases keep) (auto simp: put_sessions_def signed_out_def conj_assoc split: outcome.split)

definition everywhere :: "uuid \<Rightarrow> uuid \<Rightarrow> bool \<Rightarrow> session list \<Rightarrow> nat \<Rightarrow> tables \<Rightarrow> bool" where
  "everywhere u cur keep rows n t \<longleftrightarrow>
     n = length (filter (\<lambda>s. signed_out u cur keep s \<and> s_revoked_at s = None) rows) \<and>
     marked_where (signed_out u cur keep) u rows t"

lemma everywhereI:
  assumes "sessions t = update_where (\<lambda>s. signed_out u cur keep s \<and> s_revoked_at s = None) (mark_revoked now) rows"
    and "audited SessionRevoked u t"
  shows "everywhere u cur keep rows (length (filter (\<lambda>s. signed_out u cur keep s \<and> s_revoked_at s = None) rows)) t"
  unfolding everywhere_def marked_where_def using assms by blast

lemma revoke_all_tx_wp:
  assumes rows: "sessions (tables w) = rows"
  shows "wp (in_tx internal (\<lambda>tx.
        bnd (map_err internal (if keep then revoke_others tx u cur else revoke_all_by_user tx u)) (\<lambda>count.
        seq (map_err internal (audit_append tx (Some u) req SessionRevoked ip (md count)))
        (seq (enqueue tx name payload) (ret count)))))
    (\<lambda>n w'. everywhere u cur keep rows n (tables w'))
    (\<lambda>e w'. e = Internal \<and> (tables w' = tables w \<or> (\<exists>n. everywhere u cur keep rows n (tables w')))) w"
proof (rule in_tx_atomic)
  fix t and v :: world
  assume "tables v = tables w"
  then have v: "sessions (tables v) = rows"
    using rows by simp
  have event: "wp (seq (enqueue (Tx t) name payload) (ret n)) (\<lambda>n w'. everywhere u cur keep rows n (tables w')) (\<lambda>e _. e = Internal) v'"
    if "everywhere u cur keep rows n (tables v')" for n v'
  proof -
    have "everywhere u cur keep rows n (tables w')" if "same_of sessions v' w'" "same_of audit_log v' w'" for w'
      using that \<open>everywhere u cur keep rows n (tables v')\<close> by (simp add: everywhere_def marked_where_def audited_def same_of_def)
    then have "wp (enqueue (Tx t) name payload) (\<lambda>_ w'. everywhere u cur keep rows n (tables w')) (\<lambda>_ _. True) v'"
      by (intro wp_mono [OF wp_conj [OF keeps_wp [OF keeps_enqueue_rows(1), where Q = "\<lambda>_. same_of sessions v'" and E = "\<lambda>_ _. True"]
              keeps_wp [OF keeps_enqueue_rows(2), where Q = "\<lambda>_. same_of audit_log v'" and E = "\<lambda>_ _. True"]]]) auto
    moreover have "throws (\<lambda>e. e = Internal) (enqueue (Tx t) name payload)"
      unfolding enqueue_def by (auto intro!: throws_intros)
    ultimately show ?thesis
      unfolding wp_seq wp_ret throws_def by (auto intro: wp_mono [OF wp_conj])
  qed
  show "wp (bnd (map_err internal (if keep then revoke_others (Tx t) u cur else revoke_all_by_user (Tx t) u)) (\<lambda>count.
        seq (map_err internal (audit_append (Tx t) (Some u) req SessionRevoked ip (md count)))
        (seq (enqueue (Tx t) name payload) (ret count))))
      (\<lambda>n w'. everywhere u cur keep rows n (tables w')) (\<lambda>e _. e = Internal) v"
    unfolding wp_bnd wp_map_err [of internal "if _ then _ else _"] wp_seq [of "map_err internal (audit_append _ _ _ _ _ _)"]
    by (rule wp_mono [OF revoke_all_statement [OF v]])
      (auto simp: internal_def intro!: wp_mono [OF audit_append_wp] event everywhereI)
qed


lemma revoke_all_wp:
  "wp (revoke_all st u cur pw keep ip req) (\<lambda>n w'. everywhere u cur keep (sessions (tables w)) n (tables w'))
    (\<lambda>e w'. sessions (tables w') = sessions (tables w) \<or>
      (e = Internal \<and> (\<exists>n. everywhere u cur keep (sessions (tables w)) n (tables w')))) w"
proof -
  let ?Q = "\<lambda>n w'. everywhere u cur keep (sessions (tables w)) n (tables w')"
  let ?E = "\<lambda>e w'. sessions (tables w') = sessions (tables w) \<or> (e = Internal \<and> (\<exists>n. ?Q n w'))"
  let ?tx = "\<lambda>tx. bnd (map_err internal (if keep then revoke_others tx u cur else revoke_all_by_user tx u)) (\<lambda>count.
        seq (map_err internal (audit_append tx (Some u) req SessionRevoked ip
               (JObj [(''count'', JNum (int count)), (''all'', JBool (\<not> keep))])))
        (seq (enqueue tx ''user.sessions_revoked'' (JObj [(''user_id'', JUuid u)])) (ret count)))"
  let ?after = "\<lambda>active (n :: nat). seq (invalidate_session_caches (map s_id active))
      (seq (for_each active (\<lambda>s. seq (blocklist_refresh_token (s_token_hash s) (s_expires_at s)) (clear_recent_reauth (s_id s))))
      (ret n)) :: (app_error, nat) svc"
  have after: "wp (?after active n) ?Q ?E v" if "?Q n v" for active n v
  proof -
    have "wp (?after active n) (\<lambda>m v'. m = n \<and> tables v' = tables v) (\<lambda>_ _. False) v"
      unfolding wp_seq wp_ret
      by (rule then_same_db, (auto intro!: frame_intros throws_intros)[2])
        (rule then_same_db, (auto intro!: sd.keeps_intros frame_intros throws_intros)[2], simp)
    then show ?thesis
      by (rule wp_mono) (use that in auto)
  qed
  have "wp (bnd (map_err internal (find_active_by_user Pool u)) (\<lambda>found.
      bnd (in_tx internal ?tx) (?after (filter (\<lambda>s. \<not> keep \<or> s_id s \<noteq> cur) found)))) ?Q ?E v"
    if rows: "sessions (tables v) = sessions (tables w)" for v
  proof -
    have tx: "wp (bnd (in_tx internal ?tx) (?after active)) ?Q ?E (tick v)" for active
      unfolding wp_bnd [of "in_tx internal ?tx"]
      by (rule wp_mono [OF revoke_all_tx_wp [of "tick v" "sessions (tables w)"]]) (use rows after in auto)
    have "?E e (tick v)" for e
      using rows by simp
    then show ?thesis
      by (cases "next_outcome v = Done")
        (simp_all only: wp_bnd [of "map_err internal (find_active_by_user Pool u)"] wp_map_err wp_session_reads if_True if_False if_cancel tx)
  qed
  then show ?thesis
    unfolding revoke_all_def Let_def wp_seq [of "require_recent_reauth_or_password st u cur pw ip req ''revoke_all_sessions''"]
    by (intro keeps_wp [OF require_reauth_other]) (simp_all add: same_of_def)
qed

text \<open>C34: Signing out everywhere. When it reports success, every session of the account is
  revoked, or every one but the current session when that one is kept; no session of another
  account changed; the number reported is the number of sessions it revoked, and it is in the
  audit log. After an error nothing was revoked, unless it is the internal error of a lost answer,
  and then everything was.\<close>

theorem sign_out_everywhere:
  assumes "revoke_all st u cur pw keep ip req w = (res, w')"
  shows "case res of
      Inr n \<Rightarrow> everywhere u cur keep (sessions (tables w)) n (tables w')
    | Inl e \<Rightarrow> sessions (tables w') = sessions (tables w) \<or>
        (e = Internal \<and> (\<exists>n. everywhere u cur keep (sessions (tables w)) n (tables w')))"
proof (cases res)
  case (Inr n)
  then show ?thesis
    using wp_ok [OF revoke_all_wp assms [unfolded Inr]] by simp
next
  case (Inl e)
  then show ?thesis
    using wp_err [OF revoke_all_wp assms [unfolded Inl]] by simp
qed

section \<open>Witnesses\<close>

definition demo_owner_world :: world where
  "demo_owner_world = demo_world\<lparr>redis := (\<lambda>_. None)(Reauth 4 := Some (RInt 0, Some 900000000000))\<rparr>"

lemma demo_revoke_runs: "fst (revoke_session demo_state 1 4 4 None None None demo_owner_world) = Inr ()"
  by code_simp

theorem session_revocation_owned_witness:
  "owned_revocation 1 4 (tables demo_owner_world) (tables (snd (revoke_session demo_state 1 4 4 None None None demo_owner_world)))"
  using session_revocation_owned [of demo_state 1 4 4 None None None demo_owner_world, OF prod.collapse [symmetric]] demo_revoke_runs
  by simp

lemma demo_sign_out_runs: "fst (revoke_all demo_state 1 4 None False None None demo_owner_world) = Inr 1"
  by code_simp

theorem sign_out_everywhere_witness:
  "everywhere 1 4 False (sessions demo_rotated) 1 (tables (snd (revoke_all demo_state 1 4 None False None None demo_owner_world)))"
  using sign_out_everywhere [of demo_state 1 4 None False None None demo_owner_world, OF prod.collapse [symmetric]] demo_sign_out_runs
  by (simp add: demo_owner_world_def demo_world_def initial_world_def)

end
