(* ===== verification/Factors_Repo.thy ===== *)
theory Factors_Repo
  imports Repos
begin

text \<open>
  The second factors of an account: its methods and the durable replay guard of
  TOTP codes (\<^verbatim>\<open>repositories/two_factor.rs\<close>), its recovery codes
  (\<^verbatim>\<open>repositories/recovery_code.rs\<close>) and the codes sent by mail
  (\<^verbatim>\<open>repositories/email_2fa.rs\<close>), with the constraints of
  \<^verbatim>\<open>migrations/0007_two_factor.sql\<close>.
\<close>

section \<open>Methods\<close>

definition method_checks :: "two_factor_method \<Rightarrow> bool" where
  "method_checks m \<longleftrightarrow>
     (tf_is_primary m \<longrightarrow> tf_is_verified m) \<and> (tf_method_type m = Totp \<longleftrightarrow> tf_totp_secret m \<noteq> None)"

definition methods_ok :: "two_factor_method list \<Rightarrow> bool" where
  "methods_ok rows \<longleftrightarrow>
     list_all method_checks rows \<and> distinct (map tf_id rows) \<and>
     distinct (map tf_user_id (filter (\<lambda>m. tf_method_type m = Totp) rows)) \<and>
     distinct (map tf_user_id (filter (\<lambda>m. tf_method_type m = Email) rows)) \<and>
     distinct (map tf_user_id (filter tf_is_primary rows))"

definition put_methods :: "'a \<Rightarrow> two_factor_method list \<Rightarrow> tables \<Rightarrow> (sql_error + 'a) \<times> tables" where
  "put_methods x rows t = checked (methods_ok rows) ''two_factor_methods'' x (t\<lparr>two_factor_methods := rows\<rparr>) t"

definition tf_create :: "uuid \<Rightarrow> two_factor_type \<Rightarrow> string option \<Rightarrow> (sql_error, two_factor_method) svc" where
  "tf_create u ty secret =
     bnd fresh_uuid (\<lambda>i.
     db_stmt Pool (\<lambda>now t.
       let row = \<lparr>tf_id = i, tf_user_id = u, tf_created_at = now, tf_method_type = ty,
                  tf_is_primary = False, tf_is_verified = False, tf_totp_secret = secret\<rparr>
       in if refers_to_user (Some u) t then put_methods row (two_factor_methods t @ [row]) t
          else (Inl (ConstraintViolation ''two_factor_methods_user_id_fkey''), t)))"

definition replace_pending :: "uuid \<Rightarrow> two_factor_type \<Rightarrow> string option \<Rightarrow> (sql_error, two_factor_method option) svc" where
  "replace_pending u ty secret =
     db_stmt Pool (\<lambda>now t.
       let P = (\<lambda>m. tf_user_id m = u \<and> tf_method_type m = ty \<and> \<not> tf_is_verified m);
           f = (\<lambda>m. m\<lparr>tf_totp_secret := secret, tf_created_at := now\<rparr>)
       in put_methods (map_option f (find P (two_factor_methods t))) (update_where P f (two_factor_methods t)) t)"

definition mark_verified :: "uuid \<Rightarrow> (sql_error, unit) svc" where
  "mark_verified i =
     db_stmt Pool (\<lambda>_ t. put_methods ()
       (update_where (\<lambda>m. tf_id m = i) (\<lambda>m. m\<lparr>tf_is_verified := True\<rparr>) (two_factor_methods t)) t)"

definition set_primary :: "uuid \<Rightarrow> uuid \<Rightarrow> (sql_error, unit) svc" where
  "set_primary i u =
     in_tx (\<lambda>e. e) (\<lambda>tx.
       seq (db_stmt tx (\<lambda>_ t. put_methods ()
         (update_where (\<lambda>m. tf_user_id m = u \<and> tf_is_primary m) (\<lambda>m. m\<lparr>tf_is_primary := False\<rparr>) (two_factor_methods t)) t))
       (db_stmt tx (\<lambda>_ t. put_methods ()
         (update_where (\<lambda>m. tf_id m = i \<and> tf_is_verified m) (\<lambda>m. m\<lparr>tf_is_primary := True\<rparr>) (two_factor_methods t)) t)))"

record removed_method =
  rm_was_primary :: bool
  rm_remaining_verified :: int

definition oldest_verified :: "uuid \<Rightarrow> two_factor_method list \<Rightarrow> two_factor_method option" where
  "oldest_verified u rows =
     (case sort_key tf_created_at (filter (\<lambda>m. tf_user_id m = u \<and> tf_is_verified m) rows) of
        [] \<Rightarrow> None
      | m # _ \<Rightarrow> Some m)"

text \<open>\<^verbatim>\<open>DELETE ... RETURNING is_primary\<close>, then the promotion of the oldest verified method.\<close>

definition delete_method :: "uuid \<Rightarrow> uuid \<Rightarrow> two_factor_type \<Rightarrow> tables \<Rightarrow> bool option \<times> tables" where
  "delete_method i u ty t =
     (let P = (\<lambda>m. tf_id m = i \<and> tf_user_id m = u \<and> tf_method_type m = ty)
      in (map_option tf_is_primary (find P (two_factor_methods t)),
          t\<lparr>two_factor_methods := filter (\<lambda>m. \<not> P m) (two_factor_methods t)\<rparr>))"

definition promote_oldest :: "uuid \<Rightarrow> two_factor_method list \<Rightarrow> two_factor_method list" where
  "promote_oldest u rows =
     (case oldest_verified u rows of
        None \<Rightarrow> rows
      | Some p \<Rightarrow> update_where (\<lambda>m. tf_id m = tf_id p) (\<lambda>m. m\<lparr>tf_is_primary := True\<rparr>) rows)"

definition count_verified :: "uuid \<Rightarrow> two_factor_method list \<Rightarrow> int" where
  "count_verified u rows = int (length (filter (\<lambda>m. tf_user_id m = u \<and> tf_is_verified m) rows))"

definition remove_method ::
  "executor \<Rightarrow> uuid \<Rightarrow> uuid \<Rightarrow> two_factor_type \<Rightarrow> (sql_error, removed_method option) svc" where
  "remove_method tx i u ty =
     bnd (db_write tx (\<lambda>_ t. delete_method i u ty t)) (\<lambda>removed.
     case removed of
       None \<Rightarrow> ret None
     | Some was_primary \<Rightarrow>
         seq (when_do was_primary
           (db_stmt tx (\<lambda>_ t. put_methods () (promote_oldest u (two_factor_methods t)) t)))
         (bnd (db_read tx (\<lambda>_ t. count_verified u (two_factor_methods t))) (\<lambda>remaining.
         seq (when_do (remaining = 0)
           (db_write tx (\<lambda>_ t. ((), t\<lparr>recovery_codes := filter (\<lambda>c. rc_user_id c \<noteq> u) (recovery_codes t)\<rparr>))))
         (ret (Some \<lparr>rm_was_primary = was_primary, rm_remaining_verified = remaining\<rparr>)))))"

definition tf_find_by_user :: "uuid \<Rightarrow> (sql_error, two_factor_method list) svc" where
  "tf_find_by_user u =
     db_read Pool (\<lambda>_ t. sort_key tf_created_at (filter (\<lambda>m. tf_user_id m = u) (two_factor_methods t)))"

definition tf_find_by_id_and_user :: "uuid \<Rightarrow> uuid \<Rightarrow> (sql_error, two_factor_method option) svc" where
  "tf_find_by_id_and_user i u =
     db_read Pool (\<lambda>_ t. find (\<lambda>m. tf_id m = i \<and> tf_user_id m = u) (two_factor_methods t))"

definition primary_method :: "uuid \<Rightarrow> tables \<Rightarrow> two_factor_method option" where
  "primary_method u t = find (\<lambda>m. tf_user_id m = u \<and> tf_is_primary m) (two_factor_methods t)"

definition find_primary_by_user :: "uuid \<Rightarrow> (sql_error, two_factor_method option) svc" where
  "find_primary_by_user u = db_read Pool (\<lambda>_ t. primary_method u t)"

definition find_all_totp_secrets :: "(sql_error, (uuid \<times> uuid \<times> string) list) svc" where
  "find_all_totp_secrets =
     db_read Pool (\<lambda>_ t. List.map_filter (\<lambda>m. case tf_totp_secret m of
         Some s \<Rightarrow> if tf_method_type m = Totp then Some (tf_id m, tf_user_id m, s) else None
       | None \<Rightarrow> None) (two_factor_methods t))"

definition replace_totp_secret :: "uuid \<Rightarrow> string \<Rightarrow> string \<Rightarrow> (sql_error, bool) svc" where
  "replace_totp_secret i expected new_secret =
     db_stmt Pool (\<lambda>_ t.
       let P = (\<lambda>m. tf_id m = i \<and> tf_totp_secret m = Some expected)
       in put_methods (length (filter P (two_factor_methods t)) = 1)
            (update_where P (\<lambda>m. m\<lparr>tf_totp_secret := Some new_secret\<rparr>) (two_factor_methods t)) t)"

definition tf_find_by_type :: "uuid \<Rightarrow> two_factor_type \<Rightarrow> (sql_error, two_factor_method option) svc" where
  "tf_find_by_type u ty =
     db_read Pool (\<lambda>_ t. find (\<lambda>m. tf_user_id m = u \<and> tf_method_type m = ty) (two_factor_methods t))"

definition tf_find_all_by_type :: "uuid \<Rightarrow> two_factor_type \<Rightarrow> (sql_error, two_factor_method list) svc" where
  "tf_find_all_by_type u ty =
     db_read Pool (\<lambda>_ t. sort_key tf_created_at
       (filter (\<lambda>m. tf_user_id m = u \<and> tf_method_type m = ty) (two_factor_methods t)))"

section \<open>TOTP replay guard\<close>

definition MAX_TOTP_SKEW :: int where
  "MAX_TOTP_SKEW = 1"

definition TOTP_REPLAY_WINDOW_SECS :: int where
  "TOTP_REPLAY_WINDOW_SECS = (2 * MAX_TOTP_SKEW + 2) * 30"

definition purge_totp :: "uuid \<Rightarrow> instant \<Rightarrow> tables \<Rightarrow> tables" where
  "purge_totp u now t =
     t\<lparr>used_totp_codes := filter (\<lambda>c. \<not> (ut_user_id c = u \<and>
         ut_used_at c < now - seconds TOTP_REPLAY_WINDOW_SECS)) (used_totp_codes t)\<rparr>"

definition totp_code_used :: "uuid \<Rightarrow> bytes \<Rightarrow> tables \<Rightarrow> bool" where
  "totp_code_used u h t \<longleftrightarrow> list_ex (\<lambda>c. ut_user_id c = u \<and> ut_code_hash c = h) (used_totp_codes t)"

definition insert_totp :: "uuid \<Rightarrow> bytes \<Rightarrow> instant \<Rightarrow> tables \<Rightarrow> (sql_error + nat) \<times> tables" where
  "insert_totp u h now t =
     (if length h \<noteq> 32 \<or> \<not> refers_to_user (Some u) t then (Inl (ConstraintViolation ''used_totp_codes''), t)
      else if totp_code_used u h t then (Inr 0, t)
      else (Inr 1, t\<lparr>used_totp_codes := used_totp_codes t @
              [\<lparr>ut_user_id = u, ut_code_hash = h, ut_used_at = now\<rparr>]\<rparr>))"

definition try_consume_totp_code :: "uuid \<Rightarrow> bytes \<Rightarrow> instant \<Rightarrow> (sql_error, bool) svc" where
  "try_consume_totp_code u h now =
     in_tx (\<lambda>e. e) (\<lambda>tx.
       seq (db_write tx (\<lambda>_ t. ((), purge_totp u now t)))
       (bnd (db_stmt tx (\<lambda>_ t. insert_totp u h now t)) (\<lambda>inserted. ret (inserted = 1))))"

section \<open>Recovery codes\<close>

definition recovery_checks :: "recovery_code \<Rightarrow> bool" where
  "recovery_checks c \<longleftrightarrow>
     length (rc_code_hash c) = 32 \<and> 1 \<le> rc_code_position c \<and> rc_code_position c \<le> 20 \<and>
     (case rc_expires_at c of None \<Rightarrow> True | Some e \<Rightarrow> rc_created_at c < e) \<and>
     (case rc_used_at c of None \<Rightarrow> True | Some x \<Rightarrow> rc_created_at c \<le> x)"

definition recovery_ok :: "recovery_code list \<Rightarrow> bool" where
  "recovery_ok rows \<longleftrightarrow>
     list_all recovery_checks rows \<and> distinct (map rc_id rows) \<and> distinct (map rc_code_hash rows) \<and>
     distinct (map (\<lambda>c. (rc_user_id c, rc_code_position c)) rows)"

definition put_recovery :: "'a \<Rightarrow> recovery_code list \<Rightarrow> tables \<Rightarrow> (sql_error + 'a) \<times> tables" where
  "put_recovery x rows t = checked (recovery_ok rows) ''recovery_codes'' x (t\<lparr>recovery_codes := rows\<rparr>) t"

definition recovery_usable :: "instant \<Rightarrow> recovery_code \<Rightarrow> bool" where
  "recovery_usable now c \<longleftrightarrow>
     rc_used_at c = None \<and> (case rc_expires_at c of None \<Rightarrow> True | Some e \<Rightarrow> now < e)"

definition rc_consume :: "uuid \<Rightarrow> (sql_error, bool) svc" where
  "rc_consume i =
     db_stmt Pool (\<lambda>now t.
       let P = (\<lambda>c. rc_id c = i \<and> recovery_usable now c)
       in put_recovery (length (filter P (recovery_codes t)) = 1)
            (update_where P (\<lambda>c. c\<lparr>rc_used_at := Some now\<rparr>) (recovery_codes t)) t)"

definition rc_delete_all_by_user :: "executor \<Rightarrow> uuid \<Rightarrow> (sql_error, unit) svc" where
  "rc_delete_all_by_user ex u =
     db_write ex (\<lambda>_ t. ((), t\<lparr>recovery_codes := filter (\<lambda>c. rc_user_id c \<noteq> u) (recovery_codes t)\<rparr>))"

text \<open>One identifier for each row of the batch.\<close>

fun fresh_uuids :: "nat \<Rightarrow> ('e, uuid list) svc" where
  "fresh_uuids 0 = ret []"
| "fresh_uuids (Suc n) = bnd fresh_uuid (\<lambda>i. bnd (fresh_uuids n) (\<lambda>is. ret (i # is)))"

definition recovery_rows ::
  "uuid list \<Rightarrow> uuid \<Rightarrow> (int \<times> bytes) list \<Rightarrow> instant option \<Rightarrow> instant \<Rightarrow> recovery_code list" where
  "recovery_rows is u codes expires now =
     map (\<lambda>(i, pos, h). \<lparr>rc_id = i, rc_user_id = u, rc_created_at = now, rc_expires_at = expires,
                        rc_used_at = None, rc_code_position = pos, rc_code_hash = h\<rparr>) (zip is codes)"

definition insert_batch_in_tx ::
  "executor \<Rightarrow> uuid \<Rightarrow> (int \<times> bytes) list \<Rightarrow> instant option \<Rightarrow> (sql_error, unit) svc" where
  "insert_batch_in_tx tx u codes expires =
     (if codes = [] then ret ()
      else bnd (fresh_uuids (length codes)) (\<lambda>is.
        db_stmt tx (\<lambda>now t.
          if refers_to_user (Some u) t
          then put_recovery () (recovery_codes t @ recovery_rows is u codes expires now) t
          else (Inl (ConstraintViolation ''recovery_codes_user_id_fkey''), t))))"

definition replace_all_in_tx ::
  "executor \<Rightarrow> uuid \<Rightarrow> (int \<times> bytes) list \<Rightarrow> instant option \<Rightarrow> (sql_error, unit) svc" where
  "replace_all_in_tx tx u codes expires =
     seq (rc_delete_all_by_user tx u) (insert_batch_in_tx tx u codes expires)"

definition rc_create_batch :: "uuid \<Rightarrow> (int \<times> bytes) list \<Rightarrow> instant option \<Rightarrow> (sql_error, unit) svc" where
  "rc_create_batch u codes expires = in_tx (\<lambda>e. e) (\<lambda>tx. insert_batch_in_tx tx u codes expires)"

definition replace_all_by_user :: "uuid \<Rightarrow> (int \<times> bytes) list \<Rightarrow> instant option \<Rightarrow> (sql_error, unit) svc" where
  "replace_all_by_user u codes expires = in_tx (\<lambda>e. e) (\<lambda>tx. replace_all_in_tx tx u codes expires)"

definition find_unused_by_user :: "uuid \<Rightarrow> (sql_error, recovery_code list) svc" where
  "find_unused_by_user u =
     db_read Pool (\<lambda>_ t. sort_key rc_code_position
       (filter (\<lambda>c. rc_user_id c = u \<and> rc_used_at c = None) (recovery_codes t)))"

definition count_usable_by_user :: "uuid \<Rightarrow> (sql_error, int) svc" where
  "count_usable_by_user u =
     db_read Pool (\<lambda>now t. int (length (filter (\<lambda>c. rc_user_id c = u \<and> recovery_usable now c) (recovery_codes t))))"

definition rc_find_by_hash :: "bytes \<Rightarrow> (sql_error, recovery_code option) svc" where
  "rc_find_by_hash h =
     db_read Pool (\<lambda>now t. find (\<lambda>c. rc_code_hash c = h \<and> recovery_usable now c) (recovery_codes t))"

section \<open>Codes sent by mail\<close>

definition email_code_live :: "instant \<Rightarrow> email_2fa_code \<Rightarrow> bool" where
  "email_code_live now c \<longleftrightarrow> ec_used_at c = None \<and> now < ec_expires_at c"

definition latest_first :: "email_2fa_code list \<Rightarrow> email_2fa_code list" where
  "latest_first cs = sort_key (\<lambda>c. - ec_created_at c) cs"

definition unused_of :: "uuid \<Rightarrow> email_2fa_code list \<Rightarrow> email_2fa_code list" where
  "unused_of u cs = filter (\<lambda>c. ec_user_id c = u \<and> ec_used_at c = None) cs"

text \<open>The nil identifier stands for no survivor; no row has it.\<close>

definition drop_older_codes :: "uuid \<Rightarrow> tables \<Rightarrow> tables" where
  "drop_older_codes u t =
     (let keep = (case latest_first (unused_of u (email_2fa_codes t)) of [] \<Rightarrow> 0 | c # _ \<Rightarrow> ec_id c)
      in t\<lparr>email_2fa_codes := filter (\<lambda>c. \<not> (ec_user_id c = u \<and> ec_used_at c = None \<and> ec_id c \<noteq> keep))
             (email_2fa_codes t)\<rparr>)"

definition replace_active_in_tx :: "executor \<Rightarrow> uuid \<Rightarrow> bytes \<Rightarrow> instant \<Rightarrow> (sql_error, uuid) svc" where
  "replace_active_in_tx tx u h expires =
     seq (db_write tx (\<lambda>_ t. ((), drop_older_codes u t)))
     (bnd fresh_uuid (\<lambda>i.
      db_stmt tx (\<lambda>now t. checked (refers_to_user (Some u) t) ''email_2fa_codes_user_id_fkey'' i
        (t\<lparr>email_2fa_codes := email_2fa_codes t @
            [\<lparr>ec_id = i, ec_user_id = u, ec_code_hash = h, ec_created_at = now, ec_expires_at = expires,
              ec_used_at = None\<rparr>]\<rparr>) t)))"

definition email_code_create :: "uuid \<Rightarrow> bytes \<Rightarrow> instant \<Rightarrow> (sql_error, uuid) svc" where
  "email_code_create u h expires = in_tx (\<lambda>e. e) (\<lambda>tx. replace_active_in_tx tx u h expires)"

definition hd_opt :: "'a list \<Rightarrow> 'a option" where
  "hd_opt xs = (case xs of [] \<Rightarrow> None | x # _ \<Rightarrow> Some x)"

definition email_find_active_by_user :: "uuid \<Rightarrow> (sql_error, email_2fa_code option) svc" where
  "email_find_active_by_user u =
     db_read Pool (\<lambda>now t. hd_opt (latest_first
       (filter (\<lambda>c. ec_user_id c = u \<and> email_code_live now c) (email_2fa_codes t))))"

definition find_active_by_user_and_hash :: "uuid \<Rightarrow> bytes list \<Rightarrow> (sql_error, email_2fa_code option) svc" where
  "find_active_by_user_and_hash u hashes =
     db_read Pool (\<lambda>now t. hd_opt (latest_first
       (filter (\<lambda>c. ec_user_id c = u \<and> ec_code_hash c \<in> set hashes \<and> email_code_live now c) (email_2fa_codes t))))"

text \<open>The first statement returns the owner of the code it marked.\<close>

definition use_code :: "uuid \<Rightarrow> instant \<Rightarrow> tables \<Rightarrow> uuid option \<times> tables" where
  "use_code i now t =
     (let P = (\<lambda>c. ec_id c = i \<and> email_code_live now c)
      in (map_option ec_user_id (find P (email_2fa_codes t)),
          t\<lparr>email_2fa_codes := update_where P (\<lambda>c. c\<lparr>ec_used_at := Some now\<rparr>) (email_2fa_codes t)\<rparr>))"

definition use_other_codes :: "uuid \<Rightarrow> instant \<Rightarrow> tables \<Rightarrow> tables" where
  "use_other_codes u now t =
     t\<lparr>email_2fa_codes := update_where (\<lambda>c. ec_user_id c = u \<and> ec_used_at c = None)
         (\<lambda>c. c\<lparr>ec_used_at := Some now\<rparr>) (email_2fa_codes t)\<rparr>"

text \<open>Leaving early drops the transaction: nothing was written in it.\<close>

definition email_code_consume :: "uuid \<Rightarrow> (sql_error, bool) svc" where
  "email_code_consume i =
     early (in_tx Inr (\<lambda>tx.
       bnd (map_err Inr (db_write tx (\<lambda>now t. use_code i now t))) (\<lambda>owner.
       case owner of
         None \<Rightarrow> throw (Inl False)
       | Some u \<Rightarrow> seq (map_err Inr (db_write tx (\<lambda>now t. ((), use_other_codes u now t)))) (ret True))))"

section \<open>A TOTP code is accepted once\<close>

definition totp_held :: "uuid \<Rightarrow> bytes \<Rightarrow> instant \<Rightarrow> tables \<Rightarrow> bool" where
  "totp_held u h since t \<longleftrightarrow>
     list_ex (\<lambda>c. ut_user_id c = u \<and> ut_code_hash c = h \<and> since \<le> ut_used_at c) (used_totp_codes t)"

lemma totp_held_used: "totp_held u h since t \<Longrightarrow> totp_code_used u h t"
  by (auto simp: totp_held_def totp_code_used_def list_ex_iff)

lemma totp_held_purge:
  "totp_held u h since t \<Longrightarrow> now \<le> since + seconds TOTP_REPLAY_WINDOW_SECS \<Longrightarrow> totp_held u h since (purge_totp v now t)"
  by (fastforce simp: totp_held_def purge_totp_def list_ex_iff)

lemma totp_held_insert:
  "totp_held u h since t \<Longrightarrow> insert_totp v g now t = (r, t') \<Longrightarrow>
   totp_held u h since t' \<and> (v = u \<and> g = h \<longrightarrow> r \<noteq> Inr 1)"
  using totp_held_used [of u h since t]
  by (auto simp: insert_totp_def totp_held_def split: if_splits)

lemma insert_totp_holds:
  "insert_totp u h now t = (Inr 1, t') \<Longrightarrow> since \<le> now \<Longrightarrow> totp_held u h since t'"
  by (auto simp: insert_totp_def totp_held_def split: if_splits)

lemma try_consume_keeps_held:
  assumes "totp_held u h since (tables w)" "now \<le> since + seconds TOTP_REPLAY_WINDOW_SECS"
  shows "wp (try_consume_totp_code v g now)
           (\<lambda>b w'. totp_held u h since (tables w') \<and> (v = u \<and> g = h \<longrightarrow> \<not> b))
           (\<lambda>_ w'. totp_held u h since (tables w')) w"
  using assms totp_held_insert [OF totp_held_purge [OF assms], of v g now]
  by (auto simp: try_consume_totp_code_def wp_in_tx wp_simps wp_db_stmt Let_def totp_held_purge
      split: outcome.split sum.split prod.split)

lemma try_consume_holds:
  assumes "since \<le> now"
  shows "wp (try_consume_totp_code u h now) (\<lambda>b w'. b \<longrightarrow> totp_held u h since (tables w')) (\<lambda>_ _. True) w"
  using assms
  by (auto simp: try_consume_totp_code_def wp_in_tx wp_simps wp_db_stmt Let_def insert_totp_holds
      split: outcome.split sum.split prod.split)

definition totp_call :: "uuid \<times> bytes \<times> instant \<Rightarrow> (sql_error, bool) svc" where
  "totp_call c = (case c of (u, h, now) \<Rightarrow> try_consume_totp_code u h now)"

text \<open>C12: In a history of attempts on TOTP codes, by any accounts, with any failures of
  the database (a refused statement, a lost commit), whose clock readings lie in a span of
  \<^verbatim>\<open>TOTP_REPLAY_WINDOW_SECS\<close>, a code of an account is accepted at most once.\<close>

theorem totp_code_accepted_once:
  assumes "\<forall>(v, g, now) \<in> set calls. since \<le> now \<and> now \<le> since + seconds TOTP_REPLAY_WINDOW_SECS"
    and "i < j" "j < length calls" "calls ! i = (u, h, m)" "calls ! j = (u, h, n)"
    and "fst (history totp_call calls w) ! i = Inr True"
  shows "fst (history totp_call calls w) ! j \<noteq> Inr True"
proof -
  let ?P = "\<lambda>c r. fst c = u \<and> fst (snd c) = h \<and> r = Inr True"
  have "\<not> ?P (calls ! j) (fst (history totp_call calls w) ! j)"
  proof (rule history_once [where I = "\<lambda>w. totp_held u h since (tables w)" and J = "\<lambda>_. True"])
    fix c w
    assume c: "c \<in> set calls"
    obtain v g now where [simp]: "c = (v, g, now)"
      by (cases c) auto
    have time: "since \<le> now" "now \<le> since + seconds TOTP_REPLAY_WINDOW_SECS"
      using assms(1) c by auto
    show "totp_held u h since (tables (snd (totp_call c w)))" if "?P c (fst (totp_call c w))"
      using try_consume_holds [OF time(1), of v g w] that
      by (auto simp: totp_call_def wp_def split: prod.splits)
    show "totp_held u h since (tables (snd (totp_call c w))) \<and> \<not> ?P c (fst (totp_call c w))"
      if "totp_held u h since (tables w)"
      using try_consume_keeps_held [OF that time(2), of v g]
      by (auto simp: totp_call_def wp_def split: prod.splits sum.splits)
  next
    show "?P (calls ! i) (fst (history totp_call calls w) ! i)"
      by (simp only: assms fst_conv snd_conv simp_thms)
  qed (rule TrueI assms)+
  then show ?thesis
    using assms(5) by simp
qed

definition demo_calls :: "(uuid \<times> bytes \<times> instant) list" where
  "demo_calls = [(u_id demo_user, replicate 32 1, 0), (u_id demo_user, replicate 32 1, 5)]"

lemma demo_first_accepted: "fst (history totp_call demo_calls (initial_world demo_tables)) ! 0 = Inr True"
  by code_simp

theorem totp_code_accepted_once_witness:
  "fst (history totp_call demo_calls (initial_world demo_tables)) ! 0 = Inr True \<and>
   fst (history totp_call demo_calls (initial_world demo_tables)) ! 1 \<noteq> Inr True"
  using totp_code_accepted_once [of demo_calls 0 0 1 "u_id demo_user" "replicate 32 1" 0 5 "initial_world demo_tables"]
    demo_first_accepted
  by (simp add: demo_calls_def TOTP_REPLAY_WINDOW_SECS_def MAX_TOTP_SKEW_def seconds_def ns_per_sec_def)

section \<open>A recovery code is spent once\<close>

text \<open>
  How the table of recovery codes may change: a used code stays used, a row that
  was not there has a fresh identifier.
\<close>

definition rc_evolves :: "world \<Rightarrow> world \<Rightarrow> bool" where
  "rc_evolves w w' \<longleftrightarrow>
     later w w' \<and>
     (\<forall>c' \<in> set (recovery_codes (tables w')).
        (\<exists>c \<in> set (recovery_codes (tables w)). rc_id c = rc_id c' \<and> (rc_used_at c \<noteq> None \<longrightarrow> rc_used_at c' \<noteq> None)) \<or>
        uuids w \<le> rc_id c' \<and> rc_id c' < uuids w')"

lemma rc_evolves_trans: "rc_evolves u v \<Longrightarrow> rc_evolves v w \<Longrightarrow> rc_evolves u w"
proof -
  assume uv: "rc_evolves u v" and vw: "rc_evolves v w"
  have order: "later u w" "uuids u \<le> uuids v" "uuids v \<le> uuids w"
    using uv vw lt.trans by (auto simp: rc_evolves_def later_def)
  show ?thesis
    unfolding rc_evolves_def
  proof (intro conjI ballI order(1))
    fix c''
    assume c'': "c'' \<in> set (recovery_codes (tables w))"
    show "(\<exists>c \<in> set (recovery_codes (tables u)). rc_id c = rc_id c'' \<and> (rc_used_at c \<noteq> None \<longrightarrow> rc_used_at c'' \<noteq> None)) \<or>
        uuids u \<le> rc_id c'' \<and> rc_id c'' < uuids w"
    proof (cases "uuids v \<le> rc_id c'' \<and> rc_id c'' < uuids w")
      case False
      then obtain c' where "c' \<in> set (recovery_codes (tables v))" "rc_id c' = rc_id c''"
        "rc_used_at c' \<noteq> None \<longrightarrow> rc_used_at c'' \<noteq> None"
        using vw c'' by (auto simp: rc_evolves_def)
      then show ?thesis
        using uv order unfolding rc_evolves_def by (metis less_le_trans)
    qed (use order in simp)
  qed
qed

interpretation rcs: db_relation rc_evolves
proof
  show "rc_evolves w w" for w
    by (auto simp: rc_evolves_def later_def)
  show "rc_evolves w w'" if "same_db w w'" for w w'
    using that by (auto simp: rc_evolves_def same_db_def)
  show "later w w'" if "rc_evolves w w'" for w w'
    using that by (simp add: rc_evolves_def)
qed (rule rc_evolves_trans)

lemma rc_evolves_subset:
  "set (recovery_codes t) \<subseteq> set (recovery_codes (tables w)) \<Longrightarrow> rc_evolves w (w\<lparr>tables := t\<rparr>)"
  by (auto simp: rc_evolves_def later_def)

lemma keeps_rc_consume: "keeps rc_evolves (rc_consume i)"
  unfolding rc_consume_def
  by (rule rcs.keeps_stmt)
    (auto simp: put_recovery_def checked_def rc_evolves_def later_def update_where_def Let_def split: if_splits)

lemma keeps_rc_delete: "keeps rc_evolves (rc_delete_all_by_user ex u)"
  unfolding rc_delete_all_by_user_def by (rule rcs.keeps_write) (auto intro!: rc_evolves_subset)

lemma wp_fresh_uuids [wp_simps]:
  "wp (fresh_uuids n) Q E w = Q [uuids w ..< uuids w + n] (w\<lparr>uuids := uuids w + n\<rparr>)"
proof (induction n arbitrary: w Q)
  case (Suc n)
  have "[uuids w ..< uuids w + Suc n] = uuids w # [Suc (uuids w) ..< Suc (uuids w) + n]"
    by (simp only: upt_conv_Cons less_add_Suc1 add_Suc_right add_Suc)
  then show ?case
    by (simp add: Suc.IH wp_simps del: upt_Suc)
qed (simp add: wp_simps)

lemma recovery_rows_ids:
  "c \<in> set (recovery_rows is u codes expires now) \<Longrightarrow> rc_id c \<in> set is"
  by (auto simp: recovery_rows_def dest: set_zip_leftD)

lemma keeps_insert_batch: "keeps rc_evolves (insert_batch_in_tx tx u codes expires)"
proof -
  have new: "rc_evolves w ((tick w)\<lparr>uuids := uuids w + n, tables := (tables w)\<lparr>recovery_codes :=
      recovery_codes (tables w) @ recovery_rows [uuids w ..< uuids w + n] u codes expires now\<rparr>\<rparr>)" for w n now
    by (auto simp: rc_evolves_def later_def dest!: recovery_rows_ids)
  have idle: "rc_evolves w ((tick w)\<lparr>uuids := uuids w + n\<rparr>)" for w n
    by (rule rcs.same_db_within) (simp add: same_db_def later_def)
  show ?thesis
    unfolding keeps_iff_wp
    by (simp add: insert_batch_in_tx_def wp_simps wp_db_stmt put_recovery_def checked_def new idle
        split: outcome.split)
qed

lemma keeps_rc_batches:
  "keeps rc_evolves (rc_create_batch u codes expires)"
  "keeps rc_evolves (replace_all_by_user u codes expires)"
  unfolding rc_create_batch_def replace_all_by_user_def replace_all_in_tx_def
  by (intro rcs.keeps_in_tx rcs.keeps_seq keeps_insert_batch keeps_rc_delete)+

datatype rc_op =
    RcConsume uuid
  | RcCreate uuid "(int \<times> bytes) list" "instant option"
  | RcReplace uuid "(int \<times> bytes) list" "instant option"
  | RcDelete uuid

fun rc_call :: "rc_op \<Rightarrow> (sql_error, bool) svc" where
  "rc_call (RcConsume i) = rc_consume i"
| "rc_call (RcCreate u codes expires) = seq (rc_create_batch u codes expires) (ret False)"
| "rc_call (RcReplace u codes expires) = seq (replace_all_by_user u codes expires) (ret False)"
| "rc_call (RcDelete u) = seq (rc_delete_all_by_user Pool u) (ret False)"

lemma keeps_rc_call: "keeps rc_evolves (rc_call c)"
  by (cases c) (simp_all add: keeps_rc_consume keeps_rc_batches keeps_rc_delete rcs.keeps_seq rcs.keeps_ret)

definition rc_ids_known :: "world \<Rightarrow> bool" where
  "rc_ids_known w \<longleftrightarrow> list_all (\<lambda>c. rc_id c < uuids w) (recovery_codes (tables w))"

definition rc_spent :: "uuid \<Rightarrow> world \<Rightarrow> bool" where
  "rc_spent i w \<longleftrightarrow> i < uuids w \<and> list_all (\<lambda>c. rc_id c = i \<longrightarrow> rc_used_at c \<noteq> None) (recovery_codes (tables w))"

lemma rc_ids_known_stays: "rc_evolves w w' \<Longrightarrow> rc_ids_known w \<Longrightarrow> rc_ids_known w'"
  by (fastforce simp: rc_evolves_def rc_ids_known_def later_def list_all_iff)

lemma rc_spent_stays: "rc_evolves w w' \<Longrightarrow> rc_spent i w \<Longrightarrow> rc_spent i w'"
  by (fastforce simp: rc_evolves_def rc_spent_def later_def list_all_iff)

lemma rc_consume_spent:
  "rc_spent i w \<Longrightarrow> wp (rc_consume i) (\<lambda>b _. \<not> b) (\<lambda>_ _. True) w"
  by (auto simp: rc_consume_def wp_db_stmt put_recovery_def checked_def Let_def rc_spent_def
      list_all_iff recovery_usable_def filter_empty_conv split: outcome.split if_splits)

lemma rc_consume_spends:
  assumes "rc_ids_known w"
  shows "wp (rc_consume i) (\<lambda>b w'. b \<longrightarrow> rc_spent i w') (\<lambda>_ _. True) w"
proof -
  let ?cs = "recovery_codes (tables w)"
  let ?P = "\<lambda>c. rc_id c = i \<and> recovery_usable (stmt_now Pool (tick w)) c"
  let ?rows = "update_where ?P (\<lambda>c. c\<lparr>rc_used_at := Some (stmt_now Pool (tick w))\<rparr>) ?cs"
  have "i < uuids w \<and> list_all (\<lambda>c. rc_id c = i \<longrightarrow> rc_used_at c \<noteq> None) ?rows"
    if one: "length (filter ?P ?cs) = 1" and ok: "recovery_ok ?rows"
  proof -
    have "filter ?P ?cs \<noteq> []"
      using one by auto
    then obtain c where c: "c \<in> set ?cs" "?P c"
      by (auto simp: filter_empty_conv)
    have "map rc_id ?rows = map rc_id ?cs"
      by (simp add: update_where_def)
    then have "inj_on rc_id (set ?cs)"
      using ok by (simp add: recovery_ok_def distinct_map)
    then have "c' = c" if "c' \<in> set ?cs" "rc_id c' = i" for c'
      using that c by (auto dest: inj_onD)
    then show ?thesis
      using c assms by (auto simp: update_where_def list_all_iff rc_ids_known_def)
  qed
  then show ?thesis
    by (simp add: rc_consume_def wp_db_stmt put_recovery_def checked_def Let_def rc_spent_def split: outcome.split)
qed

text \<open>C24: Over any history of the operations on recovery codes (spending, regenerating,
  deleting), with any failures of the database, spending a code by its identifier succeeds at
  most once.\<close>

theorem recovery_code_spent_once:
  assumes "rc_ids_known w" "i < j" "j < length calls" "calls ! i = RcConsume k" "calls ! j = RcConsume k"
    and "fst (history rc_call calls w) ! i = Inr True"
  shows "fst (history rc_call calls w) ! j \<noteq> Inr True"
proof -
  let ?P = "\<lambda>c r. c = RcConsume k \<and> r = Inr True"
  have "\<not> ?P (calls ! j) (fst (history rc_call calls w) ! j)"
  proof (rule history_once [where I = "rc_spent k" and J = rc_ids_known])
    fix c w
    have step: "rc_evolves w (snd (rc_call c w))"
      by (rule keepsD [OF keeps_rc_call])
    show "rc_ids_known (snd (rc_call c w))" if "rc_ids_known w"
      using rc_ids_known_stays step that by blast
    show "rc_spent k (snd (rc_call c w))" if "rc_ids_known w" "?P c (fst (rc_call c w))"
      using rc_consume_spends [OF that(1), of k] that(2) by (auto simp: wp_def split: prod.splits)
    show "rc_spent k (snd (rc_call c w)) \<and> \<not> ?P c (fst (rc_call c w))" if "rc_spent k w"
      using rc_spent_stays [OF step that] rc_consume_spent [OF that]
      by (auto simp: wp_def split: prod.splits)
  next
    show "?P (calls ! i) (fst (history rc_call calls w) ! i)"
      by (simp only: assms simp_thms)
  qed (fact assms)+
  then show ?thesis
    using assms(5) by simp
qed

definition demo_recovery_calls :: "rc_op list" where
  "demo_recovery_calls = [RcCreate 1 [(1, replicate 32 5)] None, RcConsume 1000, RcConsume 1000]"

lemma demo_recovery_spent:
  "fst (history rc_call demo_recovery_calls (initial_world demo_tables)) ! 1 = Inr True"
  by code_simp

theorem recovery_code_spent_once_witness:
  "fst (history rc_call demo_recovery_calls (initial_world demo_tables)) ! 1 = Inr True \<and>
   fst (history rc_call demo_recovery_calls (initial_world demo_tables)) ! 2 \<noteq> Inr True"
  using recovery_code_spent_once [of "initial_world demo_tables" 1 2 demo_recovery_calls 1000] demo_recovery_spent
  by (simp add: demo_recovery_calls_def rc_ids_known_def initial_world_def demo_defs)

section \<open>Codes sent by mail\<close>

definition email_codes_known :: "world \<Rightarrow> bool" where
  "email_codes_known w \<longleftrightarrow>
     0 < uuids w \<and> list_all (\<lambda>c. 0 < ec_id c \<and> ec_id c < uuids w) (email_2fa_codes (tables w)) \<and>
     distinct (map ec_id (email_2fa_codes (tables w)))"

definition two_codes_at_most :: "world \<Rightarrow> bool" where
  "two_codes_at_most w \<longleftrightarrow> (\<forall>u. length (unused_of u (email_2fa_codes (tables w))) \<le> 2)"

lemma unused_of_update:
  "length (unused_of v (update_where P (\<lambda>c. c\<lparr>ec_used_at := Some now\<rparr>) cs)) \<le> length (unused_of v cs)"
  by (induction cs) (auto simp: unused_of_def update_where_def)

lemma drop_older_keeps_one:
  assumes "distinct (map ec_id (email_2fa_codes t))"
  shows "length (unused_of u (email_2fa_codes (drop_older_codes u t))) \<le> 1"
proof -
  let ?keep = "case latest_first (unused_of u (email_2fa_codes t)) of [] \<Rightarrow> 0 | c # _ \<Rightarrow> ec_id c"
  have "unused_of u (email_2fa_codes (drop_older_codes u t)) =
      filter (\<lambda>c. ec_id c = ?keep) (unused_of u (email_2fa_codes t))"
    by (auto simp: unused_of_def drop_older_codes_def Let_def intro: filter_cong)
  moreover have "distinct (map ec_id (unused_of u (email_2fa_codes t)))"
    using assms by (simp add: unused_of_def distinct_map_filter)
  ultimately show ?thesis
    by (simp only: length_filter_key_le_1)
qed

lemma drop_older_others:
  "v \<noteq> u \<Longrightarrow> unused_of v (email_2fa_codes (drop_older_codes u t)) = unused_of v (email_2fa_codes t)"
  by (auto simp: unused_of_def drop_older_codes_def Let_def intro: filter_cong)

lemma drop_older_distinct:
  "distinct (map ec_id (email_2fa_codes t)) \<Longrightarrow> distinct (map ec_id (email_2fa_codes (drop_older_codes u t)))"
  by (simp add: drop_older_codes_def Let_def distinct_map_filter)

lemma drop_older_subset: "set (email_2fa_codes (drop_older_codes u t)) \<subseteq> set (email_2fa_codes t)"
  by (auto simp: drop_older_codes_def Let_def)

definition code_row :: "uuid \<Rightarrow> uuid \<Rightarrow> bytes \<Rightarrow> instant \<Rightarrow> instant \<Rightarrow> email_2fa_code" where
  "code_row i u h now expires =
     \<lparr>ec_id = i, ec_user_id = u, ec_code_hash = h, ec_created_at = now, ec_expires_at = expires, ec_used_at = None\<rparr>"

lemma new_code_bounded:
  assumes "distinct (map ec_id (email_2fa_codes t))" "\<forall>v. length (unused_of v (email_2fa_codes t)) \<le> 2"
  shows "length (unused_of v (email_2fa_codes (drop_older_codes u t) @ [code_row i u h now expires])) \<le> 2"
proof (cases "v = u")
  case True
  then show ?thesis
    using drop_older_keeps_one [OF assms(1), of u] by (simp add: unused_of_def code_row_def)
next
  case False
  then show ?thesis
    using drop_older_others [OF False, of t] assms(2) by (simp add: unused_of_def code_row_def)
qed

lemma email_code_create_ok:
  assumes "email_codes_known w" "two_codes_at_most w"
  shows "wp (email_code_create u h expires)
    (\<lambda>_ w'. email_codes_known w' \<and> two_codes_at_most w') (\<lambda>_ w'. email_codes_known w' \<and> two_codes_at_most w') w"
proof -
  let ?t = "drop_older_codes u (tables w)"
  have facts: "distinct (map ec_id (email_2fa_codes ?t))"
    "\<forall>c \<in> set (email_2fa_codes ?t). 0 < ec_id c \<and> ec_id c < uuids w"
    using assms(1) drop_older_distinct drop_older_subset [of u "tables w"]
    by (auto simp: email_codes_known_def list_all_iff)
  have bound: "length (unused_of v (email_2fa_codes ?t @ [code_row i u h now expires])) \<le> 2" for v i now
    using new_code_bounded assms by (simp add: email_codes_known_def two_codes_at_most_def)
  have unknown: "uuids w \<notin> ec_id ` set (email_2fa_codes ?t)"
    using facts(2) by auto
  have less: "0 < ec_id c" "ec_id c < Suc (uuids w)" if "c \<in> set (email_2fa_codes ?t)" for c
    using facts(2) that by auto
  have before: "0 < uuids w" "list_all (\<lambda>c. 0 < ec_id c \<and> ec_id c < Suc (uuids w)) (email_2fa_codes (tables w))"
    using assms(1) by (auto simp: email_codes_known_def list_all_iff less_SucI)
  show ?thesis
    using assms bound [unfolded code_row_def] facts(1) unknown less before
    by (simp add: email_code_create_def replace_active_in_tx_def wp_in_tx wp_simps wp_db_stmt checked_def Let_def
        email_codes_known_def two_codes_at_most_def list_all_iff split: outcome.split)
qed

lemma use_codes_keep:
  "map ec_id (email_2fa_codes (snd (use_code i now t))) = map ec_id (email_2fa_codes t)"
  "map ec_id (email_2fa_codes (use_other_codes u now t)) = map ec_id (email_2fa_codes t)"
  "length (unused_of v (email_2fa_codes (snd (use_code i now t)))) \<le> length (unused_of v (email_2fa_codes t))"
  "length (unused_of v (email_2fa_codes (use_other_codes u now t))) \<le> length (unused_of v (email_2fa_codes t))"
  by (simp_all add: use_code_def use_other_codes_def Let_def map_update_where unused_of_update)

lemma use_other_codes_none: "unused_of u (email_2fa_codes (use_other_codes u now t)) = []"
proof -
  let ?P = "\<lambda>c. ec_user_id c = u \<and> ec_used_at c = None"
  have "\<not> ?P c" if c: "c \<in> set (update_where ?P (\<lambda>c. c\<lparr>ec_used_at := Some now\<rparr>) (email_2fa_codes t))" for c
  proof
    assume "?P c"
    then have "c \<in> (\<lambda>c. c\<lparr>ec_used_at := Some now\<rparr>) ` {r \<in> set (email_2fa_codes t). ?P r}"
      using c unfolding set_update_where by blast
    then obtain r where "c = r\<lparr>ec_used_at := Some now\<rparr>"
      by (rule imageE)
    then show False
      using \<open>?P c\<close> by simp
  qed
  then show ?thesis
    by (simp add: unused_of_def use_other_codes_def filter_empty_conv)
qed

lemma email_known_ids:
  "email_codes_known w \<longleftrightarrow> 0 < uuids w \<and> (\<forall>i \<in> set (map ec_id (email_2fa_codes (tables w))). 0 < i \<and> i < uuids w) \<and>
     distinct (map ec_id (email_2fa_codes (tables w)))"
  by (auto simp: email_codes_known_def list_all_iff)

lemma email_code_consume_ok:
  assumes "email_codes_known w" "two_codes_at_most w"
  shows "wp (email_code_consume i)
    (\<lambda>_ w'. email_codes_known w' \<and> two_codes_at_most w') (\<lambda>_ w'. email_codes_known w' \<and> two_codes_at_most w') w"
proof -
  have less: "length (unused_of v (email_2fa_codes (use_other_codes u now' (snd (use_code i now (tables w)))))) \<le> 2"
    for v u now now'
    using use_codes_keep(3,4) assms(2) order_trans unfolding two_codes_at_most_def by meson
  show ?thesis
    using assms less
    by (simp add: email_code_consume_def wp_in_tx wp_simps Let_def email_known_ids two_codes_at_most_def
        use_codes_keep(1,2) del: set_map split: outcome.split option.split sum.split)
qed

lemma email_code_consume_ends:
  "wp (email_code_consume i) (\<lambda>b w'. b \<longrightarrow> (\<exists>c \<in> set (email_2fa_codes (tables w')). ec_id c = i \<and>
     unused_of (ec_user_id c) (email_2fa_codes (tables w')) = [])) (\<lambda>_ _. True) w"
proof -
  have "\<exists>c \<in> set (email_2fa_codes t'). ec_id c = i \<and> unused_of (ec_user_id c) (email_2fa_codes t') = []"
    if owner: "fst (use_code i now t) = Some u" and t': "t' = use_other_codes u now' (snd (use_code i now t))"
    for u now now' t t'
  proof -
    obtain c where c: "c \<in> set (email_2fa_codes t)" "ec_id c = i" "ec_user_id c = u" "ec_used_at c = None"
      "now < ec_expires_at c"
      using owner by (auto simp: use_code_def Let_def email_code_live_def dest!: find_Some_set)
    then have "c\<lparr>ec_used_at := Some now\<rparr> \<in> set (email_2fa_codes t')"
      unfolding t' by (force simp: use_code_def use_other_codes_def update_where_def email_code_live_def Let_def)
    then show ?thesis
      using c t' use_other_codes_none by (intro bexI [of _ "c\<lparr>ec_used_at := Some now\<rparr>"]) simp_all
  qed
  then show ?thesis
    by (simp add: email_code_consume_def wp_in_tx wp_simps Let_def split: outcome.split option.split sum.split)
qed

datatype ec_op = EcCreate uuid bytes instant | EcConsume uuid

fun ec_call :: "ec_op \<Rightarrow> (sql_error, bool) svc" where
  "ec_call (EcCreate u h expires) = seq (email_code_create u h expires) (ret False)"
| "ec_call (EcConsume i) = email_code_consume i"

lemma ec_call_ok:
  "email_codes_known w \<Longrightarrow> two_codes_at_most w \<Longrightarrow>
   email_codes_known (snd (ec_call c w)) \<and> two_codes_at_most (snd (ec_call c w))"
proof (cases c)
  case (EcCreate u h expires)
  assume "email_codes_known w" "two_codes_at_most w"
  then show ?thesis
    using email_code_create_ok [of w u h expires] EcCreate
    by (cases "email_code_create u h expires w") (simp add: wp_def seq_def bnd_def ret_def split: sum.splits)
next
  case (EcConsume i)
  assume "email_codes_known w" "two_codes_at_most w"
  then show ?thesis
    using email_code_consume_ok [of w i] EcConsume
    by (cases "email_code_consume i w") (simp add: wp_def split: sum.splits)
qed


definition demo_email_calls :: "ec_op list" where
  "demo_email_calls = [EcCreate 1 (replicate 32 1) 50, EcCreate 1 (replicate 32 2) 60, EcCreate 1 (replicate 32 3) 70]"


section \<open>Removing a factor\<close>

text \<open>Sign-in asks for the primary method only: an account with a verified method is
  covered when it has a primary one.\<close>

definition covered :: "uuid \<Rightarrow> two_factor_method list \<Rightarrow> bool" where
  "covered u rows \<longleftrightarrow>
     (list_ex (\<lambda>m. tf_user_id m = u \<and> tf_is_verified m) rows \<longrightarrow> list_ex (\<lambda>m. tf_user_id m = u \<and> tf_is_primary m) rows)"

lemma oldest_verified_cases:
  "oldest_verified u rows = None \<Longrightarrow> m \<in> set rows \<Longrightarrow> tf_user_id m = u \<Longrightarrow> \<not> tf_is_verified m"
  "oldest_verified u rows = Some p \<Longrightarrow> p \<in> set rows \<and> tf_user_id p = u"
proof -
  let ?s = "sort_key tf_created_at (filter (\<lambda>m. tf_user_id m = u \<and> tf_is_verified m) rows)"
  have set: "set ?s = {m \<in> set rows. tf_user_id m = u \<and> tf_is_verified m}"
    by simp
  show "\<not> tf_is_verified m" if "oldest_verified u rows = None" "m \<in> set rows" "tf_user_id m = u"
  proof -
    have "?s = []"
      using that(1) unfolding oldest_verified_def by (cases ?s) simp_all
    then have "{m \<in> set rows. tf_user_id m = u \<and> tf_is_verified m} = {}"
      unfolding set [symmetric] by (simp only: list.set)
    then show ?thesis
      using that(2,3) by blast
  qed
  show "p \<in> set rows \<and> tf_user_id p = u" if "oldest_verified u rows = Some p"
  proof -
    have "p \<in> set ?s"
      using that unfolding oldest_verified_def by (cases ?s) simp_all
    then show ?thesis
      using set by blast
  qed
qed

lemma promote_covers: "covered u (promote_oldest u rows)"
proof (cases "oldest_verified u rows")
  case None
  then show ?thesis
    using oldest_verified_cases(1) by (auto simp: promote_oldest_def covered_def list_ex_iff)
next
  case (Some p)
  then have "p\<lparr>tf_is_primary := True\<rparr> \<in> set (promote_oldest u rows)" "tf_user_id p = u"
    using oldest_verified_cases(2) [OF Some] by (auto simp: promote_oldest_def set_update_where)
  then show ?thesis
    unfolding covered_def list_ex_iff by (intro impI bexI [of _ "p\<lparr>tf_is_primary := True\<rparr>"]) simp_all
qed

lemma promote_keeps_covered:
  assumes "covered v rows" shows "covered v (promote_oldest u rows)"
proof -
  have "list_ex (\<lambda>m. tf_user_id m = v \<and> tf_is_verified m) (update_where P (\<lambda>m. m\<lparr>tf_is_primary := True\<rparr>) rows) =
      list_ex (\<lambda>m. tf_user_id m = v \<and> tf_is_verified m) rows" for P
    by (induction rows) (auto simp: update_where_def)
  moreover have "list_ex (\<lambda>m. tf_user_id m = v \<and> tf_is_primary m) rows \<Longrightarrow>
      list_ex (\<lambda>m. tf_user_id m = v \<and> tf_is_primary m) (update_where P (\<lambda>m. m\<lparr>tf_is_primary := True\<rparr>) rows)" for P
    by (induction rows) (auto simp: update_where_def)
  ultimately show ?thesis
    using assms by (simp add: covered_def promote_oldest_def split: option.split)
qed

lemma delete_other_covered:
  assumes "covered v rows" "distinct (map tf_id rows)" "find P rows = Some m" "\<And>x. P x \<Longrightarrow> tf_id x = tf_id m"
    and "tf_is_primary m \<Longrightarrow> tf_user_id m \<noteq> v"
  shows "covered v (filter (\<lambda>x. \<not> P x) rows)"
proof -
  have m: "m \<in> set rows"
    using assms(3) find_Some_set by metis
  have "\<not> P x" if x: "x \<in> set rows" "tf_user_id x = v" "tf_is_primary x" for x
    using distinct_key_eq [OF assms(2) x(1) m] assms(4,5) x by blast
  then show ?thesis
    using assms(1) unfolding covered_def list_ex_iff by auto
qed

lemma filter_none_found: "find P xs = None \<Longrightarrow> filter (\<lambda>x. \<not> P x) xs = xs"
  by (auto simp: find_None_iff filter_id_conv)

text \<open>C26: Removing a method leaves every account covered: when a verified method remains, the
  account still has a primary one, so its sign-in keeps asking for a second factor; and the
  recovery codes go exactly with the last verified method.\<close>

theorem removal_keeps_covered:
  assumes "methods_ok (two_factor_methods (tables w))" "covered v (two_factor_methods (tables w))"
    and "remove_method tx i u ty w = (Inr r, w')"
  shows "covered v (two_factor_methods (tables w')) \<and>
    (case r of
       None \<Rightarrow> two_factor_methods (tables w') = two_factor_methods (tables w) \<and>
               recovery_codes (tables w') = recovery_codes (tables w)
     | Some x \<Rightarrow> rm_remaining_verified x = count_verified u (two_factor_methods (tables w')) \<and>
         recovery_codes (tables w') =
           (if rm_remaining_verified x = 0 then filter (\<lambda>c. rc_user_id c \<noteq> u) (recovery_codes (tables w))
            else recovery_codes (tables w)))"
proof -
  let ?rows = "two_factor_methods (tables w)"
  let ?P = "\<lambda>m. tf_id m = i \<and> tf_user_id m = u \<and> tf_method_type m = ty"
  let ?rest = "filter (\<lambda>m. \<not> ?P m) ?rows"
  have none: "find ?P ?rows = None \<Longrightarrow> ?rest = ?rows"
    by (rule filter_none_found)
  have "covered v ?rest" if "find ?P ?rows = Some m" "tf_is_primary m \<Longrightarrow> v \<noteq> u" for m
    by (rule delete_other_covered [OF assms(2) _ that(1)])
      (use assms(1) that find_Some_set [OF that(1)] in \<open>auto simp: methods_ok_def\<close>)
  then have kept: "covered v ?rest" if "find ?P ?rows = Some m" "\<not> tf_is_primary m \<or> v \<noteq> u" for m
    using that by blast
  have promoted: "covered v (promote_oldest u ?rest)" if "find ?P ?rows = Some m" for m
    using kept [OF that] promote_covers promote_keeps_covered by (cases "v = u") auto
  have "wp (remove_method tx i u ty)
    (\<lambda>r w'. covered v (two_factor_methods (tables w')) \<and>
      (case r of
         None \<Rightarrow> two_factor_methods (tables w') = ?rows \<and> recovery_codes (tables w') = recovery_codes (tables w)
       | Some x \<Rightarrow> rm_remaining_verified x = count_verified u (two_factor_methods (tables w')) \<and>
         recovery_codes (tables w') =
           (if rm_remaining_verified x = 0 then filter (\<lambda>c. rc_user_id c \<noteq> u) (recovery_codes (tables w))
            else recovery_codes (tables w)))) (\<lambda>_ _. True) w"
    using assms(2) none kept promoted
    by (simp add: remove_method_def delete_method_def wp_simps wp_db_stmt put_methods_def checked_def Let_def
        split: outcome.split option.split)
  then show ?thesis
    using assms(3) by (rule wp_ok)
qed

definition demo_methods :: tables where
  "demo_methods = demo_tables\<lparr>two_factor_methods :=
     [\<lparr>tf_id = 5, tf_user_id = 1, tf_created_at = 0, tf_method_type = Totp, tf_is_primary = True,
       tf_is_verified = True, tf_totp_secret = Some ''s''\<rparr>,
      \<lparr>tf_id = 6, tf_user_id = 1, tf_created_at = 1, tf_method_type = Email, tf_is_primary = False,
       tf_is_verified = True, tf_totp_secret = None\<rparr>]\<rparr>"

lemma demo_removal:
  "fst (remove_method (Tx 2) 5 1 Totp (initial_world demo_methods)) =
     Inr (Some \<lparr>rm_was_primary = True, rm_remaining_verified = 1\<rparr>)"
  by code_simp

theorem removal_keeps_covered_witness:
  "covered 1 (two_factor_methods (tables (snd (remove_method (Tx 2) 5 1 Totp (initial_world demo_methods)))))"
  using removal_keeps_covered [of "initial_world demo_methods" 1 "Tx 2" 5 1 Totp
      "Some \<lparr>rm_was_primary = True, rm_remaining_verified = 1\<rparr>"
      "snd (remove_method (Tx 2) 5 1 Totp (initial_world demo_methods))"] demo_removal
  by (simp add: methods_ok_def method_checks_def covered_def initial_world_def demo_methods_def prod_eq_iff)

end
