(* ===== verification/Accounts_Repo.thy ===== *)
theory Accounts_Repo
  imports Factors_Repo Session_Machine
begin

text \<open>
  The rest of the accounts: the writes of \<^verbatim>\<open>repositories/user.rs\<close> with the
  constraints of \<^verbatim>\<open>migrations/0002_users.sql\<close>, the reservations of usernames, and what
  the account holds besides its password (factors, passkeys, external identities, tokens).
\<close>

section \<open>Constraints of the accounts\<close>

definition locale_format :: "string \<Rightarrow> bool" where
  "locale_format s \<longleftrightarrow>
     (case s of
        [a, b] \<Rightarrow> ascii_lower a \<and> ascii_lower b
      | [a, b, u, c, d] \<Rightarrow> ascii_lower a \<and> ascii_lower b \<and> u = CHR ''_'' \<and> ascii_upper c \<and> ascii_upper d
      | _ \<Rightarrow> False)"

definition email_format :: "string \<Rightarrow> bool" where
  "email_format email \<longleftrightarrow>
     (case split_once (CHR ''@'') email of
        None \<Rightarrow> False
      | Some (local, domain) \<Rightarrow>
         (case rsplit_once (CHR ''.'') domain of
            None \<Rightarrow> False
          | Some (host, tld) \<Rightarrow>
              local \<noteq> [] \<and> list_all (\<lambda>b. ascii_alphanumeric b \<or> b \<in> set ''._%+-'') local \<and>
              host \<noteq> [] \<and> list_all (\<lambda>b. ascii_alphanumeric b \<or> b \<in> set ''.-'') host \<and>
              2 \<le> length tld \<and> list_all ascii_alphabetic tld))"

definition username_format :: "string \<Rightarrow> bool" where
  "username_format s \<longleftrightarrow> 3 \<le> length s \<and> length s \<le> 50 \<and> is_valid_username s"

definition user_checks :: "user \<Rightarrow> bool" where
  "user_checks u \<longleftrightarrow>
     username_format (u_username u) \<and> locale_format (u_preferred_locale u) \<and> email_format (u_email u) \<and>
     40 \<le> length (u_password_hash u) \<and>
     (u_status u = PendingVerification \<longleftrightarrow> u_email_verified_at u = None)"

definition emails_unique :: "user list \<Rightarrow> bool" where
  "emails_unique rows \<longleftrightarrow> distinct (map (\<lambda>u. lower (u_email u)) rows)"

definition usernames_unique :: "user list \<Rightarrow> bool" where
  "usernames_unique rows \<longleftrightarrow> distinct (map (\<lambda>u. lower (u_username u)) rows)"

text \<open>A write checks the rows it writes and the unique indexes, in their order.\<close>

definition put_users :: "user list \<Rightarrow> 'a \<Rightarrow> user list \<Rightarrow> tables \<Rightarrow> (sql_error + 'a) \<times> tables" where
  "put_users written x rows t =
     (if \<not> list_all user_checks written then (Inl (ConstraintViolation ''users_check''), t)
      else if \<not> emails_unique rows then (Inl (ConstraintViolation ''users_email_key''), t)
      else if \<not> usernames_unique rows then (Inl (ConstraintViolation ''users_username_lower_key''), t)
      else (Inr x, t\<lparr>users := rows\<rparr>))"

definition write_users :: "(user \<Rightarrow> bool) \<Rightarrow> (user \<Rightarrow> user) \<Rightarrow> tables \<Rightarrow> (sql_error + nat) \<times> tables" where
  "write_users P f t =
     put_users (map f (filter P (users t))) (length (filter P (users t))) (update_where P f (users t)) t"

section \<open>Accounts\<close>

record new_user =
  nu_username :: string
  nu_email :: string
  nu_password_hash :: string
  nu_preferred_locale :: string

definition user_row :: "uuid \<Rightarrow> instant \<Rightarrow> new_user \<Rightarrow> user" where
  "user_row i now n =
     \<lparr>u_id = i, u_created_at = now, u_email_verified_at = None, u_last_login_at = None, u_locked_until = None,
      u_lockout_cleared_at = None, u_status = PendingVerification, u_preferred_locale = nu_preferred_locale n,
      u_username = nu_username n, u_email = nu_email n, u_password_hash = nu_password_hash n\<rparr>"

definition user_create :: "executor \<Rightarrow> new_user \<Rightarrow> (sql_error, user) svc" where
  "user_create ex n =
     bnd fresh_uuid (\<lambda>i.
     db_stmt ex (\<lambda>now t. let row = user_row i now n in put_users [row] row (users t @ [row]) t))"

definition update_password_hash :: "executor \<Rightarrow> uuid \<Rightarrow> string \<Rightarrow> (sql_error, unit) svc" where
  "update_password_hash ex i h =
     seq (db_stmt ex (\<lambda>_ t. write_users (\<lambda>u. u_id u = i) (\<lambda>u. u\<lparr>u_password_hash := h\<rparr>) t)) (ret ())"

definition update_username :: "executor \<Rightarrow> uuid \<Rightarrow> string \<Rightarrow> (sql_error, unit) svc" where
  "update_username ex i name =
     seq (db_stmt ex (\<lambda>_ t. write_users (\<lambda>u. u_id u = i) (\<lambda>u. u\<lparr>u_username := name\<rparr>) t)) (ret ())"

definition update_locale :: "uuid \<Rightarrow> string \<Rightarrow> (sql_error, unit) svc" where
  "update_locale i loc =
     seq (db_stmt Pool (\<lambda>_ t. write_users (\<lambda>u. u_id u = i) (\<lambda>u. u\<lparr>u_preferred_locale := loc\<rparr>) t)) (ret ())"

definition email_taken :: "executor \<Rightarrow> string \<Rightarrow> uuid \<Rightarrow> (sql_error, bool) svc" where
  "email_taken ex email except =
     db_read ex (\<lambda>_ t. list_ex (\<lambda>u. lower (u_email u) = lower email \<and> u_id u \<noteq> except) (users t))"

definition change_email :: "executor \<Rightarrow> uuid \<Rightarrow> string \<Rightarrow> (sql_error, unit) svc" where
  "change_email ex i email =
     seq (db_stmt ex (\<lambda>now t. write_users (\<lambda>u. u_id u = i)
       (\<lambda>u. u\<lparr>u_email := email, u_email_verified_at := Some now\<rparr>) t)) (ret ())"

definition mark_email_verified :: "executor \<Rightarrow> uuid \<Rightarrow> (sql_error, unit) svc" where
  "mark_email_verified ex i =
     seq (db_stmt ex (\<lambda>now t. write_users (\<lambda>u. u_id u = i)
       (\<lambda>u. u\<lparr>u_email_verified_at := Some now,
               u_status := (if u_status u = PendingVerification then UserActive else u_status u)\<rparr>) t)) (ret ())"

definition username_held :: "string \<Rightarrow> uuid \<Rightarrow> tables \<Rightarrow> bool" where
  "username_held name except t \<longleftrightarrow> list_ex (\<lambda>o'. lower (u_username o') = lower name \<and> u_id o' \<noteq> except) (users t)"

definition adopt_credentials :: "tables \<Rightarrow> pending_credentials \<Rightarrow> user \<Rightarrow> user" where
  "adopt_credentials t c u =
     u\<lparr>u_password_hash := pc_password_hash c, u_preferred_locale := pc_preferred_locale c,
        u_username := (if username_held (pc_username c) (u_id u) t then u_username u else pc_username c)\<rparr>"

definition adopt_pending_credentials :: "executor \<Rightarrow> uuid \<Rightarrow> pending_credentials \<Rightarrow> (sql_error, unit) svc" where
  "adopt_pending_credentials ex i c =
     seq (db_stmt ex (\<lambda>_ t. write_users (\<lambda>u. u_id u = i \<and> u_status u = PendingVerification)
       (adopt_credentials t c) t)) (ret ())"

definition verify_if_pending :: "executor \<Rightarrow> uuid \<Rightarrow> (sql_error, bool) svc" where
  "verify_if_pending ex i =
     bnd (db_stmt ex (\<lambda>now t. write_users (\<lambda>u. u_id u = i \<and> u_status u = PendingVerification)
       (\<lambda>u. u\<lparr>u_email_verified_at := Some now, u_status := UserActive\<rparr>) t)) (\<lambda>n. ret (n = 1))"

definition suspend :: "executor \<Rightarrow> uuid \<Rightarrow> (sql_error, bool) svc" where
  "suspend ex i =
     bnd (db_stmt ex (\<lambda>_ t. write_users (\<lambda>u. u_id u = i \<and> (u_status u = UserActive \<or> u_status u = Inactive))
       (\<lambda>u. u\<lparr>u_status := Suspended\<rparr>) t)) (\<lambda>n. ret (n = 1))"

definition reactivate :: "executor \<Rightarrow> uuid \<Rightarrow> (sql_error, bool) svc" where
  "reactivate ex i =
     bnd (db_stmt ex (\<lambda>_ t. write_users (\<lambda>u. u_id u = i \<and> (u_status u = Suspended \<or> u_status u = Inactive))
       (\<lambda>u. u\<lparr>u_status := UserActive\<rparr>) t)) (\<lambda>n. ret (n = 1))"

definition clear_lockout :: "executor \<Rightarrow> uuid \<Rightarrow> (sql_error, unit) svc" where
  "clear_lockout ex i =
     seq (db_stmt ex (\<lambda>now t. write_users (\<lambda>u. u_id u = i)
       (\<lambda>u. u\<lparr>u_locked_until := None, u_lockout_cleared_at := Some now\<rparr>) t)) (ret ())"

text \<open>\<^verbatim>\<open>SELECT ... FOR UPDATE\<close>: taken in a sequential model, it only reads.\<close>

definition lock_row :: "executor \<Rightarrow> uuid \<Rightarrow> (sql_error, unit) svc" where
  "lock_row ex i = db_read ex (\<lambda>_ _. ())"

section \<open>Reserved usernames\<close>

definition username_unavailable :: "string \<Rightarrow> (sql_error, bool) svc" where
  "username_unavailable name =
     db_read Pool (\<lambda>now t.
       list_ex (\<lambda>u. lower (u_username u) = lower name) (users t) \<or>
       list_ex (\<lambda>r. lower (rv_username r) = lower name \<and> now < rv_expires_at r) (username_reservations t))"

definition insert_reservation :: "string \<Rightarrow> uuid \<Rightarrow> instant \<Rightarrow> tables \<Rightarrow> (sql_error + unit) \<times> tables" where
  "insert_reservation name account expires_at t =
     (if \<not> username_format name \<or> \<not> refers_to_user (Some account) t
      then (Inl (ConstraintViolation ''username_reservations''), t)
      else if list_ex (\<lambda>r. lower (rv_username r) = lower name) (username_reservations t) then (Inr (), t)
      else (Inr (), t\<lparr>username_reservations := username_reservations t @
              [\<lparr>rv_username = name, rv_expires_at = expires_at, rv_reserved_for = account\<rparr>]\<rparr>))"

definition reserve_username :: "string \<Rightarrow> uuid \<Rightarrow> instant \<Rightarrow> (sql_error, unit) svc" where
  "reserve_username name account expires_at =
     in_tx (\<lambda>e. e) (\<lambda>tx.
       seq (db_write tx (\<lambda>_ t. ((), t\<lparr>username_reservations :=
              filter (\<lambda>r. rv_reserved_for r \<noteq> account) (username_reservations t)\<rparr>)))
       (db_stmt tx (\<lambda>_ t. insert_reservation name account expires_at t)))"

definition latest_registration :: "uuid \<Rightarrow> tables \<Rightarrow> email_verification_token option" where
  "latest_registration i t =
     (case rev (sort_key ev_created_at
        (filter (\<lambda>v. ev_user_id v = i \<and> ev_username v \<noteq> None \<and> ev_used_at v = None) (email_verification_tokens t))) of
        [] \<Rightarrow> None | v # _ \<Rightarrow> Some v)"

definition adopt_latest_registration_identity :: "executor \<Rightarrow> uuid \<Rightarrow> (sql_error, unit) svc" where
  "adopt_latest_registration_identity ex i =
     seq (db_stmt ex (\<lambda>_ t.
       case latest_registration i t of
         Some v \<Rightarrow>
           (case (ev_username v, ev_preferred_locale v) of
              (Some name, Some loc) \<Rightarrow>
                write_users (\<lambda>u. u_id u = i \<and> u_status u = PendingVerification \<and> \<not> username_held name i t)
                  (\<lambda>u. u\<lparr>u_username := name, u_preferred_locale := loc\<rparr>) t
            | _ \<Rightarrow> (Inr 0, t))
       | None \<Rightarrow> (Inr 0, t))) (ret ())"

section \<open>Other ways in\<close>

definition has_second_factor :: "executor \<Rightarrow> uuid \<Rightarrow> (sql_error, bool) svc" where
  "has_second_factor ex i =
     db_read ex (\<lambda>_ t. list_ex (\<lambda>m. tf_user_id m = i \<and> tf_is_verified m) (two_factor_methods t) \<or>
       list_ex (\<lambda>k. pk_user_id k = i) (passkeys t))"

definition without_access_factors :: "uuid \<Rightarrow> tables \<Rightarrow> tables" where
  "without_access_factors i t =
     t\<lparr>two_factor_methods := filter (\<lambda>m. tf_user_id m \<noteq> i) (two_factor_methods t),
       recovery_codes := filter (\<lambda>c. rc_user_id c \<noteq> i) (recovery_codes t),
       passkeys := filter (\<lambda>k. pk_user_id k \<noteq> i) (passkeys t),
       external_identities := filter (\<lambda>e. ei_user_id e \<noteq> i) (external_identities t),
       personal_access_tokens := filter (\<lambda>p. pt_user_id p \<noteq> i) (personal_access_tokens t)\<rparr>"

definition drop_access_factors :: "executor \<Rightarrow> uuid \<Rightarrow> (sql_error, unit) svc" where
  "drop_access_factors ex i = db_write ex (\<lambda>_ t. ((), without_access_factors i t))"

datatype kept_factor = KeptMethod uuid | KeptPasskey uuid

text \<open>The oldest recent second factor, where no older one exists.\<close>

definition recent_factors :: "uuid \<Rightarrow> instant \<Rightarrow> tables \<Rightarrow> (instant \<times> kept_factor) list" where
  "recent_factors i since t =
     map (\<lambda>m. (tf_created_at m, KeptMethod (tf_id m)))
       (filter (\<lambda>m. tf_user_id m = i \<and> tf_is_verified m \<and> since < tf_created_at m) (two_factor_methods t)) @
     map (\<lambda>k. (pk_created_at k, KeptPasskey (pk_id k)))
       (filter (\<lambda>k. pk_user_id k = i \<and> since < pk_created_at k) (passkeys t))"

definition older_factor :: "uuid \<Rightarrow> instant \<Rightarrow> tables \<Rightarrow> bool" where
  "older_factor i since t \<longleftrightarrow>
     list_ex (\<lambda>m. tf_user_id m = i \<and> tf_is_verified m \<and> tf_created_at m \<le> since) (two_factor_methods t) \<or>
     list_ex (\<lambda>k. pk_user_id k = i \<and> pk_created_at k \<le> since) (passkeys t)"

definition factor_kept :: "uuid \<Rightarrow> instant \<Rightarrow> tables \<Rightarrow> kept_factor option" where
  "factor_kept i since t =
     (if older_factor i since t then None
      else case sort_key fst (recent_factors i since t) of [] \<Rightarrow> None | x # _ \<Rightarrow> Some (snd x))"

definition removed_methods :: "uuid \<Rightarrow> instant \<Rightarrow> kept_factor option \<Rightarrow> two_factor_method \<Rightarrow> bool" where
  "removed_methods i since kept m \<longleftrightarrow>
     tf_user_id m = i \<and> since < tf_created_at m \<and> kept \<noteq> Some (KeptMethod (tf_id m))"

definition removed_passkeys :: "uuid \<Rightarrow> instant \<Rightarrow> kept_factor option \<Rightarrow> passkey \<Rightarrow> bool" where
  "removed_passkeys i since kept k \<longleftrightarrow>
     pk_user_id k = i \<and> since < pk_created_at k \<and> kept \<noteq> Some (KeptPasskey (pk_id k))"

definition removed_identities :: "uuid \<Rightarrow> instant \<Rightarrow> external_identity \<Rightarrow> bool" where
  "removed_identities i since e \<longleftrightarrow> ei_user_id e = i \<and> since < ei_created_at e"

fun two_factor_type_text :: "two_factor_type \<Rightarrow> string" where
  "two_factor_type_text Totp = ''totp''"
| "two_factor_type_text Email = ''email''"

definition ensure_primary :: "uuid \<Rightarrow> two_factor_method list \<Rightarrow> two_factor_method list" where
  "ensure_primary i rows =
     (if list_ex (\<lambda>m. tf_user_id m = i \<and> tf_is_primary m) rows then rows else promote_oldest i rows)"

definition drop_access_factors_since ::
  "executor \<Rightarrow> uuid \<Rightarrow> instant \<Rightarrow> bool \<Rightarrow> (sql_error, (string \<times> string) list) svc" where
  "drop_access_factors_since tx i since keep =
     bnd (if keep then db_read tx (\<lambda>_ t. factor_kept i since t) else ret None) (\<lambda>kept.
     bnd (db_write tx (\<lambda>_ t.
       (map (\<lambda>m. (two_factor_type_text (tf_method_type m), [])) (filter (removed_methods i since kept) (two_factor_methods t)),
        t\<lparr>two_factor_methods := filter (\<lambda>m. \<not> removed_methods i since kept m) (two_factor_methods t)\<rparr>))) (\<lambda>ms.
     bnd (db_write tx (\<lambda>_ t.
       (map (\<lambda>k. (''passkey'', pk_name k)) (filter (removed_passkeys i since kept) (passkeys t)),
        t\<lparr>passkeys := filter (\<lambda>k. \<not> removed_passkeys i since kept k) (passkeys t)\<rparr>))) (\<lambda>ks.
     bnd (db_write tx (\<lambda>_ t.
       (map (\<lambda>e. (''identity'', ei_provider e)) (filter (removed_identities i since) (external_identities t)),
        t\<lparr>external_identities := filter (\<lambda>e. \<not> removed_identities i since e) (external_identities t)\<rparr>))) (\<lambda>es.
     seq (db_stmt tx (\<lambda>_ t. put_methods () (ensure_primary i (two_factor_methods t)) t))
     (seq (db_write tx (\<lambda>_ t. ((),
        if list_ex (\<lambda>m. tf_user_id m = i \<and> tf_is_verified m) (two_factor_methods t) then t
        else t\<lparr>recovery_codes := filter (\<lambda>c. rc_user_id c \<noteq> i) (recovery_codes t)\<rparr>)))
     (ret (ms @ ks @ es)))))))"

definition passkey_find_by_user :: "uuid \<Rightarrow> (sql_error, passkey list) svc" where
  "passkey_find_by_user i =
     db_read Pool (\<lambda>_ t. sort_key pk_created_at (filter (\<lambda>k. pk_user_id k = i) (passkeys t)))"

definition identity_find_by_user :: "uuid \<Rightarrow> (sql_error, external_identity list) svc" where
  "identity_find_by_user i =
     db_read Pool (\<lambda>_ t. sort_key ei_created_at (filter (\<lambda>e. ei_user_id e = i) (external_identities t)))"

definition pat_active :: "instant \<Rightarrow> uuid \<Rightarrow> tables \<Rightarrow> personal_access_token \<Rightarrow> bool" where
  "pat_active now i t p \<longleftrightarrow>
     pt_user_id p = i \<and> now < pt_expires_at p \<and>
     (case find_session (pt_session_id p) t of None \<Rightarrow> False | Some s \<Rightarrow> s_revoked_at s = None)"

definition pat_find_active_by_user :: "uuid \<Rightarrow> (sql_error, personal_access_token list) svc" where
  "pat_find_active_by_user i =
     db_read Pool (\<lambda>now t. rev (sort_key pt_created_at (filter (pat_active now i t) (personal_access_tokens t))))"

section \<open>Deleting an account\<close>

definition the_none :: "uuid \<Rightarrow> uuid option \<Rightarrow> uuid option" where
  "the_none i r = (if r = Some i then None else r)"

text \<open>\<^verbatim>\<open>DELETE FROM users\<close> with the foreign keys: the rows of the account go, its
  audit entries and the grants it made stay without its identifier.\<close>

definition delete_user :: "uuid \<Rightarrow> tables \<Rightarrow> (sql_error + unit) \<times> tables" where
  "delete_user i t =
     (let gone = map s_id (filter (\<lambda>s. s_user_id s = i) (sessions t)) in
      case delete_sessions gone t of
        (Inl e, _) \<Rightarrow> (Inl e, t)
      | (Inr _, t1) \<Rightarrow>
         (Inr (), (without_access_factors i t1)
           \<lparr>users := filter (\<lambda>u. u_id u \<noteq> i) (users t1),
            used_totp_codes := filter (\<lambda>c. ut_user_id c \<noteq> i) (used_totp_codes t1),
            email_2fa_codes := filter (\<lambda>c. ec_user_id c \<noteq> i) (email_2fa_codes t1),
            known_devices := filter (\<lambda>d. kd_user_id d \<noteq> i) (known_devices t1),
            email_verification_tokens := filter (\<lambda>v. ev_user_id v \<noteq> i) (email_verification_tokens t1),
            password_reset_tokens := filter (\<lambda>v. pr_user_id v \<noteq> i) (password_reset_tokens t1),
            magic_link_tokens := filter (\<lambda>v. ml_user_id v \<noteq> i) (magic_link_tokens t1),
            username_reservations := filter (\<lambda>r. rv_reserved_for r \<noteq> i) (username_reservations t1),
            authorization_codes := map (\<lambda>c. if (\<exists>s \<in> set gone. ac_session_id c = Some s) then c\<lparr>ac_session_id := None\<rparr> else c)
              (filter (\<lambda>c. ac_user_id c \<noteq> i) (authorization_codes t1)),
            personal_access_tokens := filter (\<lambda>p. pt_user_id p \<noteq> i \<and> pt_session_id p \<notin> set gone) (personal_access_tokens t1),
            user_roles := map (\<lambda>r. r\<lparr>ur_granted_by := the_none i (ur_granted_by r)\<rparr>)
              (filter (\<lambda>r. ur_user_id r \<noteq> i) (user_roles t1)),
            login_attempts := map (\<lambda>a. a\<lparr>la_user_id := the_none i (la_user_id a)\<rparr>) (login_attempts t1),
            audit_log := map (\<lambda>a. a\<lparr>au_user_id := the_none i (au_user_id a)\<rparr>) (audit_log t1)\<rparr>))"

definition user_delete :: "executor \<Rightarrow> uuid \<Rightarrow> (sql_error, unit) svc" where
  "user_delete ex i = db_stmt ex (\<lambda>_ t. delete_user i t)"

definition forget_account_traces :: "uuid \<Rightarrow> tables \<Rightarrow> (sql_error + unit) \<times> tables" where
  "forget_account_traces i t =
     (case find_user i t of
        None \<Rightarrow> (Inl SqlFailed, t)
      | Some u \<Rightarrow>
          delete_user i
            (t\<lparr>audit_log := update_where (\<lambda>a. au_user_id a = Some i) (\<lambda>a. a\<lparr>au_ip_address := None\<rparr>) (audit_log t),
               login_attempts := filter (\<lambda>a. la_user_id a \<noteq> Some i \<and>
                 \<not> (\<not> la_successful a \<and> lower (la_identifier a) \<in> {lower (u_email u), lower (u_username u)})) (login_attempts t)\<rparr>))"

definition erase :: "executor \<Rightarrow> uuid \<Rightarrow> (sql_error, unit) svc" where
  "erase ex i = db_stmt ex (\<lambda>_ t. case forget_account_traces i t of (Inl e, _) \<Rightarrow> (Inl e, t) | r \<Rightarrow> r)"

section \<open>Frames\<close>

lemma keeps_factor_reads [frame_intros]:
  "keeps same_db (tf_find_by_user u)" "keeps same_db (tf_find_by_id_and_user i u)"
  "keeps same_db (find_primary_by_user u)" "keeps same_db (find_unused_by_user u)"
  "keeps same_db (count_usable_by_user u)" "keeps same_db (rc_find_by_hash h)"
  "keeps same_db (email_find_active_by_user u)" "keeps same_db (find_active_by_user_and_hash u hs)"
  "keeps same_db (tf_find_by_type u ty)" "keeps same_db (tf_find_all_by_type u ty)" "keeps same_db find_all_totp_secrets"
  by (simp_all add: tf_find_by_user_def tf_find_by_id_and_user_def find_primary_by_user_def find_unused_by_user_def
      count_usable_by_user_def rc_find_by_hash_def email_find_active_by_user_def find_active_by_user_and_hash_def
      tf_find_by_type_def tf_find_all_by_type_def find_all_totp_secrets_def keeps_db_read)

lemma keeps_account_reads [frame_intros]:
  "keeps same_db (email_taken ex s i)" "keeps same_db (has_second_factor ex i)" "keeps same_db (username_unavailable s)"
  "keeps same_db (passkey_find_by_user i)" "keeps same_db (identity_find_by_user i)" "keeps same_db (pat_find_active_by_user i)"
  "keeps same_db (lock_row ex i)"
  by (simp_all add: email_taken_def has_second_factor_def username_unavailable_def passkey_find_by_user_def
      identity_find_by_user_def pat_find_active_by_user_def lock_row_def keeps_db_read)

lemma keeps_fresh_uuids [frame_intros]: "keeps same_db (fresh_uuids n)"
  by (induction n) (auto intro!: sd.keeps_intros frame_intros)

lemma put_frames:
  "(\<And>t x. f (t\<lparr>two_factor_methods := x\<rparr>) = f t) \<Longrightarrow> f (snd (put_methods y rows t)) = f t"
  "(\<And>t x. f (t\<lparr>recovery_codes := x\<rparr>) = f t) \<Longrightarrow> f (snd (put_recovery z codes t)) = f t"
  "(\<And>t x. f (t\<lparr>users := x\<rparr>) = f t) \<Longrightarrow> f (snd (put_users written v us t)) = f t"
  "(\<And>t x. f (t\<lparr>users := x\<rparr>) = f t) \<Longrightarrow> f (snd (write_users P g t)) = f t"
  by (simp_all add: put_methods_def put_recovery_def write_users_def put_users_def checked_def)

text \<open>What the writes of the second factors leave alone: everything but their tables.\<close>

lemma keeps_factor_writes:
  assumes [simp]: "\<And>t x. f (t\<lparr>two_factor_methods := x\<rparr>) = f t" "\<And>t x. f (t\<lparr>recovery_codes := x\<rparr>) = f t"
    "\<And>t x. f (t\<lparr>used_totp_codes := x\<rparr>) = f t" "\<And>t x. f (t\<lparr>email_2fa_codes := x\<rparr>) = f t"
  shows "keeps (same_of f) (tf_create u ty secret)" "keeps (same_of f) (replace_pending u ty secret)"
    "keeps (same_of f) (mark_verified i)" "keeps (same_of f) (set_primary i u)"
    "keeps (same_of f) (remove_method ex i u ty)" "keeps (same_of f) (replace_totp_secret i old new)"
    "keeps (same_of f) (try_consume_totp_code u h now)" "keeps (same_of f) (rc_consume i)"
    "keeps (same_of f) (replace_all_by_user u codes expires)" "keeps (same_of f) (email_code_create u h at)"
    "keeps (same_of f) (email_code_consume i)"
  unfolding tf_create_def replace_pending_def mark_verified_def set_primary_def remove_method_def replace_totp_secret_def
    try_consume_totp_code_def rc_consume_def replace_all_by_user_def replace_all_in_tx_def insert_batch_in_tx_def
    rc_delete_all_by_user_def email_code_create_def replace_active_in_tx_def email_code_consume_def
  by (auto intro!: so.keeps_in_tx so.keeps_intros keeps_same_of_stmt keeps_same_of_write frame_intros [THEN so.keeps_same_db]
      simp: Let_def put_frames checked_def insert_totp_def purge_totp_def delete_method_def drop_older_codes_def use_code_def
        use_other_codes_def)

lemmas factor_frame [session_frame] = keeps_factor_writes [where f = sessions, simplified]

text \<open>The writes of an account, likewise.\<close>

lemma keeps_account_writes:
  assumes [simp]: "\<And>t x. f (t\<lparr>users := x\<rparr>) = f t" "\<And>t x. f (t\<lparr>username_reservations := x\<rparr>) = f t"
  shows "keeps (same_of f) (user_create ex n)" "keeps (same_of f) (update_password_hash ex i h)"
    "keeps (same_of f) (update_username ex i name)" "keeps (same_of f) (update_locale i loc)"
    "keeps (same_of f) (change_email ex i email)" "keeps (same_of f) (mark_email_verified ex i)"
    "keeps (same_of f) (adopt_pending_credentials ex i c)" "keeps (same_of f) (verify_if_pending ex i)"
    "keeps (same_of f) (suspend ex i)" "keeps (same_of f) (reactivate ex i)" "keeps (same_of f) (clear_lockout ex i)"
    "keeps (same_of f) (reserve_username name i at)" "keeps (same_of f) (adopt_latest_registration_identity ex i)"
  unfolding user_create_def update_password_hash_def update_username_def update_locale_def change_email_def
    mark_email_verified_def adopt_pending_credentials_def verify_if_pending_def suspend_def reactivate_def clear_lockout_def
    reserve_username_def adopt_latest_registration_identity_def
  by (auto intro!: so.keeps_in_tx so.keeps_intros keeps_same_of_stmt keeps_same_of_write frame_intros [THEN so.keeps_same_db]
      simp: Let_def put_frames insert_reservation_def split: option.split)

lemmas account_frame [session_frame] = keeps_account_writes [where f = sessions, simplified]

lemma keeps_drop_factors:
  assumes [simp]: "\<And>t x. f (t\<lparr>two_factor_methods := x\<rparr>) = f t" "\<And>t x. f (t\<lparr>recovery_codes := x\<rparr>) = f t"
    "\<And>t x. f (t\<lparr>passkeys := x\<rparr>) = f t" "\<And>t x. f (t\<lparr>external_identities := x\<rparr>) = f t"
    "\<And>t x. f (t\<lparr>personal_access_tokens := x\<rparr>) = f t"
  shows "keeps (same_of f) (drop_access_factors ex i)" "keeps (same_of f) (drop_access_factors_since ex i at keep)"
  unfolding drop_access_factors_def drop_access_factors_since_def without_access_factors_def
  by (auto intro!: so.keeps_intros keeps_same_of_stmt keeps_same_of_write frame_intros [THEN so.keeps_same_db]
      simp: Let_def put_frames)

lemmas drop_frame [session_frame] = keeps_drop_factors [where f = sessions, simplified]

text \<open>A reservation past its end but not yet swept keeps the row of its name: a reservation of the
  name for another account succeeds without storing anything, and the name stays available.\<close>

lemma expired_reservation_is_not_replaced:
  assumes "sched w = []" "username_format name" "refers_to_user (Some account) (tables w)"
    and "r \<in> set (username_reservations (tables w))" "lower (rv_username r) = lower name" "rv_reserved_for r \<noteq> account"
    and "\<forall>r \<in> set (username_reservations (tables w)). lower (rv_username r) = lower name \<longrightarrow> rv_expires_at r \<le> db_now w"
    and "\<forall>u \<in> set (users (tables w)). lower (u_username u) \<noteq> lower name"
  shows "fst (reserve_username name account expires_at w) = Inr () \<and>
    fst (username_unavailable name (snd (reserve_username name account expires_at w))) = Inr False"
proof -
  have "list_ex (\<lambda>r. lower (rv_username r) = lower name) (filter (\<lambda>r. rv_reserved_for r \<noteq> account) (username_reservations (tables w)))"
    using assms(4-6) by (auto simp: list_ex_iff)
  moreover have "tick w = w" "next_outcome w = Done"
    using assms(1) by (simp_all add: tick_def next_outcome_def)
  ultimately show ?thesis
    using assms
    by (auto simp: reserve_username_def insert_reservation_def username_unavailable_def in_tx_def db_write_def db_read_def db_stmt_def
        Let_def seq_def bnd_def ret_def tick_def next_outcome_def list_ex_iff refers_to_user_def db_now_def split: prod.splits)
qed

end
