(* ===== verification/Link_Repo.thy ===== *)
theory Link_Repo
  imports Accounts_Repo
begin

text \<open>
  The one-time tokens sent by mail (\<^verbatim>\<open>repositories/token.rs\<close>): verification, password
  reset and sign-in links, with the constraints of \<^verbatim>\<open>migrations/0008_account_tokens.sql\<close>
  and \<^verbatim>\<open>0014_magic_links.sql\<close>. The three tables share their discipline (a link is
  unused until it is marked used, once, and never the other way), so it is stated
  once, in a locale over the accessors of a table.
\<close>

section \<open>Verification links\<close>

record new_email_verification_token =
  nv_user_id :: uuid
  nv_token_hash :: bytes
  nv_expires_at :: instant
  nv_request_ip :: "ipnetwork option"
  nv_request_user_agent :: "string option"
  nv_target_email :: string
  nv_credentials :: "pending_credentials option"

definition verification_row :: "uuid \<Rightarrow> instant \<Rightarrow> new_email_verification_token \<Rightarrow> email_verification_token" where
  "verification_row i now n =
     \<lparr>ev_id = i, ev_user_id = nv_user_id n, ev_token_hash = nv_token_hash n, ev_created_at = now,
      ev_expires_at = nv_expires_at n, ev_used_at = None, ev_request_ip = nv_request_ip n,
      ev_request_user_agent = nv_request_user_agent n, ev_target_email = nv_target_email n,
      ev_password_hash = map_option pc_password_hash (nv_credentials n),
      ev_username = map_option pc_username (nv_credentials n),
      ev_preferred_locale = map_option pc_preferred_locale (nv_credentials n)\<rparr>"

definition verification_checks :: "email_verification_token \<Rightarrow> bool" where
  "verification_checks v \<longleftrightarrow>
     length (ev_token_hash v) = 32 \<and> ev_created_at v < ev_expires_at v \<and> ge_opt (ev_used_at v) (ev_created_at v) \<and>
     email_format (ev_target_email v) \<and>
     (ev_password_hash v = None \<longleftrightarrow> ev_username v = None) \<and> (ev_password_hash v = None \<longleftrightarrow> ev_preferred_locale v = None) \<and>
     (case ev_username v of None \<Rightarrow> True | Some s \<Rightarrow> username_format s) \<and>
     (case ev_preferred_locale v of None \<Rightarrow> True | Some s \<Rightarrow> locale_format s)"

definition create_verification ::
  "executor \<Rightarrow> new_email_verification_token \<Rightarrow> (sql_error, email_verification_token) svc" where
  "create_verification ex n =
     bnd fresh_uuid (\<lambda>i.
     db_stmt ex (\<lambda>now t.
       let row = verification_row i now n in
       checked (verification_checks row \<and> refers_to_user (Some (nv_user_id n)) t \<and>
           nv_token_hash n \<notin> ev_token_hash ` set (email_verification_tokens t)) ''email_verification_tokens'' row
         (t\<lparr>email_verification_tokens := email_verification_tokens t @ [row]\<rparr>) t))"

definition find_verification_by_hash :: "bytes \<Rightarrow> (sql_error, email_verification_token option) svc" where
  "find_verification_by_hash h =
     db_read Pool (\<lambda>_ t. find (\<lambda>v. ev_token_hash v = h) (email_verification_tokens t))"

definition use_verifications ::
  "(email_verification_token \<Rightarrow> bool) \<Rightarrow> instant \<Rightarrow> tables \<Rightarrow> nat \<times> tables" where
  "use_verifications P now t =
     (let Q = (\<lambda>v. P v \<and> ev_used_at v = None) in
      (length (filter Q (email_verification_tokens t)),
       t\<lparr>email_verification_tokens := update_where Q (\<lambda>v. v\<lparr>ev_used_at := Some now\<rparr>) (email_verification_tokens t)\<rparr>))"

definition consume_verification :: "executor \<Rightarrow> uuid \<Rightarrow> (sql_error, bool) svc" where
  "consume_verification ex i =
     bnd (db_write ex (use_verifications (\<lambda>v. ev_id v = i))) (\<lambda>n. ret (n = 1))"

definition revoke_active_verification_by_user :: "executor \<Rightarrow> uuid \<Rightarrow> (sql_error, unit) svc" where
  "revoke_active_verification_by_user ex u =
     seq (db_write ex (use_verifications (\<lambda>v. ev_user_id v = u))) (ret ())"

section \<open>Password resets\<close>

record new_password_reset_token =
  np_user_id :: uuid
  np_token_hash :: bytes
  np_expires_at :: instant
  np_request_ip :: "ipnetwork option"
  np_request_user_agent :: "string option"

definition create_password_reset :: "new_password_reset_token \<Rightarrow> (sql_error, password_reset_token) svc" where
  "create_password_reset n =
     bnd fresh_uuid (\<lambda>i.
     db_stmt Pool (\<lambda>now t.
       let row = \<lparr>pr_id = i, pr_user_id = np_user_id n, pr_token_hash = np_token_hash n, pr_created_at = now,
                  pr_expires_at = np_expires_at n, pr_used_at = None, pr_request_ip = np_request_ip n,
                  pr_request_user_agent = np_request_user_agent n\<rparr> in
       checked (length (np_token_hash n) = 32 \<and> now < np_expires_at n \<and> refers_to_user (Some (np_user_id n)) t \<and>
           np_token_hash n \<notin> pr_token_hash ` set (password_reset_tokens t)) ''password_reset_tokens'' row
         (t\<lparr>password_reset_tokens := password_reset_tokens t @ [row]\<rparr>) t))"

definition find_password_reset_by_hash :: "bytes \<Rightarrow> (sql_error, password_reset_token option) svc" where
  "find_password_reset_by_hash h =
     db_read Pool (\<lambda>_ t. find (\<lambda>v. pr_token_hash v = h) (password_reset_tokens t))"

definition use_resets :: "(password_reset_token \<Rightarrow> bool) \<Rightarrow> instant \<Rightarrow> tables \<Rightarrow> nat \<times> tables" where
  "use_resets P now t =
     (let Q = (\<lambda>v. P v \<and> pr_used_at v = None) in
      (length (filter Q (password_reset_tokens t)),
       t\<lparr>password_reset_tokens := update_where Q (\<lambda>v. v\<lparr>pr_used_at := Some now\<rparr>) (password_reset_tokens t)\<rparr>))"

definition consume_password_reset :: "executor \<Rightarrow> uuid \<Rightarrow> (sql_error, bool) svc" where
  "consume_password_reset ex i =
     bnd (db_write ex (use_resets (\<lambda>v. pr_id v = i))) (\<lambda>n. ret (n = 1))"

definition revoke_active_password_reset_by_user :: "executor \<Rightarrow> uuid \<Rightarrow> (sql_error, unit) svc" where
  "revoke_active_password_reset_by_user ex u =
     seq (db_write ex (use_resets (\<lambda>v. pr_user_id v = u))) (ret ())"

section \<open>Sign-in links\<close>

definition add_magic_link ::
  "uuid \<Rightarrow> bytes \<Rightarrow> instant \<Rightarrow> ipnetwork option \<Rightarrow> string option \<Rightarrow> (sql_error, unit) svc" where
  "add_magic_link u h expires_at ip ua =
     bnd fresh_uuid (\<lambda>i.
     db_stmt Pool (\<lambda>now t.
       let row = \<lparr>ml_id = i, ml_user_id = u, ml_token_hash = h, ml_created_at = now, ml_expires_at = expires_at,
                  ml_used_at = None, ml_request_ip = ip, ml_request_user_agent = ua\<rparr> in
       checked (length h = 32 \<and> now < expires_at \<and> refers_to_user (Some u) t \<and>
           h \<notin> ml_token_hash ` set (magic_link_tokens t)) ''magic_link_tokens'' ()
         (t\<lparr>magic_link_tokens := magic_link_tokens t @ [row]\<rparr>) t))"

definition find_magic_link_by_hash :: "bytes \<Rightarrow> (sql_error, magic_link_token option) svc" where
  "find_magic_link_by_hash h =
     db_read Pool (\<lambda>_ t. find (\<lambda>v. ml_token_hash v = h) (magic_link_tokens t))"

definition use_magic_links :: "(magic_link_token \<Rightarrow> bool) \<Rightarrow> instant \<Rightarrow> tables \<Rightarrow> nat \<times> tables" where
  "use_magic_links P now t =
     (let Q = (\<lambda>v. P v \<and> ml_used_at v = None) in
      (length (filter Q (magic_link_tokens t)),
       t\<lparr>magic_link_tokens := update_where Q (\<lambda>v. v\<lparr>ml_used_at := Some now\<rparr>) (magic_link_tokens t)\<rparr>))"

definition revoke_active_magic_links_by_user :: "executor \<Rightarrow> uuid \<Rightarrow> (sql_error, unit) svc" where
  "revoke_active_magic_links_by_user ex u =
     seq (db_write ex (use_magic_links (\<lambda>v. ml_user_id v = u))) (ret ())"

text \<open>\<^verbatim>\<open>return Ok(false)\<close> before the commit drops the transaction.\<close>

definition consume_magic_link :: "uuid \<Rightarrow> (sql_error, bool) svc" where
  "consume_magic_link i =
     early (in_tx Inr (\<lambda>tx.
       bnd (map_err Inr (db_write tx (\<lambda>now t.
         (map_option ml_user_id (find (\<lambda>v. ml_id v = i \<and> ml_used_at v = None) (magic_link_tokens t)),
          snd (use_magic_links (\<lambda>v. ml_id v = i) now t))))) (\<lambda>owner.
       case owner of
         None \<Rightarrow> throw (Inl False)
       | Some u \<Rightarrow> seq (map_err Inr (revoke_active_magic_links_by_user tx u)) (ret True))))"

definition revoke_mailbox_links :: "executor \<Rightarrow> uuid \<Rightarrow> (sql_error, unit) svc" where
  "revoke_mailbox_links tx u =
     seq (revoke_active_password_reset_by_user tx u) (revoke_active_magic_links_by_user tx u)"

section \<open>A used link stays used\<close>

definition spent_in :: "(tables \<Rightarrow> 'r list) \<Rightarrow> ('r \<Rightarrow> uuid) \<Rightarrow> ('r \<Rightarrow> instant option) \<Rightarrow> uuid \<Rightarrow> world \<Rightarrow> bool" where
  "spent_in rows rid used i w \<longleftrightarrow> i < uuids w \<and> (\<forall>r \<in> set (rows (tables w)). rid r = i \<longrightarrow> used r \<noteq> None)"

text \<open>An unused link was unused before, or is new and has a fresh identifier.\<close>

definition links_evolve ::
  "(tables \<Rightarrow> 'r list) \<Rightarrow> ('r \<Rightarrow> uuid) \<Rightarrow> ('r \<Rightarrow> instant option) \<Rightarrow> world \<Rightarrow> world \<Rightarrow> bool" where
  "links_evolve rows rid used w w' \<longleftrightarrow> later w w' \<and>
     (\<forall>r' \<in> set (rows (tables w')). used r' = None \<longrightarrow>
        (\<exists>r \<in> set (rows (tables w)). rid r = rid r' \<and> used r = None) \<or> uuids w \<le> rid r')"

interpretation le: db_relation "links_evolve rows rid used" for rows :: "tables \<Rightarrow> 'r list" and rid and used
proof
  show "links_evolve rows rid used w w" for w
    by (auto simp: links_evolve_def later_def)
  show "links_evolve rows rid used u w" if "links_evolve rows rid used u v" "links_evolve rows rid used v w" for u v w
  proof -
    have "later u v" "later v w" "uuids u \<le> uuids v"
      using that by (auto simp: links_evolve_def later_def)
    then have "later u w" "uuids u \<le> uuids v"
      using lt.trans by blast+
    moreover have "(\<exists>a \<in> set (rows (tables u)). rid a = rid r \<and> used a = None) \<or> uuids u \<le> rid r"
      if r: "r \<in> set (rows (tables w))" "used r = None" for r
    proof (cases "uuids v \<le> rid r")
      case False
      then obtain b where "b \<in> set (rows (tables v))" "rid b = rid r" "used b = None"
        using \<open>links_evolve rows rid used v w\<close> r unfolding links_evolve_def by blast
      then show ?thesis
        using \<open>links_evolve rows rid used u v\<close> unfolding links_evolve_def by force
    qed (use calculation in simp)
    ultimately show ?thesis
      unfolding links_evolve_def by blast
  qed
  show "links_evolve rows rid used w w'" if "same_db w w'" for w w'
    using that by (auto simp: links_evolve_def same_db_def)
  show "later w w'" if "links_evolve rows rid used w w'" for w w'
    using that by (simp add: links_evolve_def)
qed

lemma keeps_links_same_of: "keeps (same_of rows) m \<Longrightarrow> keeps (links_evolve rows rid used) m"
  by (auto simp: keeps_def same_of_def links_evolve_def)

lemma spent_in_stays: "links_evolve rows rid used w w' \<Longrightarrow> spent_in rows rid used i w \<Longrightarrow> spent_in rows rid used i w'"
  unfolding links_evolve_def spent_in_def later_def by (metis leD order_less_le_trans)

lemma keeps_links_insert:
  assumes "\<And>i now t x t'. g i now t = (Inr x, t') \<Longrightarrow> \<exists>new. rows t' = rows t @ new \<and> (\<forall>r \<in> set new. rid r = i)"
  shows "keeps (links_evolve rows rid used) (bnd fresh_uuid (\<lambda>i. db_stmt ex (g i)))"
  unfolding keeps_iff_wp
proof (intro allI)
  fix w
  have "links_evolve rows rid used w (v\<lparr>tables := t'\<rparr>)"
    if "g (uuids w) now (tables w) = (Inr x, t')" "later w v" for now x t' v
    using assms [OF that(1)] that(2) by (auto simp: links_evolve_def later_def)
  moreover have "later w ((tick w)\<lparr>uuids := Suc (uuids w)\<rparr>)"
    by (simp add: later_def)
  moreover have "links_evolve rows rid used w ((tick w)\<lparr>uuids := Suc (uuids w)\<rparr>)"
    by (rule le.same_db_within) (simp add: same_db_def later_def)
  ultimately show "wp (bnd fresh_uuid (\<lambda>i. db_stmt ex (g i))) (\<lambda>_. links_evolve rows rid used w)
      (\<lambda>_. links_evolve rows rid used w) w"
    by (auto simp: wp_simps wp_db_stmt split: outcome.split prod.split sum.split)
qed

text \<open>What the three tables promise: marking a selection of links used marks exactly the
  unused ones of it and counts them.\<close>

locale link_table =
  fixes rows :: "tables \<Rightarrow> 'r list"
    and rid :: "'r \<Rightarrow> uuid"
    and used :: "'r \<Rightarrow> instant option"
    and use_rows :: "('r \<Rightarrow> bool) \<Rightarrow> instant \<Rightarrow> tables \<Rightarrow> nat \<times> tables"
    and mark :: "instant \<Rightarrow> 'r \<Rightarrow> 'r"
  assumes rows_after: "rows (snd (use_rows P now t)) = update_where (\<lambda>r. P r \<and> used r = None) (mark now) (rows t)"
    and counted: "fst (use_rows P now t) = length (filter (\<lambda>r. P r \<and> used r = None) (rows t))"
    and mark_id: "rid (mark now r) = rid r"
    and mark_used: "used (mark now r) \<noteq> None"
begin

lemma keeps_use: "keeps (links_evolve rows rid used) (db_write ex (use_rows P))"
proof (intro le.keeps_write)
  fix w and now :: instant
  show "links_evolve rows rid used w (w\<lparr>tables := snd (use_rows P now (tables w))\<rparr>)"
    by (auto simp: links_evolve_def later_def rows_after set_update_where mark_id)
qed

lemma use_spends:
  assumes "i < uuids w" "real_now w \<le> real_now v"
  shows "spent_in rows rid used i (w\<lparr>tables := snd (use_rows (\<lambda>r. rid r = i) now t)\<rparr>)"
  using assms mark_used by (auto simp: spent_in_def rows_after set_update_where mark_id)

lemma use_of_spent:
  assumes "spent_in rows rid used i w"
  shows "fst (use_rows (\<lambda>r. rid r = i) now (tables w)) = 0"
  using assms by (auto simp: spent_in_def counted filter_empty_conv)

lemma use_of_known:
  assumes "fst (use_rows (\<lambda>r. rid r = i) now t) = 1"
  shows "\<exists>r \<in> set (rows t). rid r = i \<and> used r = None"
proof -
  have "filter (\<lambda>r. rid r = i \<and> used r = None) (rows t) \<noteq> []"
    using assms by (auto simp: counted)
  then show ?thesis by (auto simp: filter_empty_conv)
qed

lemma consume_once_wp:
  assumes "i < uuids w"
  shows "wp (bnd (db_write ex (use_rows (\<lambda>r. rid r = i))) (\<lambda>n. ret (n = 1)))
    (\<lambda>took w'. spent_in rows rid used i w' \<and> (took \<longrightarrow> \<not> spent_in rows rid used i w)) (\<lambda>_ _. True) w"
  using use_of_spent [of i w] use_spends [of i "tick w" "tick w"] assms
  by (auto simp: wp_simps split: outcome.split)

end

interpretation ev: link_table email_verification_tokens ev_id ev_used_at use_verifications "\<lambda>now v. v\<lparr>ev_used_at := Some now\<rparr>"
  by unfold_locales (simp_all add: use_verifications_def Let_def)

interpretation pr: link_table password_reset_tokens pr_id pr_used_at use_resets "\<lambda>now v. v\<lparr>pr_used_at := Some now\<rparr>"
  by unfold_locales (simp_all add: use_resets_def Let_def)

interpretation ml: link_table magic_link_tokens ml_id ml_used_at use_magic_links "\<lambda>now v. v\<lparr>ml_used_at := Some now\<rparr>"
  by unfold_locales (simp_all add: use_magic_links_def Let_def)

text \<open>The relations the three tables keep, under one name.\<close>

definition mailbox_evolves :: "world \<Rightarrow> world \<Rightarrow> bool" where
  "mailbox_evolves w w' \<longleftrightarrow>
     links_evolve email_verification_tokens ev_id ev_used_at w w' \<and>
     links_evolve password_reset_tokens pr_id pr_used_at w w' \<and>
     links_evolve magic_link_tokens ml_id ml_used_at w w'"

interpretation mb: db_relation mailbox_evolves
proof
  show "mailbox_evolves w w" for w
    by (simp add: mailbox_evolves_def)
  show "mailbox_evolves u w" if "mailbox_evolves u v" "mailbox_evolves v w" for u v w
    using that unfolding mailbox_evolves_def by (auto intro: le.trans)
  show "mailbox_evolves w w'" if "same_db w w'" for w w'
    using that unfolding mailbox_evolves_def by (auto intro: le.same_db_within)
  show "later w w'" if "mailbox_evolves w w'" for w w'
    using that by (simp add: mailbox_evolves_def links_evolve_def)
qed

definition links :: "tables \<Rightarrow> email_verification_token list \<times> password_reset_token list \<times> magic_link_token list" where
  "links t = (email_verification_tokens t, password_reset_tokens t, magic_link_tokens t)"

lemma keeps_mailbox_other: "keeps (same_of links) m \<Longrightarrow> keeps mailbox_evolves m"
  by (auto simp: keeps_def same_of_def mailbox_evolves_def links_evolve_def links_def)

lemma keeps_mailbox_split:
  "keeps (links_evolve email_verification_tokens ev_id ev_used_at) m \<Longrightarrow>
   keeps (links_evolve password_reset_tokens pr_id pr_used_at) m \<Longrightarrow>
   keeps (links_evolve magic_link_tokens ml_id ml_used_at) m \<Longrightarrow> keeps mailbox_evolves m"
  by (simp add: keeps_def mailbox_evolves_def)

lemma keeps_use_mailbox:
  "keeps mailbox_evolves (db_write ex (use_verifications P))"
  "keeps mailbox_evolves (db_write ex (use_resets Q))"
  "keeps mailbox_evolves (db_write ex (use_magic_links R))"
  by (intro keeps_mailbox_split ev.keeps_use pr.keeps_use ml.keeps_use keeps_links_same_of keeps_same_of_write;
      simp add: use_verifications_def use_resets_def use_magic_links_def Let_def)+

lemma keeps_create_links [link_intros]:
  "keeps mailbox_evolves (create_verification ex n)"
  "keeps mailbox_evolves (create_password_reset p)"
  "keeps mailbox_evolves (add_magic_link u h at ip ua)"
  unfolding create_verification_def create_password_reset_def add_magic_link_def
  by (intro keeps_mailbox_split keeps_links_insert; auto simp: Let_def checked_def verification_row_def split: if_splits)+

lemma keeps_consume_links [link_intros]:
  "keeps mailbox_evolves (consume_verification ex i)"
  "keeps mailbox_evolves (revoke_active_verification_by_user ex u)"
  "keeps mailbox_evolves (consume_password_reset ex i)"
  "keeps mailbox_evolves (revoke_active_password_reset_by_user ex u)"
  "keeps mailbox_evolves (revoke_active_magic_links_by_user ex u)"
  "keeps mailbox_evolves (revoke_mailbox_links ex u)"
  unfolding consume_verification_def revoke_active_verification_by_user_def consume_password_reset_def
    revoke_mailbox_links_def revoke_active_password_reset_by_user_def revoke_active_magic_links_by_user_def
  by (intro mb.keeps_intros keeps_use_mailbox)+

lemma keeps_consume_magic_link [link_intros]: "keeps mailbox_evolves (consume_magic_link i)"
proof -
  have "keeps mailbox_evolves (db_write ex (\<lambda>now t. (g t, snd (use_magic_links P now t))))" for ex and g :: "tables \<Rightarrow> uuid option" and P
    by (intro keeps_mailbox_split le.keeps_write keeps_links_same_of keeps_same_of_write)
       (auto simp: use_magic_links_def Let_def links_evolve_def later_def set_update_where)
  then show ?thesis
    unfolding consume_magic_link_def
    by (auto intro!: mb.keeps_intros mb.keeps_in_tx keeps_consume_links split: option.split)
qed

section \<open>Frames\<close>

lemma keeps_link_reads [frame_intros]:
  "keeps same_db (find_verification_by_hash h)" "keeps same_db (find_password_reset_by_hash h)"
  "keeps same_db (find_magic_link_by_hash h)"
  by (simp_all add: find_verification_by_hash_def find_password_reset_by_hash_def find_magic_link_by_hash_def keeps_db_read)

lemma link_writes_frame [session_frame]:
  "keeps (same_of sessions) (create_verification ex n)" "keeps (same_of sessions) (create_password_reset p)"
  "keeps (same_of sessions) (add_magic_link u h at ip ua)" "keeps (same_of sessions) (consume_verification ex i)"
  "keeps (same_of sessions) (revoke_active_verification_by_user ex u)" "keeps (same_of sessions) (consume_password_reset ex i)"
  "keeps (same_of sessions) (revoke_active_password_reset_by_user ex u)" "keeps (same_of sessions) (consume_magic_link i)"
  "keeps (same_of sessions) (revoke_active_magic_links_by_user ex u)" "keeps (same_of sessions) (revoke_mailbox_links ex u)"
  unfolding create_verification_def create_password_reset_def add_magic_link_def consume_verification_def
    revoke_active_verification_by_user_def consume_password_reset_def revoke_mailbox_links_def
    revoke_active_password_reset_by_user_def revoke_active_magic_links_by_user_def consume_magic_link_def
  by (auto intro!: so.keeps_in_tx so.keeps_intros keeps_same_of_stmt keeps_same_of_write frame_intros [THEN so.keeps_same_db]
      simp: Let_def checked_def use_verifications_def use_resets_def use_magic_links_def)

text \<open>What the other repositories leave alone: the links.\<close>

lemma links_simps [simp]:
  "links (t\<lparr>users := a\<rparr>) = links t" "links (t\<lparr>sessions := b\<rparr>) = links t" "links (t\<lparr>login_attempts := c\<rparr>) = links t"
  "links (t\<lparr>audit_log := d\<rparr>) = links t" "links (t\<lparr>known_devices := e\<rparr>) = links t" "links (t\<lparr>two_factor_methods := g\<rparr>) = links t"
  "links (t\<lparr>recovery_codes := h\<rparr>) = links t" "links (t\<lparr>used_totp_codes := i\<rparr>) = links t" "links (t\<lparr>email_2fa_codes := j\<rparr>) = links t"
  "links (t\<lparr>event_outbox := k\<rparr>) = links t" "links (t\<lparr>webhook_deliveries := l\<rparr>) = links t" "links (t\<lparr>username_reservations := m\<rparr>) = links t"
  "links (t\<lparr>passkeys := n\<rparr>) = links t" "links (t\<lparr>external_identities := p\<rparr>) = links t" "links (t\<lparr>personal_access_tokens := q\<rparr>) = links t"
  "links (t\<lparr>user_roles := r\<rparr>) = links t"
  by (simp_all add: links_def)

lemma links_put_sessions [simp]: "links (snd (put_sessions x rows t)) = links t"
  by (simp add: put_sessions_def)

lemma keeps_links_other:
  "keeps (same_of links) (audit_append ex who r a ip md)" "keeps (same_of links) (record_attempt ex att)"
  "keeps (same_of links) (known_device_record ex u fp)" "keeps (same_of links) (user_record_sign_in ex u)"
  "keeps (same_of links) (set_locked_until u at)" "keeps (same_of links) (replace_password_hash u h h')"
  "keeps (same_of links) (enqueue ex name payload)"
  unfolding audit_append_def record_attempt_def known_device_record_def user_record_sign_in_def
    set_locked_until_def replace_password_hash_def enqueue_def record_event_def
  by (intro so.keeps_bnd so.keeps_seq so.keeps_ret so.keeps_map_err so.keeps_same_db [OF keeps_fresh_uuid]
      keeps_same_of_stmt keeps_same_of_write; simp add: checked_def update_users_def Let_def; fail)+

lemma keeps_links_sessions:
  "keeps (same_of links) (create ex n)" "keeps (same_of links) (revoke ex i)" "keeps (same_of links) (revoke_all_by_user ex u)"
  "keeps (same_of links) (revoke_others ex u i)" "keeps (same_of links) (set_auth_time ex i at)"
  unfolding create_def revoke_def revoke_all_by_user_def revoke_others_def set_auth_time_def
  by (auto intro!: so.keeps_intros keeps_same_of_stmt frame_intros [THEN so.keeps_same_db]
      simp: insert_session_def update_sessions_def Let_def)

lemmas link_frame [link_intros] =
  keeps_links_other [THEN keeps_mailbox_other] keeps_links_sessions [THEN keeps_mailbox_other]
  keeps_factor_writes [where f = links, simplified, THEN keeps_mailbox_other]
  keeps_account_writes [where f = links, simplified, THEN keeps_mailbox_other]
  keeps_drop_factors [where f = links, simplified, THEN keeps_mailbox_other]

end
