(* ===== verification/Challenge.thy ===== *)
theory Challenge
  imports Guards Link_Repo
begin

text \<open>
  A sign-in paused for its second factor. The challenge is a short-lived token whose
  state is in Redis under the token's digest (\<^verbatim>\<open>services/auth/pre_auth.rs\<close>), with an
  index of the open challenges of an account; a challenge by mail sends a code that
  answers this challenge only (\<^verbatim>\<open>services/email_2fa.rs\<close>).
\<close>

section \<open>Redis sets\<close>

text \<open>\<^verbatim>\<open>SADD\<close>, \<^verbatim>\<open>SREM\<close>, \<^verbatim>\<open>SCARD\<close>, \<^verbatim>\<open>SMEMBERS\<close> and \<^verbatim>\<open>SPOP\<close>: a set without members is no
  key at all; a live set keeps its expiry.\<close>

definition rput_set :: "instant \<Rightarrow> rkey \<Rightarrow> string list \<Rightarrow> rstore \<Rightarrow> rstore" where
  "rput_set now k xs r =
     r(k := (if xs = [] then None
             else Some (RSet xs, if rexists now r k then snd (the (r k)) else None)))"

definition rsmembers :: "instant \<Rightarrow> rkey \<Rightarrow> rstore \<Rightarrow> string list" where
  "rsmembers now k r = as_set (rget now r k)"

definition rsadd :: "instant \<Rightarrow> rkey \<Rightarrow> string \<Rightarrow> rstore \<Rightarrow> rstore" where
  "rsadd now k x r = rput_set now k (List.insert x (rsmembers now k r)) r"

definition rsrem :: "instant \<Rightarrow> rkey \<Rightarrow> string \<Rightarrow> rstore \<Rightarrow> rstore" where
  "rsrem now k x r = rput_set now k (removeAll x (rsmembers now k r)) r"

definition rspop :: "nat \<Rightarrow> instant \<Rightarrow> rkey \<Rightarrow> rstore \<Rightarrow> string option \<times> rstore" where
  "rspop n now k r =
     (case rsmembers now k r of
        [] \<Rightarrow> (None, r)
      | xs \<Rightarrow> (let x = xs ! (n mod length xs) in (Some x, rput_set now k (removeAll x xs) r)))"

section \<open>The state of a challenge\<close>

definition pre_auth_key :: "app_state \<Rightarrow> string \<Rightarrow> rkey" where
  "pre_auth_key st pre_auth_token = PreAuth (challenge_id st pre_auth_token)"

definition challenge_keys_by_id :: "string \<Rightarrow> rkey list" where
  "challenge_keys_by_id i = [PreAuth i, TotpFail i, RcFail i, Email2faFail i]"

definition user_pre_auth_index_key :: "uuid \<Rightarrow> rkey" where
  "user_pre_auth_index_key user_id = UserPreAuth user_id"

definition expect_method :: "pre_auth_state \<Rightarrow> challenge_method \<Rightarrow> (app_error, unit) svc" where
  "expect_method s expected = (if pa_method s = Some expected then ret () else throw TokenInvalid)"

text \<open>What is stored is the JSON of a state, or a bare account identifier written before
  methods were bound to challenges.\<close>

fun parse_pre_auth_state :: "rval \<Rightarrow> app_error + pre_auth_state" where
  "parse_pre_auth_state (RUuid user_id) = Inr \<lparr>pa_user_id = user_id, pa_remember_me = False, pa_method = None\<rparr>"
| "parse_pre_auth_state (RState s) = Inr s"
| "parse_pre_auth_state _ = Inl TokenInvalid"

definition load_pre_auth_state_from_redis :: "rkey \<Rightarrow> (app_error, pre_auth_state) svc" where
  "load_pre_auth_state_from_redis key =
     bnd (map_err redis_unavailable (redis_cmd (\<lambda>now r. (rget now r key, r)))) (\<lambda>found.
     bnd (ok_or TokenInvalid found) (\<lambda>raw. of_sum (parse_pre_auth_state raw)))"

definition resolve_pre_auth :: "app_state \<Rightarrow> string \<Rightarrow> (app_error, pre_auth_state) svc" where
  "resolve_pre_auth st pre_auth_token =
     seq (map_err redis_unavailable redis_conn)
     (load_pre_auth_state_from_redis (pre_auth_key st pre_auth_token))"

definition redis_read :: "(instant \<Rightarrow> rstore \<Rightarrow> 'a) \<Rightarrow> 'a \<Rightarrow> ('e, 'a) svc" where
  "redis_read f otherwise =
     bnd (attempt (redis_cmd (\<lambda>now r. (f now r, r)))) (\<lambda>x. ret (case x of Inr y \<Rightarrow> y | Inl _ \<Rightarrow> otherwise))"

definition redis_ignored :: "(instant \<Rightarrow> rstore \<Rightarrow> rstore) \<Rightarrow> ('e, unit) svc" where
  "redis_ignored f = ignore (redis_cmd (\<lambda>now r. ((), f now r)))"

definition purge_user_pre_auth_and_email_change :: "uuid \<Rightarrow> ('e, unit) svc" where
  "purge_user_pre_auth_and_email_change user_id =
     bnd (attempt redis_conn) (\<lambda>conn.
     case conn of
       Inl _ \<Rightarrow> ret ()
     | Inr _ \<Rightarrow>
         bnd (redis_read (\<lambda>now r. rsmembers now (user_pre_auth_index_key user_id) r) []) (\<lambda>ids.
         seq (for_each ids (\<lambda>i. redis_ignored (\<lambda>_ r. rdel_all (challenge_keys_by_id i) r)))
         (seq (redis_ignored (\<lambda>_ r. rdel_all [user_pre_auth_index_key user_id] r))
         (bnd (redis_read (\<lambda>now r. rget now r (EmailChangeActive user_id)) None) (\<lambda>active.
         case active of
           Some (RStr flow_id) \<Rightarrow>
             redis_ignored (\<lambda>_ r. rdel_all [EmailChangeFlow flow_id, EmailChangeFail flow_id, EmailChangeActive user_id] r)
         | _ \<Rightarrow> ret ())))))"

section \<open>Codes by mail\<close>

definition OTP_EXPIRY_SECS :: u64 where "OTP_EXPIRY_SECS = 600"
definition SEND_COOLDOWN_SECS :: int where "SEND_COOLDOWN_SECS = 60"
definition MAX_FAILURES :: int where "MAX_FAILURES = 3"
definition MAX_FAILURES_BY_USER :: int where "MAX_FAILURES_BY_USER = 10"
definition USER_FAILURE_WINDOW_SECS :: int where "USER_FAILURE_WINDOW_SECS = 3600"
definition OTP_PURPOSE :: string where "OTP_PURPOSE = ''email_2fa''"
definition MAX_SIGN_IN_CODES_PER_HOUR :: int where "MAX_SIGN_IN_CODES_PER_HOUR = 10"

definition code_subject :: "app_state \<Rightarrow> uuid \<Rightarrow> string option \<Rightarrow> bytes" where
  "code_subject st user_id challenge =
     uuid_bytes user_id @ (case challenge of None \<Rightarrow> [] | Some token \<Rightarrow> bytes_of (challenge_id st token))"

definition send_code :: "app_state \<Rightarrow> uuid \<Rightarrow> string option \<Rightarrow> (app_error, unit) svc" where
  "send_code st user_id challenge =
     bnd (claim_cooldown (Email2faCooldown user_id (map_option (challenge_id st) challenge)) SEND_COOLDOWN_SECS) (\<lambda>free.
     if \<not> free then throw RateLimitExceeded
     else seq (when_do (challenge \<noteq> None)
       (bnd (consume [\<lparr>b_key = Email2faSendUser user_id, b_limit = MAX_SIGN_IN_CODES_PER_HOUR,
            b_window_secs = USER_FAILURE_WINDOW_SECS\<rparr>]) (\<lambda>att.
        if exceeded att then throw RateLimitExceeded else ret ())))
     (bnd (map_err internal (user_find_by_id Pool user_id)) (\<lambda>found.
      bnd (ok_or Unauthorized found) (\<lambda>user.
      bnd (draw (generate_otp st)) (\<lambda>code.
      bnd clock_now (\<lambda>now.
      seq (map_err internal (email_code_create user_id
        (otp_digest (crypto st) (keyring_of st) OTP_PURPOSE (code_subject st user_id challenge) code)
        (in_secs now OTP_EXPIRY_SECS)))
      (send_mail \<lparr>m_kind = ''email_2fa_code'', m_to = u_email user,
        m_args = [AStr (u_username user), AStr (u_preferred_locale user), AStr code]\<rparr>)))))))"

definition otp_budgets :: "rkey \<Rightarrow> (rkey \<times> int) list \<Rightarrow> budget list" where
  "otp_budgets fail_key account_keys =
     \<lparr>b_key = fail_key, b_limit = MAX_FAILURES, b_window_secs = i64_of_u64 OTP_EXPIRY_SECS\<rparr> #
     map (\<lambda>(key, limit). \<lparr>b_key = key, b_limit = limit, b_window_secs = USER_FAILURE_WINDOW_SECS\<rparr>) account_keys"

definition verify_otp ::
  "app_state \<Rightarrow> uuid \<Rightarrow> string option \<Rightarrow> string \<Rightarrow> rkey \<Rightarrow> ipnetwork option \<Rightarrow> (app_error, unit) svc" where
  "verify_otp st user_id challenge submitted_code fail_key ip =
     (let account_keys = second_factor_budget_keys EMAIL_2FA_USER_FAIL_PREFIX user_id ip MAX_FAILURES_BY_USER in
      bnd (consume (otp_budgets fail_key account_keys)) (\<lambda>att.
      if exceeded att then
        seq (when_do (account_budget_exceeded (counts att) (snd (hd account_keys))) (notify_second_factor_pressure user_id))
        (throw RateLimitExceeded)
      else
        bnd (map_err internal (find_active_by_user_and_hash user_id
          (otp_digests (crypto st) (keyring_of st) OTP_PURPOSE (code_subject st user_id challenge) submitted_code))) (\<lambda>record.
        bnd (case record of
               Some c \<Rightarrow> map_err internal (email_code_consume (ec_id c))
             | None \<Rightarrow> ret False) (\<lambda>consumed.
        if \<not> consumed then seq (apply_backoff (hd (counts att))) (throw TwoFactorFailed)
        else reset (map fst account_keys @ [fail_key])))))"

definition verify_login_code ::
  "app_state \<Rightarrow> uuid \<Rightarrow> string \<Rightarrow> string \<Rightarrow> ipnetwork option \<Rightarrow> (app_error, unit) svc" where
  "verify_login_code st user_id pre_auth_token submitted_code ip =
     verify_otp st user_id (Some pre_auth_token) submitted_code (Email2faFail (challenge_id st pre_auth_token)) ip"

section \<open>Frames\<close>

lemma keeps_challenge_calls [frame_intros]:
  "keeps same_db (expect_method s m)" "keeps same_db (load_pre_auth_state_from_redis k)" "keeps same_db (resolve_pre_auth st tok)"
  "keeps same_db (redis_read f d)" "keeps same_db (redis_ignored g)" "keeps same_db (purge_user_pre_auth_and_email_change u)"
  unfolding expect_method_def resolve_pre_auth_def load_pre_auth_state_from_redis_def redis_read_def redis_ignored_def
    purge_user_pre_auth_and_email_change_def
  by (auto intro!: sd.keeps_intros frame_intros split: sum.split option.split rval.split)

lemma throws_challenge_calls [throws_intros]:
  "throws S (redis_read f d)" "throws S (redis_ignored g)" "throws S (purge_user_pre_auth_and_email_change u)"
  unfolding redis_read_def redis_ignored_def purge_user_pre_auth_and_email_change_def
  by (auto intro!: throws_intros split: sum.split option.split rval.split)

lemma keeps_mailed_codes:
  assumes "\<And>t x. f (t\<lparr>two_factor_methods := x\<rparr>) = f t" "\<And>t x. f (t\<lparr>recovery_codes := x\<rparr>) = f t"
    "\<And>t x. f (t\<lparr>used_totp_codes := x\<rparr>) = f t" "\<And>t x. f (t\<lparr>email_2fa_codes := x\<rparr>) = f t"
  shows "keeps (same_of f) (send_code st u c)" "keeps (same_of f) (verify_otp st u c code k ip)"
    "keeps (same_of f) (verify_login_code st u tok code ip)"
  unfolding send_code_def verify_otp_def verify_login_code_def
  by (auto intro!: so.keeps_intros keeps_factor_writes [of f, OF assms] frame_intros [THEN so.keeps_same_db] split: option.split)

lemmas mailed_code_frame [session_frame] = keeps_mailed_codes [where f = sessions, simplified]
lemmas mailed_code_links [link_intros] = keeps_mailed_codes [where f = links, simplified, THEN keeps_mailbox_other]

section \<open>A mailed code answers its challenge, once\<close>

text \<open>An unused, unexpired code of the account whose digest is that of the submitted code for
  this challenge.\<close>

definition answers :: "app_state \<Rightarrow> uuid \<Rightarrow> string option \<Rightarrow> string \<Rightarrow> instant \<Rightarrow> email_2fa_code \<Rightarrow> bool" where
  "answers st u challenge code now c \<longleftrightarrow>
     ec_user_id c = u \<and> email_code_live now c \<and>
     ec_code_hash c \<in> set (otp_digests (crypto st) (keyring_of st) OTP_PURPOSE (code_subject st u challenge) code)"

lemma hd_opt_in: "hd_opt xs = Some x \<Longrightarrow> x \<in> set xs"
  by (cases xs) (simp_all add: hd_opt_def)

lemma set_latest_first [simp]: "set (latest_first cs) = set cs"
  by (simp add: latest_first_def)

lemma found_answers:
  assumes "hd_opt (latest_first (filter (\<lambda>c. ec_user_id c = u \<and>
      ec_code_hash c \<in> set (otp_digests (crypto st) (keyring_of st) OTP_PURPOSE (code_subject st u ch) code) \<and>
      email_code_live now c) cs)) = Some c"
  shows "c \<in> set cs \<and> answers st u ch code now c"
  using hd_opt_in [OF assms] by (auto simp: answers_def)

lemma consume_own_code:
  assumes "c \<in> set (email_2fa_codes (tables w))" "distinct (map ec_id (email_2fa_codes (tables w)))"
  shows "wp (email_code_consume (ec_id c))
    (\<lambda>took w'. took \<longrightarrow> unused_of (ec_user_id c) (email_2fa_codes (tables w')) = []) (\<lambda>_ _. True) w"
proof -
  have owner: "u = ec_user_id c" if "fst (use_code (ec_id c) now (tables w)) = Some u" for u now
    using that assms distinct_key_eq [of ec_id "email_2fa_codes (tables w)" c]
    by (auto simp: use_code_def Let_def dest!: find_Some_set) metis
  show ?thesis
    using owner use_other_codes_none
    by (auto simp: email_code_consume_def wp_simps wp_in_tx Let_def split: outcome.split option.split)
qed

lemma verify_otp_wp:
  assumes "distinct (map ec_id (email_2fa_codes (tables w)))"
  shows "wp (verify_otp st u ch code k ip)
    (\<lambda>_ w'. (\<exists>c \<in> set (email_2fa_codes (tables w)). answers st u ch code (db_now w) c) \<and>
       unused_of u (email_2fa_codes (tables w')) = []) (\<lambda>_ _. True) w"
proof -
  let ?found = "\<lambda>v. hd_opt (latest_first (filter (\<lambda>c. ec_user_id c = u \<and>
      ec_code_hash c \<in> set (otp_digests (crypto st) (keyring_of st) OTP_PURPOSE (code_subject st u ch) code) \<and>
      email_code_live (db_now v) c) (email_2fa_codes (tables w))))"
  have answer: "c \<in> set (email_2fa_codes (tables w)) \<and> answers st u ch code (db_now w) c"
    if "?found v = Some c" "later w v" for v c
    using found_answers [OF that(1)] later_now [OF that(2)] by (auto simp: answers_def email_code_live_def)
  have consume: "wp (bnd (map_err internal (email_code_consume (ec_id c)))
      (\<lambda>consumed. if \<not> consumed then seq (apply_backoff n) (throw TwoFactorFailed) else reset ks))
    (\<lambda>_ w'. (\<exists>c \<in> set (email_2fa_codes (tables w)). answers st u ch code (db_now w) c) \<and>
       unused_of u (email_2fa_codes (tables w')) = []) (\<lambda>_ _. True) v"
    if found: "?found v = Some c" and v: "same_db w v" for v c n ks
  proof -
    have c: "c \<in> set (email_2fa_codes (tables w))" "answers st u ch code (db_now w) c"
      using answer [OF found same_db_later [OF v]] by simp_all
    have "wp (email_code_consume (ec_id c))
      (\<lambda>took w'. took \<longrightarrow> unused_of u (email_2fa_codes (tables w')) = []) (\<lambda>_ _. True) v"
      using consume_own_code [of c v] c assms same_db_tables [OF v] by (simp add: answers_def)
    then show ?thesis
      unfolding wp_bnd wp_map_err
    proof (rule wp_mono)
      fix took and t :: world
      assume "took \<longrightarrow> unused_of u (email_2fa_codes (tables t)) = []"
      then show "wp (if \<not> took then seq (apply_backoff n) (throw TwoFactorFailed) else reset ks)
        (\<lambda>_ w'. (\<exists>c \<in> set (email_2fa_codes (tables w)). answers st u ch code (db_now w) c) \<and>
           unused_of u (email_2fa_codes (tables w')) = []) (\<lambda>_ _. True) t"
        using c by (auto intro!: keeps_wp [OF keeps_reset] dest: same_db_tables)
    qed simp
  qed
  show ?thesis
    unfolding verify_otp_def Let_def wp_bnd [of "consume _"]
  proof (rule keeps_wp [OF keeps_consume])
    fix att v assume v: "same_db w v"
    show "wp (if exceeded att then seq (when_do (account_budget_exceeded (counts att)
          (snd (hd (second_factor_budget_keys EMAIL_2FA_USER_FAIL_PREFIX u ip MAX_FAILURES_BY_USER)))) (notify_second_factor_pressure u)) (throw RateLimitExceeded)
        else bnd (map_err internal (find_active_by_user_and_hash u (otp_digests (crypto st) (keyring_of st) OTP_PURPOSE (code_subject st u ch) code)))
          (\<lambda>record. bnd (case record of None \<Rightarrow> ret False | Some c \<Rightarrow> map_err internal (email_code_consume (ec_id c)))
            (\<lambda>consumed. if \<not> consumed then seq (apply_backoff (hd (counts att))) (throw TwoFactorFailed)
              else reset (map fst (second_factor_budget_keys EMAIL_2FA_USER_FAIL_PREFIX u ip MAX_FAILURES_BY_USER) @ [k]))))
      (\<lambda>_ w'. (\<exists>c \<in> set (email_2fa_codes (tables w)). answers st u ch code (db_now w) c) \<and>
         unused_of u (email_2fa_codes (tables w')) = []) (\<lambda>_ _. True) v"
    proof (cases "exceeded att")
      case False
      have "same_db w (tick v)" by (rule same_db_then_tick [OF v])
      then show ?thesis
        using False consume [of "tick v"] same_db_tables [OF v]
        by (auto simp: wp_bnd [of "map_err _ _"] wp_map_err find_active_by_user_and_hash_def wp_db_read wp_bnd [of "ret _"] wp_ret
            split: option.split)
    qed simp
  qed simp
qed


definition demo_code :: email_2fa_code where
  "demo_code = \<lparr>ec_id = 5, ec_user_id = 1,
     ec_code_hash = otp_digest (crypto demo_state) (keyring_of demo_state) OTP_PURPOSE (code_subject demo_state 1 (Some ''tok'')) ''123456'',
     ec_created_at = 0, ec_expires_at = 600000000000, ec_used_at = None\<rparr>"

definition demo_code_world :: world where
  "demo_code_world = initial_world (demo_tables\<lparr>email_2fa_codes := [demo_code]\<rparr>)"

lemma demo_code_accepted: "fst (verify_login_code demo_state 1 ''tok'' ''123456'' None demo_code_world) = Inr ()"
proof -
  have code: "ec_user_id demo_code = Suc 0" "email_code_live 0 demo_code"
    "ec_code_hash demo_code \<in> set (otp_digests (crypto demo_state) (keyring_of demo_state) OTP_PURPOSE (code_subject demo_state (Suc 0) (Some ''tok'')) ''123456'')"
    by (simp_all add: demo_code_def otp_digests_def otp_digest_def entries_def email_code_live_def)
  have "wp (verify_login_code demo_state 1 ''tok'' ''123456'' None) (\<lambda>_ _. True) (\<lambda>_ _. False) demo_code_world"
    by (simp add: code hd_opt_def latest_first_def verify_login_code_def verify_otp_def Let_def wp_simps demo_code_world_def initial_world_def
        second_factor_budget_keys_def otp_budgets_def find_active_by_user_and_hash_def email_code_consume_def wp_in_tx reset_def db_now_def
        use_code_def hit_def rincr_by_def rexpire_def rget_def rexists_def as_int_def
        MAX_FAILURES_def MAX_FAILURES_BY_USER_def SECOND_FACTOR_ACCOUNT_FACTOR_def)
  then show ?thesis
    by (auto simp: wp_def split: prod.splits sum.splits)
qed


end
