(* ===== verification/Pwned.thy ===== *)
theory Pwned
  imports Credentials
begin

text \<open>
  Passwords known from breaches (\<^verbatim>\<open>domain/pwned.rs\<close>, \<^verbatim>\<open>services/pwned.rs\<close>): the five
  characters of a password's digest sent to the range service, the reading of its
  answer and the decision taken on it. The answer of the service to a prefix is a field of
  the application state; a call that fails gives none.
\<close>

section \<open>Text\<close>

text \<open>\<^verbatim>\<open>str::lines\<close>: a line ends at a newline, and a carriage return before it goes with it.\<close>

definition strip_cr :: "string \<Rightarrow> string" where
  "strip_cr l = (if l \<noteq> [] \<and> last l = CHR 0x0D then butlast l else l)"

fun break_lines :: "string \<Rightarrow> string \<Rightarrow> string list" where
  "break_lines acc [] = (if acc = [] then [] else [rev acc])"
| "break_lines acc (c # cs) =
     (if c = CHR 0x0A then strip_cr (rev acc) # break_lines [] cs else break_lines (c # acc) cs)"

definition lines :: "string \<Rightarrow> string list" where
  "lines s = break_lines [] s"

text \<open>\<^verbatim>\<open>parse::<u64>\<close>: decimal digits, with an optional sign, that fit in 64 bits.\<close>

definition parse_u64 :: "string \<Rightarrow> nat option" where
  "parse_u64 s =
     (let digits = (if s \<noteq> [] \<and> hd s = CHR ''+'' then tl s else s) in
      if digits \<noteq> [] \<and> list_all ascii_digit digits \<and> read_base 10 digits < 2 ^ 64
      then Some (read_base 10 digits) else None)"

section \<open>The range answer\<close>

definition range_key :: "app_state \<Rightarrow> string \<Rightarrow> string \<times> string" where
  "range_key st pw =
     (let hex = concat (map hex_byte_upper (crypto_sha1 st pw)) in (take 5 hex, drop 5 hex))"

definition breach_count :: "string \<Rightarrow> string \<Rightarrow> nat" where
  "breach_count answer suffix =
     (case find (\<lambda>(candidate, _). lower candidate = lower suffix)
             (List.map_filter (\<lambda>line. split_once (CHR '':'') (trim_ascii line)) (lines answer)) of
        None \<Rightarrow> 0
      | Some (_, count) \<Rightarrow> (case parse_u64 (trim_ascii count) of None \<Rightarrow> 0 | Some n \<Rightarrow> n))"

datatype breach_verdict = Accepted | Compromised | Unavailable

definition pwned_verdict :: "nat option \<Rightarrow> bool \<Rightarrow> breach_verdict" where
  "pwned_verdict count fail_open =
     (case count of
        Some n \<Rightarrow> if n = 0 then Accepted else Compromised
      | None \<Rightarrow> if fail_open then Accepted else Unavailable)"

section \<open>The check\<close>

definition fetch_range :: "app_state \<Rightarrow> string \<Rightarrow> ('e, string option) svc" where
  "fetch_range st prefix = (\<lambda>w. (Inr (if next_outcome w = Done then pwned_range st prefix else None), tick w))"

definition ensure_not_breached :: "app_state \<Rightarrow> string \<Rightarrow> (app_error, unit) svc" where
  "ensure_not_breached st pw =
     (if \<not> pwned_enabled st then ret ()
      else let (prefix, suffix) = range_key st pw in
        bnd (fetch_range st prefix) (\<lambda>answer.
        case pwned_verdict (map_option (\<lambda>r. breach_count r suffix) answer) (pwned_fail_open st) of
          Accepted \<Rightarrow> ret ()
        | Compromised \<Rightarrow> throw PasswordCompromised
        | Unavailable \<Rightarrow> throw (ServiceUnavailable ''pwned_passwords'')))"

section \<open>Reading an answer\<close>

lemma keeps_pwned [frame_intros]: "keeps same_db (fetch_range st prefix)" "keeps same_db (ensure_not_breached st pw)"
proof -
  show fetch: "keeps same_db (fetch_range st prefix)" for prefix
    by (simp add: keeps_def fetch_range_def)
  show "keeps same_db (ensure_not_breached st pw)"
    unfolding ensure_not_breached_def by (auto intro!: sd.keeps_intros fetch split: breach_verdict.split)
qed

text \<open>An entry of the answer, as the service writes it.\<close>

definition range_line :: "string \<times> nat \<Rightarrow> string" where
  "range_line e = fst e @ '':'' @ show_base 10 (snd e) @ [CHR 0x0D, CHR 0x0A]"

lemma break_lines_append:
  "CHR 0x0A \<notin> set x \<Longrightarrow> break_lines acc (x @ CHR 0x0A # rest) = strip_cr (rev acc @ x) # break_lines [] rest"
  by (induction x arbitrary: acc) auto

definition no_space :: "char \<Rightarrow> bool" where
  "no_space c \<longleftrightarrow> \<not> is_whitespace (of_char c)"

lemma trim_ascii_id:
  assumes "s \<noteq> []" "no_space (hd s)" "no_space (last s)"
  shows "trim_ascii s = s"
proof -
  have "dropWhile (\<lambda>c. is_whitespace (of_char c)) s = s"
    using assms by (cases s) (simp_all add: no_space_def)
  moreover have "dropWhile (\<lambda>c. is_whitespace (of_char c)) (rev s) = rev s"
    using assms(1,3) by (cases s rule: rev_cases) (simp_all add: no_space_def)
  ultimately show ?thesis by (simp add: trim_ascii_def)
qed

lemma digit_char_decimal: "n < 10 \<Longrightarrow> ascii_digit (digit_char n) \<and> no_space (digit_char n) \<and> digit_char n \<noteq> CHR 0x0A"
proof -
  assume n: "n < 10"
  then have v: "(of_char (digit_char n) :: nat) = 48 + n"
    by (simp add: digit_char_def)
  have "digit_char n \<noteq> CHR 0x0A"
    using v by auto
  then show ?thesis
    using n by (simp add: ascii_digit_def no_space_def is_whitespace_def less_eq_char_def v)
qed

lemma show_base_decimal: "c \<in> set (show_base 10 n) \<Longrightarrow> ascii_digit c \<and> no_space c \<and> c \<noteq> CHR 0x0A"
proof (induction n rule: less_induct)
  case (less n)
  show ?case
  proof (cases "n < 10")
    case True
    then show ?thesis
      using less.prems digit_char_decimal by (simp add: show_base.simps [of 10 n])
  next
    case False
    then have "c \<in> set (show_base 10 (n div 10)) \<or> c = digit_char (n mod 10)"
      using less.prems by (auto simp: show_base.simps [of 10 n])
    then show ?thesis
      using less.IH [of "n div 10"] False digit_char_decimal [of "n mod 10"] by auto
  qed
qed

lemma show_base_nonempty [simp]: "show_base b n \<noteq> []"
  by (subst show_base.simps) simp

definition suffix_ok :: "string \<Rightarrow> bool" where
  "suffix_ok s \<longleftrightarrow> list_all (\<lambda>c. ascii_alphanumeric c) s"

lemma alphanumeric_plain: "ascii_alphanumeric c \<Longrightarrow> no_space c \<and> c \<noteq> CHR 0x0A \<and> c \<noteq> CHR '':''"
  by (auto simp: ascii_alphanumeric_def ascii_alphabetic_def ascii_upper_def ascii_lower_def ascii_digit_def no_space_def
      is_whitespace_def less_eq_char_def)

lemma parse_entry:
  assumes "suffix_ok s"
  shows "split_once (CHR '':'') (trim_ascii (s @ CHR '':'' # show_base 10 n)) = Some (s, show_base 10 n)"
proof -
  have plain: "no_space c" "c \<noteq> CHR '':''" if "c \<in> set s" for c
    using that assms alphanumeric_plain by (auto simp: suffix_ok_def list_all_iff)
  have "no_space (hd (s @ CHR '':'' # show_base 10 n))"
    using plain by (cases s) (auto simp: no_space_def is_whitespace_def)
  moreover have "no_space (last (s @ CHR '':'' # show_base 10 n))"
    using show_base_decimal [OF last_in_set] by simp
  ultimately have "trim_ascii (s @ CHR '':'' # show_base 10 n) = s @ CHR '':'' # show_base 10 n"
    by (intro trim_ascii_id) simp_all
  then show ?thesis
    using plain split_once_append [of "CHR '':''" s] by auto
qed

lemma parse_count:
  assumes "n < 2 ^ 64"
  shows "parse_u64 (trim_ascii (show_base 10 n)) = Some n"
proof -
  have "trim_ascii (show_base 10 n) = show_base 10 n"
    using show_base_decimal [OF hd_in_set] show_base_decimal [OF last_in_set] by (intro trim_ascii_id) simp_all
  moreover have "hd (show_base 10 n) \<noteq> CHR ''+''"
    using show_base_decimal [OF hd_in_set, of n] by (auto simp: ascii_digit_def less_eq_char_def)
  ultimately show ?thesis
    using assms show_base_decimal by (auto simp: parse_u64_def Let_def list_all_iff read_show_base)
qed

lemma lines_of_entries:
  assumes "list_all (\<lambda>e. suffix_ok (fst e)) es"
  shows "lines (concat (map range_line es)) = map (\<lambda>e. fst e @ CHR '':'' # show_base 10 (snd e)) es"
  using assms
proof (induction es)
  case (Cons e es)
  let ?x = "fst e @ CHR '':'' # show_base 10 (snd e) @ [CHR 0x0D]"
  have "CHR 0x0A \<notin> set ?x"
    using Cons.prems alphanumeric_plain show_base_decimal by (auto simp: suffix_ok_def list_all_iff)
  then have "lines (?x @ CHR 0x0A # concat (map range_line es)) = strip_cr ?x # lines (concat (map range_line es))"
    unfolding lines_def by (simp only: break_lines_append rev.simps append_Nil not_False_eq_True)
  moreover have "strip_cr ?x = fst e @ CHR '':'' # show_base 10 (snd e)"
    by (simp add: strip_cr_def butlast_append)
  moreover have "range_line e = ?x @ [CHR 0x0A]"
    by (simp add: range_line_def)
  ultimately show ?case
    using Cons by simp
qed (simp add: lines_def)

lemma breach_count_entries:
  assumes "list_all (\<lambda>e. suffix_ok (fst e) \<and> snd e < 2 ^ 64) es"
  shows "breach_count (concat (map range_line es)) suffix =
    (case find (\<lambda>e. lower (fst e) = lower suffix) es of None \<Rightarrow> 0 | Some e \<Rightarrow> snd e)"
proof -
  have "List.map_filter (\<lambda>line. split_once (CHR '':'') (trim_ascii line)) (lines (concat (map range_line es))) =
    map (\<lambda>e. (fst e, show_base 10 (snd e))) es"
    using assms
  proof (subst lines_of_entries)
    show "List.map_filter (\<lambda>line. split_once (CHR '':'') (trim_ascii line)) (map (\<lambda>e. fst e @ CHR '':'' # show_base 10 (snd e)) es) =
      map (\<lambda>e. (fst e, show_base 10 (snd e))) es"
      using assms by (induction es) (simp_all add: parse_entry)
  qed (auto simp: list_all_iff)
  then have "breach_count (concat (map range_line es)) suffix =
    (case find (\<lambda>(candidate, _). lower candidate = lower suffix) (map (\<lambda>e. (fst e, show_base 10 (snd e))) es) of
       None \<Rightarrow> 0 | Some (_, count) \<Rightarrow> (case parse_u64 (trim_ascii count) of None \<Rightarrow> 0 | Some n \<Rightarrow> n))"
    by (simp only: breach_count_def)
  also have "\<dots> = (case find (\<lambda>e. lower (fst e) = lower suffix) es of None \<Rightarrow> 0 | Some e \<Rightarrow> snd e)"
    using assms by (induction es) (auto simp: parse_count)
  finally show ?thesis .
qed

text \<open>C35: A password known from a breach is refused, and only five characters of its digest are
  sent to ask. When the service answers with its list of suffixes and counts, the password is
  accepted exactly if its own suffix is absent or counted zero (padding), and refused as compromised
  otherwise, whatever the case of the digits; without an answer the configuration decides, and a
  deployment that does not fail open refuses it.\<close>

theorem breached_password_refused:
  assumes "pwned_enabled st" "range_key st pw = (prefix, suffix)"
    and "pwned_range st prefix = Some (concat (map range_line es))"
    and "list_all (\<lambda>e. suffix_ok (fst e) \<and> snd e < 2 ^ 64) es"
  shows "length prefix \<le> 5 \<and> fst (ensure_not_breached st pw w) =
    (if next_outcome w = Done then
       (case find (\<lambda>e. lower (fst e) = lower suffix) es of
          None \<Rightarrow> Inr ()
        | Some e \<Rightarrow> if snd e = 0 then Inr () else Inl PasswordCompromised)
     else if pwned_fail_open st then Inr () else Inl (ServiceUnavailable ''pwned_passwords''))"
proof -
  have "length prefix \<le> 5"
    using assms(2) by (auto simp: range_key_def Let_def)
  then show ?thesis
    using assms by (auto simp: ensure_not_breached_def bnd_def fetch_range_def breach_count_entries pwned_verdict_def ret_def throw_def
        split: option.split)
qed

theorem breached_password_refused_witness:
  "fst (ensure_not_breached (demo_state\<lparr>pwned_range := (\<lambda>_. Some (concat (map range_line [(replicate 35 CHR ''0'', 3)])))\<rparr>) ''pw'' (initial_world empty_tables)) =
     Inl PasswordCompromised"
proof -
  have demo_pwned: "pwned_enabled demo_state" "\<not> pwned_fail_open demo_state"
    by (simp_all add: demo_state_def)
  have hex: "hex_byte_upper 0 = [CHR ''0'', CHR ''0'']"
    by code_simp
  have key: "range_key (demo_state\<lparr>pwned_range := f\<rparr>) ''pw'' = (replicate 5 CHR ''0'', replicate 35 CHR ''0'')" for f
    by (simp add: range_key_def demo_state_def hex numeral_eq_Suc)
  show ?thesis
    using breached_password_refused [OF _ key, of "\<lambda>_. Some (concat (map range_line [(replicate 35 CHR ''0'', 3)]))"
        "[(replicate 35 CHR ''0'', 3)]" "initial_world empty_tables"]
    by (simp add: demo_pwned suffix_ok_def ascii_alphanumeric_def ascii_digit_def less_eq_char_def list_all_iff initial_world_def)
qed

end
