(* ===== verification/Roles_Repo.thy ===== *)
theory Roles_Repo
  imports Link_Repo
begin

text \<open>
  Roles, the permissions they grant and who holds them (\<^verbatim>\<open>repositories/role.rs\<close>,
  \<^verbatim>\<open>domain/role.rs\<close>), with the constraints of \<^verbatim>\<open>migrations/0003_rbac.sql\<close>.
\<close>

section \<open>Permissions\<close>

definition ADMIN_PERMISSIONS :: "string list" where
  "ADMIN_PERMISSIONS =
     [''users:read'', ''users:manage'', ''roles:manage'', ''clients:manage'', ''audit:read'', ''webhooks:manage'']"

definition is_admin_permission :: "string \<Rightarrow> bool" where
  "is_admin_permission p \<longleftrightarrow> p \<in> set ADMIN_PERMISSIONS"

definition ROLES_MANAGE :: string where
  "ROLES_MANAGE = ''roles:manage''"

definition is_valid_role_name :: "string \<Rightarrow> bool" where
  "is_valid_role_name name \<longleftrightarrow>
     2 \<le> length name \<and> length name \<le> 50 \<and> ascii_lower (hd name) \<and>
     list_all (\<lambda>b. ascii_lower b \<or> ascii_digit b \<or> b = CHR ''_'') name"

text \<open>The joins of the queries: the permissions a role grants, an account holds.\<close>

definition role_grants :: "tables \<Rightarrow> uuid \<Rightarrow> string \<Rightarrow> bool" where
  "role_grants t r p \<longleftrightarrow> p \<in> set (permissions_of_role r t)"

definition user_holds :: "tables \<Rightarrow> uuid \<Rightarrow> string \<Rightarrow> bool" where
  "user_holds t u p \<longleftrightarrow> list_ex (\<lambda>ur. ur_user_id ur = u \<and> role_grants t (ur_role_id ur) p) (user_roles t)"

definition user_has_permission :: "executor \<Rightarrow> uuid \<Rightarrow> string \<Rightarrow> (sql_error, bool) svc" where
  "user_has_permission ex u p = db_read ex (\<lambda>_ t. user_holds t u p)"

definition held_by_active :: "tables \<Rightarrow> string \<Rightarrow> bool" where
  "held_by_active t p \<longleftrightarrow>
     list_ex (\<lambda>ur. role_grants t (ur_role_id ur) p \<and>
       list_ex (\<lambda>u. u_id u = ur_user_id ur \<and> u_status u = UserActive) (users t)) (user_roles t)"

definition permission_held :: "executor \<Rightarrow> string \<Rightarrow> (sql_error, bool) svc" where
  "permission_held ex p = db_read ex (\<lambda>_ t. held_by_active t p)"

definition role_administers :: "tables \<Rightarrow> uuid \<Rightarrow> bool" where
  "role_administers t r \<longleftrightarrow> list_ex (role_grants t r) ADMIN_PERMISSIONS"

definition grants_administration :: "executor \<Rightarrow> uuid \<Rightarrow> (sql_error, bool) svc" where
  "grants_administration ex r = db_read ex (\<lambda>_ t. role_administers t r)"

definition user_administers :: "tables \<Rightarrow> uuid \<Rightarrow> bool" where
  "user_administers t u \<longleftrightarrow> list_ex (\<lambda>ur. ur_user_id ur = u \<and> role_administers t (ur_role_id ur)) (user_roles t)"

definition holds_administration :: "executor \<Rightarrow> uuid \<Rightarrow> (sql_error, bool) svc" where
  "holds_administration ex u = db_read ex (\<lambda>_ t. user_administers t u)"

definition holds_role :: "executor \<Rightarrow> uuid \<Rightarrow> uuid \<Rightarrow> (sql_error, bool) svc" where
  "holds_role ex u r = db_read ex (\<lambda>_ t. list_ex (\<lambda>ur. ur_user_id ur = u \<and> ur_role_id ur = r) (user_roles t))"

definition holders :: "executor \<Rightarrow> uuid \<Rightarrow> (sql_error, uuid list) svc" where
  "holders ex r =
     db_read ex (\<lambda>_ t. sort (map ur_user_id (filter (\<lambda>ur. ur_role_id ur = r) (user_roles t))))"

text \<open>Locks the role's row; a sequential model only reads.\<close>

definition lock_permissions :: "executor \<Rightarrow> uuid \<Rightarrow> (sql_error, string list) svc" where
  "lock_permissions ex r =
     seq (db_read ex (\<lambda>_ _. ())) (db_read ex (\<lambda>_ t. sort (permissions_of_role r t)))"

definition unknown_permissions :: "string list \<Rightarrow> (sql_error, string list) svc" where
  "unknown_permissions names =
     db_read Pool (\<lambda>_ t. sort (filter (\<lambda>n. n \<notin> permission_name ` set (permissions t)) names))"

definition find_all_permissions :: "(sql_error, permission list) svc" where
  "find_all_permissions = db_read Pool (\<lambda>_ t. sort_key permission_name (permissions t))"

definition find_permissions_by_user :: "uuid \<Rightarrow> (sql_error, permission list) svc" where
  "find_permissions_by_user u =
     db_read Pool (\<lambda>_ t. filter (\<lambda>p. user_holds t u (permission_name p)) (permissions t))"

section \<open>Roles\<close>

definition role_find_all :: "(sql_error, role list) svc" where
  "role_find_all = db_read Pool (\<lambda>_ t. sort_key ro_name (roles t))"

definition role_find_by_id :: "uuid \<Rightarrow> (sql_error, role option) svc" where
  "role_find_by_id i = db_read Pool (\<lambda>_ t. find (\<lambda>r. ro_id r = i) (roles t))"

definition role_find_by_name :: "string \<Rightarrow> (sql_error, role option) svc" where
  "role_find_by_name name = db_read Pool (\<lambda>_ t. find (\<lambda>r. ro_name r = name) (roles t))"

definition find_default :: "(sql_error, role option) svc" where
  "find_default = db_read Pool (\<lambda>_ t. find ro_is_default (roles t))"

definition role_find_by_user :: "uuid \<Rightarrow> (sql_error, role list) svc" where
  "role_find_by_user u =
     db_read Pool (\<lambda>_ t. filter (\<lambda>r. list_ex (\<lambda>ur. ur_user_id ur = u \<and> ur_role_id ur = ro_id r) (user_roles t)) (roles t))"

definition find_granted_at :: "uuid \<Rightarrow> uuid \<Rightarrow> (sql_error, instant option) svc" where
  "find_granted_at u r =
     db_read Pool (\<lambda>_ t. map_option ur_granted_at (find (\<lambda>ur. ur_user_id ur = u \<and> ur_role_id ur = r) (user_roles t)))"

definition find_all_with_permissions :: "(sql_error, (role \<times> string list) list) svc" where
  "find_all_with_permissions =
     bnd role_find_all (\<lambda>rs.
     db_read Pool (\<lambda>_ t. map (\<lambda>r. (r, sort (permissions_of_role (ro_id r) t))) rs))"

definition role_create :: "executor \<Rightarrow> string \<Rightarrow> string option \<Rightarrow> (sql_error, role) svc" where
  "role_create ex name description =
     bnd fresh_uuid (\<lambda>i.
     db_stmt ex (\<lambda>now t.
       let row = \<lparr>ro_id = i, ro_created_at = now, ro_is_default = False, ro_name = name, ro_description = description\<rparr> in
       if 50 < length name then (Inl (ConstraintViolation ''roles_name''), t)
       else checked (name \<notin> ro_name ` set (roles t)) ''roles_name_key'' row (t\<lparr>roles := roles t @ [row]\<rparr>) t))"

definition role_set_permissions :: "executor \<Rightarrow> uuid \<Rightarrow> string list \<Rightarrow> (sql_error, unit) svc" where
  "role_set_permissions tx r names =
     seq (db_write tx (\<lambda>_ t. ((), t\<lparr>role_permissions := filter (\<lambda>(role, _). role \<noteq> r) (role_permissions t)\<rparr>)))
     (db_stmt tx (\<lambda>_ t.
       checked (list_ex (\<lambda>x. ro_id x = r) (roles t) \<or> filter (\<lambda>p. permission_name p \<in> set names) (permissions t) = [])
         ''role_permissions_role_id_fkey'' ()
         (t\<lparr>role_permissions := role_permissions t @
              map (\<lambda>p. (r, pe_id p)) (filter (\<lambda>p. permission_name p \<in> set names) (permissions t))\<rparr>) t))"

definition role_delete :: "executor \<Rightarrow> uuid \<Rightarrow> (sql_error, unit) svc" where
  "role_delete ex r =
     db_write ex (\<lambda>_ t. ((), t\<lparr>roles := filter (\<lambda>x. ro_id x \<noteq> r) (roles t),
       role_permissions := filter (\<lambda>(role, _). role \<noteq> r) (role_permissions t),
       user_roles := filter (\<lambda>ur. ur_role_id ur \<noteq> r) (user_roles t)\<rparr>))"

section \<open>Who holds a role\<close>

text \<open>\<^verbatim>\<open>ON CONFLICT DO NOTHING\<close> with \<^verbatim>\<open>fetch_one\<close>: a role already held returns no row.\<close>

definition assign_to_user :: "executor \<Rightarrow> uuid \<Rightarrow> uuid \<Rightarrow> uuid option \<Rightarrow> (sql_error, user_role) svc" where
  "assign_to_user ex u r granted_by =
     db_stmt ex (\<lambda>now t.
       let row = \<lparr>ur_user_id = u, ur_role_id = r, ur_granted_by = granted_by, ur_granted_at = now\<rparr> in
       if \<not> refers_to_user (Some u) t \<or> \<not> refers_to_user granted_by t \<or> \<not> list_ex (\<lambda>x. ro_id x = r) (roles t)
       then (Inl (ConstraintViolation ''user_roles_fkey''), t)
       else if list_ex (\<lambda>ur. ur_user_id ur = u \<and> ur_role_id ur = r) (user_roles t) then (Inl RowNotFound, t)
       else (Inr row, t\<lparr>user_roles := user_roles t @ [row]\<rparr>))"

definition revoke_from_user :: "uuid \<Rightarrow> uuid \<Rightarrow> (sql_error, unit) svc" where
  "revoke_from_user u r =
     db_write Pool (\<lambda>_ t. ((), t\<lparr>user_roles := filter (\<lambda>ur. \<not> (ur_user_id ur = u \<and> ur_role_id ur = r)) (user_roles t)\<rparr>))"

definition unassign_role :: "executor \<Rightarrow> uuid \<Rightarrow> uuid \<Rightarrow> (sql_error, bool) svc" where
  "unassign_role ex u r =
     db_write ex (\<lambda>_ t.
       let P = (\<lambda>ur. ur_user_id ur = u \<and> ur_role_id ur = r) in
       (length (filter P (user_roles t)) = 1, t\<lparr>user_roles := filter (\<lambda>ur. \<not> P ur) (user_roles t)\<rparr>))"

section \<open>Frames\<close>

lemma keeps_role_reads [frame_intros]:
  "keeps same_db (user_has_permission ex u p)" "keeps same_db (permission_held ex p)" "keeps same_db (grants_administration ex r)"
  "keeps same_db (holds_administration ex u)" "keeps same_db (holds_role ex u r)" "keeps same_db (holders ex r)"
  "keeps same_db (lock_permissions ex r)" "keeps same_db (unknown_permissions ns)" "keeps same_db role_find_all"
  "keeps same_db (role_find_by_id i)" "keeps same_db (role_find_by_name n)" "keeps same_db find_default"
  "keeps same_db find_all_with_permissions"
  unfolding user_has_permission_def permission_held_def grants_administration_def holds_administration_def holds_role_def
    holders_def lock_permissions_def unknown_permissions_def role_find_all_def role_find_by_id_def role_find_by_name_def
    find_default_def find_all_with_permissions_def
  by (auto intro!: sd.keeps_intros frame_intros)

lemma keeps_role_writes:
  assumes [simp]: "\<And>t x. f (t\<lparr>roles := x\<rparr>) = f t" "\<And>t x. f (t\<lparr>role_permissions := x\<rparr>) = f t" "\<And>t x. f (t\<lparr>user_roles := x\<rparr>) = f t"
  shows "keeps (same_of f) (role_create ex n d)" "keeps (same_of f) (role_set_permissions ex r ns)"
    "keeps (same_of f) (role_delete ex r)" "keeps (same_of f) (assign_to_user ex u r g)"
    "keeps (same_of f) (revoke_from_user u r)" "keeps (same_of f) (unassign_role ex u r)"
  unfolding role_create_def role_set_permissions_def role_delete_def assign_to_user_def revoke_from_user_def unassign_role_def
  by (auto intro!: so.keeps_intros keeps_same_of_stmt keeps_same_of_write frame_intros [THEN so.keeps_same_db]
      simp: Let_def checked_def)

lemma links_role_tables [simp]:
  "links (t\<lparr>roles := a\<rparr>) = links t" "links (t\<lparr>role_permissions := b\<rparr>) = links t"
  by (simp_all add: links_def)

lemmas role_frame [session_frame] = keeps_role_writes [where f = sessions, simplified]
lemmas role_links [link_intros] = keeps_role_writes [where f = links, simplified, THEN keeps_mailbox_other]

end
