(* ===== verification/Register.thy ===== *)
theory Register
  imports Challenge Pwned Roles_Repo
begin

text \<open>
  Registration and the verification of an address (\<^verbatim>\<open>services/auth/register.rs\<close>): a
  registration answers the same whether its address has an account or not, and a link
  activates an account only with the password of the registration that sent it.
\<close>

section \<open>Constants and shared steps\<close>

definition EMAIL_TOKEN_EXPIRY_SECS :: u64 where "EMAIL_TOKEN_EXPIRY_SECS = 86400"
definition MAX_VERIFICATION_RESENDS_BY_IP :: int where "MAX_VERIFICATION_RESENDS_BY_IP = 5"
definition VERIFICATION_RESEND_IP_WINDOW_SECS :: int where "VERIFICATION_RESEND_IP_WINDOW_SECS = 900"
definition MAX_VERIFICATION_RESENDS_BY_ACCOUNT :: int where "MAX_VERIFICATION_RESENDS_BY_ACCOUNT = 3"
definition VERIFICATION_RESEND_ACCOUNT_WINDOW_SECS :: int where "VERIFICATION_RESEND_ACCOUNT_WINDOW_SECS = 3600"
definition MAX_ACCOUNT_EXISTS_NOTICES :: int where "MAX_ACCOUNT_EXISTS_NOTICES = 3"
definition ACCOUNT_EXISTS_NOTICE_WINDOW_SECS :: int where "ACCOUNT_EXISTS_NOTICE_WINDOW_SECS = 3600"
definition FORGOT_PASSWORD_MIN_DURATION :: duration where "FORGOT_PASSWORD_MIN_DURATION = 250000000"

text \<open>The rest of the minimum duration of an answer is slept.\<close>

definition pad_since :: "instant \<Rightarrow> ('e, unit) svc" where
  "pad_since start =
     bnd (gets real_now) (\<lambda>stop.
     when_do (stop - start < FORGOT_PASSWORD_MIN_DURATION)
       (modify (\<lambda>w. w\<lparr>real_now := real_now w + (FORGOT_PASSWORD_MIN_DURATION - (stop - start))\<rparr>)))"

text \<open>A unique violation whose constraint is listed is the conflict it stands for; any other
  error of the database is internal.\<close>

definition from_unique_violation :: "(string \<times> string) list \<Rightarrow> sql_error \<Rightarrow> app_error" where
  "from_unique_violation mappings e =
     (case e of
        ConstraintViolation name \<Rightarrow>
          (case map_of mappings name of Some code \<Rightarrow> Conflict code | None \<Rightarrow> Internal)
      | _ \<Rightarrow> Internal)"

definition notify_existing_account :: "user \<Rightarrow> ('e, unit) svc" where
  "notify_existing_account user =
     send_mail \<lparr>m_kind = ''account_exists'', m_to = u_email user,
       m_args = [AStr (u_username user), AStr (u_preferred_locale user)]\<rparr>"

section \<open>Links\<close>

definition verification_budget :: "uuid \<Rightarrow> ipnetwork option \<Rightarrow> ('e, bool) svc" where
  "verification_budget user_id ip =
     bnd (case ip of
            None \<Rightarrow> ret False
          | Some ip \<Rightarrow> budget_exhausted (VerificationAccountIp user_id (ip_bucket (net_ip ip)))
              MAX_VERIFICATION_RESENDS_BY_ACCOUNT VERIFICATION_RESEND_ACCOUNT_WINDOW_SECS) (\<lambda>over.
     if over then ret True
     else budget_exhausted (VerificationAccount user_id) (MAX_VERIFICATION_RESENDS_BY_ACCOUNT * 3)
       VERIFICATION_RESEND_ACCOUNT_WINDOW_SECS)"

definition issue_verification ::
  "app_state \<Rightarrow> user \<Rightarrow> pending_credentials option \<Rightarrow> ipnetwork option \<Rightarrow> string option \<Rightarrow> uuid option \<Rightarrow> (app_error, unit) svc" where
  "issue_verification st user credentials ip user_agent request_id =
     bnd (verification_budget (u_id user) ip) (\<lambda>over.
     if over then ret ()
     else bnd (draw (generate_token st)) (\<lambda>raw_token.
       seq (in_tx internal (\<lambda>tx.
         bnd clock_now (\<lambda>now.
         seq (map_err internal (create_verification tx
                \<lparr>nv_user_id = u_id user, nv_token_hash = crypto_sha256 st raw_token,
                 nv_expires_at = in_secs now EMAIL_TOKEN_EXPIRY_SECS, nv_request_ip = ip,
                 nv_request_user_agent = user_agent, nv_target_email = u_email user, nv_credentials = credentials\<rparr>))
         (map_err internal (audit_append tx (Some (u_id user)) request_id EmailVerificationSent ip (JObj []))))))
       (send_mail \<lparr>m_kind = ''verification'', m_to = u_email user,
          m_args = (case credentials of
              Some c \<Rightarrow> [AStr (pc_username c), AStr (pc_preferred_locale c), AStr raw_token]
            | None \<Rightarrow> [AStr (u_username user), AStr (u_preferred_locale user), AStr raw_token])\<rparr>)))"

definition resend_verification ::
  "app_state \<Rightarrow> string \<Rightarrow> ipnetwork option \<Rightarrow> string option \<Rightarrow> uuid option \<Rightarrow> (app_error, unit) svc" where
  "resend_verification st email ip user_agent request_id =
     bnd (case ip of
            None \<Rightarrow> ret False
          | Some ip \<Rightarrow> budget_exhausted (VerificationIp (ip_bucket (net_ip ip)))
              MAX_VERIFICATION_RESENDS_BY_IP VERIFICATION_RESEND_IP_WINDOW_SECS) (\<lambda>over.
     if over then throw RateLimitExceeded
     else bnd (gets real_now) (\<lambda>started.
       bnd (map_err internal (user_find_by_email email)) (\<lambda>found.
       bnd (attempt (case found of
              Some user \<Rightarrow> if u_status user = PendingVerification
                then issue_verification st user None ip user_agent request_id else ret ()
            | None \<Rightarrow> ret ())) (\<lambda>result.
       seq (pad_since started) (of_sum result)))))"

section \<open>Registration\<close>

text \<open>What a new account commits: its row, its role, its link, the audit entry and the event. A
  race on the address ends as if it had been taken before.\<close>

definition create_account ::
  "app_state \<Rightarrow> string \<Rightarrow> string \<Rightarrow> string \<Rightarrow> string \<Rightarrow> role option \<Rightarrow> string \<Rightarrow> ipnetwork option \<Rightarrow> string option \<Rightarrow>
   uuid option \<Rightarrow> (user option + app_error, user) svc" where
  "create_account st username email h loc default_role raw_token ip user_agent request_id =
     in_tx (Inr \<circ> internal) (\<lambda>tx.
       bnd (attempt (user_create tx \<lparr>nu_username = username, nu_email = email, nu_password_hash = h, nu_preferred_locale = loc\<rparr>)) (\<lambda>created.
       case created of
         Inl e \<Rightarrow>
           (case from_unique_violation [(''users_email_key'', ''email_taken''), (''users_username_lower_key'', ''username_taken'')] e of
              Conflict code \<Rightarrow> if code = ''email_taken'' then throw (Inl None) else throw (Inr (Conflict code))
            | other \<Rightarrow> throw (Inr other))
       | Inr user \<Rightarrow>
           map_err Inr
             (seq (case default_role of
                     None \<Rightarrow> ret ()
                   | Some r \<Rightarrow> seq (map_err internal (assign_to_user tx (u_id user) (ro_id r) None)) (ret ()))
             (bnd clock_now (\<lambda>now.
              seq (map_err internal (create_verification tx
                     \<lparr>nv_user_id = u_id user, nv_token_hash = crypto_sha256 st raw_token,
                      nv_expires_at = in_secs now EMAIL_TOKEN_EXPIRY_SECS, nv_request_ip = ip,
                      nv_request_user_agent = user_agent, nv_target_email = email, nv_credentials = None\<rparr>))
              (seq (map_err internal (audit_append tx (Some (u_id user)) request_id AuditRegister ip (JObj [])))
              (seq (enqueue tx ''user.created'' (JObj [(''user_id'', JUuid (u_id user))]))
              (ret user))))))))"

definition register_taken ::
  "app_state \<Rightarrow> user \<Rightarrow> string \<Rightarrow> string \<Rightarrow> string \<Rightarrow> ipnetwork option \<Rightarrow> string option \<Rightarrow> uuid option \<Rightarrow> (app_error, unit) svc" where
  "register_taken st existing username h loc ip user_agent request_id =
     bnd clock_now (\<lambda>now.
     seq (map_err internal (reserve_username username (u_id existing) (in_secs now EMAIL_TOKEN_EXPIRY_SECS)))
     (if u_status existing = PendingVerification then
        issue_verification st existing
          (Some \<lparr>pc_password_hash = h, pc_username = username, pc_preferred_locale = loc\<rparr>) ip user_agent request_id
      else bnd (budget_exhausted (AccountExists (u_id existing)) MAX_ACCOUNT_EXISTS_NOTICES ACCOUNT_EXISTS_NOTICE_WINDOW_SECS) (\<lambda>over.
        if over then ret () else notify_existing_account existing)))"

definition register_account ::
  "app_state \<Rightarrow> string \<Rightarrow> string \<Rightarrow> string \<Rightarrow> string \<Rightarrow> ipnetwork option \<Rightarrow> string option \<Rightarrow> uuid option \<Rightarrow>
   (app_error, user option) svc" where
  "register_account st username email password_plaintext loc ip user_agent request_id =
     bnd (map_err internal (username_unavailable username)) (\<lambda>taken.
     if taken then throw (Conflict ''username_taken'')
     else seq (ensure_not_breached st password_plaintext)
     (bnd (map_err internal (hash_async st password_plaintext)) (\<lambda>h.
      bnd (map_err internal (user_find_by_email email)) (\<lambda>found.
      case found of
        Some existing \<Rightarrow> seq (register_taken st existing username h loc ip user_agent request_id) (ret None)
      | None \<Rightarrow>
          bnd (map_err internal find_default) (\<lambda>default_role.
          bnd (draw (generate_token st)) (\<lambda>raw_token.
          early
            (bnd (create_account st username email h loc default_role raw_token ip user_agent request_id) (\<lambda>user.
             seq (send_mail \<lparr>m_kind = ''verification'', m_to = email, m_args = [AStr username, AStr loc, AStr raw_token]\<rparr>)
             (ret (Some user))))))))))"

definition register ::
  "app_state \<Rightarrow> string \<Rightarrow> string \<Rightarrow> string \<Rightarrow> string \<Rightarrow> ipnetwork option \<Rightarrow> string option \<Rightarrow> uuid option \<Rightarrow>
   (app_error, user option) svc" where
  "register st username email password_plaintext loc ip user_agent request_id =
     (let per_hour = int (unat (registrations_per_ip_per_hour st)) in
      bnd (case ip of
             Some ip \<Rightarrow> if 0 < per_hour then budget_exhausted (RegisterIp (ip_bucket (net_ip ip))) per_hour 3600 else ret False
           | None \<Rightarrow> ret False) (\<lambda>over.
      if over then throw RateLimitExceeded
      else bnd (gets real_now) (\<lambda>started.
        bnd (attempt (register_account st username email password_plaintext loc ip user_agent request_id)) (\<lambda>result.
        seq (pad_since started) (of_sum result)))))"

section \<open>Verifying an address\<close>

definition verification_credentials :: "email_verification_token \<Rightarrow> pending_credentials option" where
  "verification_credentials record =
     (case (ev_password_hash record, ev_username record, ev_preferred_locale record) of
        (Some h, Some name, Some loc) \<Rightarrow> Some \<lparr>pc_password_hash = h, pc_username = name, pc_preferred_locale = loc\<rparr>
      | _ \<Rightarrow> None)"

definition verify_email ::
  "app_state \<Rightarrow> string \<Rightarrow> string \<Rightarrow> ipnetwork option \<Rightarrow> uuid option \<Rightarrow> (app_error, unit) svc" where
  "verify_email st raw_token password_plaintext ip request_id =
     (let h = crypto_sha256 st raw_token in
      seq (guard_token_submission ''vf'' ip h)
      (bnd (check_one_time_token ev_used_at ev_expires_at (find_verification_by_hash h)) (\<lambda>record.
       bnd (case ev_password_hash record of
              Some carried \<Rightarrow> ret carried
            | None \<Rightarrow>
                bnd (map_err internal (user_find_by_id Pool (ev_user_id record))) (\<lambda>found.
                bnd (ok_or TokenInvalid found) (\<lambda>user. ret (u_password_hash user)))) (\<lambda>expected_hash.
       bnd (map_err internal (of_sum (verify_async st password_plaintext expected_hash))) (\<lambda>matches.
       if \<not> matches then throw InvalidCredentials
       else in_tx internal (\<lambda>tx.
         bnd (map_err internal (consume_verification tx (ev_id record))) (\<lambda>consumed.
         if \<not> consumed then throw TokenInvalid
         else
           seq (case verification_credentials record of
                  None \<Rightarrow> ret ()
                | Some c \<Rightarrow> map_err internal (adopt_pending_credentials tx (ev_user_id record) c))
           (seq (map_err internal (revoke_active_verification_by_user tx (ev_user_id record)))
           (seq (map_err internal (mark_email_verified tx (ev_user_id record)))
           (seq (map_err internal (audit_append tx (Some (ev_user_id record)) request_id EmailVerified ip (JObj [])))
           (enqueue tx ''user.email_verified'' (JObj [(''user_id'', JUuid (ev_user_id record))]))))))))))))"

section \<open>Frames\<close>

lemma keeps_pad_since [frame_intros]: "keeps same_db (pad_since start)"
  unfolding pad_since_def by (auto intro!: sd.keeps_intros simp: keeps_def modify_def same_db_def later_def when_do_def ret_def bnd_def gets_def)

lemma keeps_register_calls [frame_intros]:
  "keeps same_db (notify_existing_account u)" "keeps same_db (verification_budget i ip)"
  unfolding notify_existing_account_def verification_budget_def
  by (auto intro!: sd.keeps_intros frame_intros split: option.split)

lemma register_frame [session_frame]:
  "keeps (same_of sessions) (issue_verification st u c ip ua req)"
  "keeps (same_of sessions) (resend_verification st email ip ua req)"
  "keeps (same_of sessions) (create_account st name email h loc role tok ip ua req)"
  "keeps (same_of sessions) (register_taken st u name h loc ip ua req)"
  "keeps (same_of sessions) (register_account st name email pw loc ip ua req)"
  "keeps (same_of sessions) (register st name email pw loc ip ua req)"
  "keeps (same_of sessions) (verify_email st tok pw ip req)"
  unfolding register_def register_account_def register_taken_def create_account_def resend_verification_def issue_verification_def
    verify_email_def Let_def
  by (auto intro!: so.keeps_in_tx so.keeps_intros session_frame frame_intros [THEN so.keeps_same_db] keeps_link_reads
      split: option.split sum.split app_error.split)

lemma register_links [link_intros]:
  "keeps mailbox_evolves (issue_verification st u c ip ua req)"
  "keeps mailbox_evolves (resend_verification st email ip ua req)"
  "keeps mailbox_evolves (create_account st name email h loc role tok ip ua req)"
  "keeps mailbox_evolves (register_taken st u name h loc ip ua req)"
  "keeps mailbox_evolves (register_account st name email pw loc ip ua req)"
  "keeps mailbox_evolves (register st name email pw loc ip ua req)"
  "keeps mailbox_evolves (verify_email st tok pw ip req)"
  unfolding register_def register_account_def register_taken_def create_account_def resend_verification_def issue_verification_def
    verify_email_def Let_def
  by (auto intro!: mb.keeps_in_tx mb.keeps_intros link_intros frame_intros [THEN mb.keeps_same_db] keeps_link_reads
      split: option.split sum.split app_error.split)

end
