(* ===== verification/Login.thy ===== *)
theory Login
  imports Register Refresh
begin

text \<open>
  Signing in with a password (\<^verbatim>\<open>services/auth/login.rs\<close>) or a link sent by mail
  (\<^verbatim>\<open>services/auth/magic_link.rs\<close>): the brute-force ceilings, the reservation of an attempt,
  the lockout, and the hand-off to the second factor. Reads joined by \<^verbatim>\<open>try_join!\<close> run one
  after the other; the new hash of a weak password, computed in the background by the code, is
  stored at the point where the task is spawned. The decoy hash verified for an unknown
  identifier changes nothing and is not computed.
\<close>

section \<open>The lock\<close>

definition lockout_duration :: "u64 \<Rightarrow> duration" where
  "lockout_duration secs = (if unat secs < 2 ^ 63 then seconds (int (unat secs)) else seconds (2 ^ 63 - 1) + 999999999)"

definition lockout_until :: "int \<Rightarrow> u32 \<Rightarrow> u64 \<Rightarrow> instant \<Rightarrow> instant option" where
  "lockout_until consecutive threshold duration_secs now =
     (if threshold = 0 \<or> consecutive < int (unat threshold) then None
      else Some (saturating_add now (lockout_duration duration_secs)))"

definition notify_locked :: "user \<Rightarrow> instant \<Rightarrow> ('e, unit) svc" where
  "notify_locked user locked_until =
     bnd clock_now (\<lambda>now.
     send_mail \<lparr>m_kind = ''account_locked'', m_to = u_email user,
       m_args = [AStr (u_username user), AStr (u_preferred_locale user),
         ANum ((max (whole_seconds (locked_until - now)) 0 + 59) div 60)]\<rparr>)"

definition rehash_if_weaker :: "app_state \<Rightarrow> user \<Rightarrow> string \<Rightarrow> ('e, unit) svc" where
  "rehash_if_weaker st user password_plaintext =
     (if \<not> needs_rehash st (u_password_hash user) then ret ()
      else bnd (attempt (hash_async st password_plaintext)) (\<lambda>replacement.
        case replacement of
          Inl _ \<Rightarrow> ret ()
        | Inr h \<Rightarrow> ignore (replace_password_hash (u_id user) (u_password_hash user) h)))"

section \<open>Attempts\<close>

definition reserve_attempt ::
  "uuid option \<Rightarrow> ipnetwork option \<Rightarrow> int \<Rightarrow> (app_error, rkey list) svc" where
  "reserve_attempt account ip identifier_ceiling =
     (let keys = (case account of None \<Rightarrow> [] | Some i \<Rightarrow> [(LoginTry i, identifier_ceiling)]) @
                 (case ip of None \<Rightarrow> [] | Some ip \<Rightarrow> [(LoginTryIp (ip_bucket (net_ip ip)), MAX_FAILURES_BY_IP)]) in
      bnd (attempt (consume (map (\<lambda>(key, limit). \<lparr>b_key = key, b_limit = limit, b_window_secs = BRUTE_FORCE_WINDOW_SECS\<rparr>) keys))) (\<lambda>res.
      case res of
        Inr consumed \<Rightarrow>
          if exceeded consumed then seq (release (map fst keys)) (throw RateLimitExceeded)
          else ret (map fst keys)
      | Inl _ \<Rightarrow> ret []))"

definition captcha_enforced :: "app_state \<Rightarrow> bool" where
  "captcha_enforced st \<longleftrightarrow> (case captcha_secret st of None \<Rightarrow> False | Some secret \<Rightarrow> secret \<noteq> [])"

definition identifier_ceiling :: "app_state \<Rightarrow> int" where
  "identifier_ceiling st = (if captcha_enforced st then 2 ^ 63 - 1 else MAX_FAILURES_BY_IDENTIFIER)"

definition recent_failures_of ::
  "app_state \<Rightarrow> string \<Rightarrow> ipnetwork option \<Rightarrow> (app_error, recent_failures) svc" where
  "recent_failures_of st identifier ip =
     bnd clock_now (\<lambda>now.
     let brute_force_cutoff = now - seconds BRUTE_FORCE_WINDOW_SECS in
     bnd (case ip of
            Some ip \<Rightarrow> map_err internal (count_recent_failures_by_ip (ip_bucket_network (net_ip ip)) brute_force_cutoff MAX_FAILURES_BY_IP)
          | None \<Rightarrow> ret 0) (\<lambda>ip_failures.
     bnd (case ip of
            Some ip \<Rightarrow>
              bnd (attempt redis_conn) (\<lambda>conn.
              case conn of
                Inr _ \<Rightarrow> redis_read (\<lambda>now r. rpfcount st now (CsHll (ip_bucket (net_ip ip))) r) 0
              | Inl _ \<Rightarrow> ret 0)
          | None \<Rightarrow> ret 0) (\<lambda>distinct_identifiers.
     bnd (map_err internal (count_recent_failures_by_identifier (storable_identifier identifier) brute_force_cutoff MAX_FAILURES_BY_IDENTIFIER)) (\<lambda>failures.
     ret \<lparr>rf_by_ip = ip_failures, rf_distinct_identifiers_by_ip = distinct_identifiers, rf_by_identifier = failures\<rparr>))))"

definition login_ceilings :: "app_state \<Rightarrow> recent_failures" where
  "login_ceilings st =
     \<lparr>rf_by_ip = MAX_FAILURES_BY_IP, rf_distinct_identifiers_by_ip = CS_MAX_DISTINCT_IDENTIFIERS,
      rf_by_identifier = identifier_ceiling st\<rparr>"

section \<open>Wrong passwords\<close>

definition refuse_locked :: "user \<Rightarrow> string \<Rightarrow> int \<Rightarrow> ipnetwork option \<Rightarrow> string option \<Rightarrow> (app_error, user) svc" where
  "refuse_locked user identifier failures ip user_agent =
     seq (record_failure (Some (u_id user)) identifier FailedAccountLocked ip user_agent)
     (seq (track_credential_stuffing ip identifier)
     (seq (apply_backoff (failures + 1))
     (throw InvalidCredentials)))"

definition refuse_unknown :: "app_state \<Rightarrow> string \<Rightarrow> int \<Rightarrow> ipnetwork option \<Rightarrow> string option \<Rightarrow> (app_error, user) svc" where
  "refuse_unknown st identifier failures ip user_agent =
     seq (record_failure None identifier UnknownIdentifier ip user_agent)
     (seq (track_credential_stuffing ip identifier)
     (seq (ignore (count_consecutive_failures_by_user 0 (int (unat (lockout_threshold st)))))
     (seq (apply_backoff (failures + 1))
     (throw InvalidCredentials))))"

definition apply_lockout :: "app_state \<Rightarrow> user \<Rightarrow> ipnetwork option \<Rightarrow> uuid option \<Rightarrow> ('e, unit) svc" where
  "apply_lockout st user ip request_id =
     bnd (attempt (count_consecutive_failures_by_user (u_id user) (int (unat (lockout_threshold st))))) (\<lambda>counted.
     bnd clock_now (\<lambda>now.
     case lockout_until (case counted of Inr n \<Rightarrow> n | Inl _ \<Rightarrow> 0) (lockout_threshold st) (lockout_duration_secs st) now of
       None \<Rightarrow> ret ()
     | Some locked_until \<Rightarrow>
         bnd (attempt (set_locked_until (u_id user) locked_until)) (\<lambda>locked.
         if locked = Inr True then
           seq (ignore (audit_append Pool (Some (u_id user)) request_id AuditAccountSuspended ip
                  (JObj [(''reason'', JStr ''lockout''), (''locked_until'', JNum (unix_timestamp locked_until))])))
           (notify_locked user locked_until)
         else ret ())))"

definition refuse_password ::
  "app_state \<Rightarrow> user \<Rightarrow> string \<Rightarrow> int \<Rightarrow> ipnetwork option \<Rightarrow> string option \<Rightarrow> uuid option \<Rightarrow> (app_error, user) svc" where
  "refuse_password st user identifier failures ip user_agent request_id =
     seq (record_failure (Some (u_id user)) identifier InvalidPassword ip user_agent)
     (seq (track_credential_stuffing ip identifier)
     (seq (apply_lockout st user ip request_id)
     (seq (apply_backoff (failures + 1))
     (throw InvalidCredentials))))"

definition refuse_pending ::
  "app_state \<Rightarrow> user \<Rightarrow> string \<Rightarrow> ipnetwork option \<Rightarrow> string option \<Rightarrow> uuid option \<Rightarrow> (app_error, 'a) svc" where
  "refuse_pending st user identifier ip user_agent request_id =
     seq (record_failure (Some (u_id user)) identifier FailedEmailNotVerified ip user_agent)
     (seq (ignore (issue_verification st user None ip user_agent request_id))
     (throw InvalidCredentials))"

section \<open>The second factor\<close>

datatype login_result = Complete auth_tokens | TwoFactorRequired string string

fun challenge_of :: "two_factor_type \<Rightarrow> challenge_method" where
  "challenge_of Email = ChallengeEmail"
| "challenge_of Totp = ChallengeTotp"

text \<open>\<^verbatim>\<open>for _ in MAX_OPEN_CHALLENGES - 1..open\<close>, left at the first \<^verbatim>\<open>SPOP\<close> that yields nothing.\<close>

fun drop_challenges :: "app_state \<Rightarrow> uuid \<Rightarrow> nat \<Rightarrow> ('e, unit) svc" where
  "drop_challenges st user_id 0 = ret ()"
| "drop_challenges st user_id (Suc n) =
     bnd (draw (random_index st)) (\<lambda>i.
     bnd (attempt (redis_cmd (\<lambda>now r. rspop i now (user_pre_auth_index_key user_id) r))) (\<lambda>popped.
     case popped of
       Inr (Some dropped) \<Rightarrow>
         seq (redis_ignored (\<lambda>_ r. rdel_all (challenge_keys_by_id dropped) r)) (drop_challenges st user_id n)
     | _ \<Rightarrow> ret ()))"

definition open_challenge ::
  "app_state \<Rightarrow> user \<Rightarrow> challenge_method \<Rightarrow> bool \<Rightarrow> (app_error, string) svc" where
  "open_challenge st user method remember_me =
     bnd (draw (generate_token st)) (\<lambda>pre_auth_token.
     let index = user_pre_auth_index_key (u_id user) in
     seq (map_err redis_unavailable redis_conn)
     (seq (map_err redis_unavailable (redis_cmd (\<lambda>now r. ((), rset_ex now (pre_auth_key st pre_auth_token)
            (RState \<lparr>pa_user_id = u_id user, pa_remember_me = remember_me, pa_method = Some method\<rparr>) PRE_AUTH_TTL_SECS r))))
     (bnd (redis_read (\<lambda>now r. length (rsmembers now index r)) 0) (\<lambda>opened.
     seq (drop_challenges st (u_id user) (opened - (MAX_OPEN_CHALLENGES - 1)))
     (seq (redis_ignored (\<lambda>now r. rsadd now index (challenge_id st pre_auth_token) r))
     (seq (redis_ignored (\<lambda>now r. rexpire now index PRE_AUTH_TTL_SECS r))
     (ret pre_auth_token)))))))"

definition send_challenge_code :: "app_state \<Rightarrow> user \<Rightarrow> challenge_method \<Rightarrow> string \<Rightarrow> (app_error, unit) svc" where
  "send_challenge_code st user method pre_auth_token =
     (if method = ChallengeEmail then
        bnd (attempt (send_code st (u_id user) (Some pre_auth_token))) (\<lambda>sent.
        case sent of
          Inr _ \<Rightarrow> ret ()
        | Inl e \<Rightarrow> if e = RateLimitExceeded then ret () else throw e)
      else ret ())"

definition first_factor_proven ::
  "app_state \<Rightarrow> user \<Rightarrow> string option \<Rightarrow> ipnetwork option \<Rightarrow> string option \<Rightarrow> unicode option \<Rightarrow> bool \<Rightarrow> uuid option \<Rightarrow> json \<Rightarrow>
   (app_error, login_result) svc" where
  "first_factor_proven st user identifier ip user_agent device_name remember_me request_id audit_metadata =
     bnd (map_err internal (find_primary_by_user (u_id user))) (\<lambda>primary_method.
     case primary_method of
       Some primary \<Rightarrow>
         (let method = challenge_of (tf_method_type primary) in
          bnd (open_challenge st user method remember_me) (\<lambda>pre_auth_token.
          seq (send_challenge_code st user method pre_auth_token)
          (ret (TwoFactorRequired pre_auth_token (challenge_method_as_str method)))))
     | None \<Rightarrow>
         bnd (issue_tokens st (u_id user) ip user_agent device_name remember_me Web None None
           (Some \<lparr>si_identifier = identifier, si_request_id = request_id, si_audit_metadata = audit_metadata,
                  si_second_factor = False\<rparr>)) (\<lambda>tokens.
         ret (Complete tokens)))"

section \<open>Signing in with a password\<close>

definition check_password ::
  "app_state \<Rightarrow> string \<Rightarrow> string \<Rightarrow> user option \<Rightarrow> rkey list \<Rightarrow> int \<Rightarrow> ipnetwork option \<Rightarrow> string option \<Rightarrow> uuid option \<Rightarrow>
   (app_error, user) svc" where
  "check_password st identifier password_plaintext user_opt reserved failures ip user_agent request_id =
     (case user_opt of
        None \<Rightarrow> refuse_unknown st identifier failures ip user_agent
      | Some user \<Rightarrow>
          bnd (map_err internal (of_sum (verify_async st password_plaintext (u_password_hash user)))) (\<lambda>password_ok.
          bnd clock_now (\<lambda>now.
          if is_locked user now then refuse_locked user identifier failures ip user_agent
          else if \<not> password_ok then refuse_password st user identifier failures ip user_agent request_id
          else seq (release reserved) (seq (rehash_if_weaker st user password_plaintext) (ret user)))))"

definition login ::
  "app_state \<Rightarrow> string \<Rightarrow> string \<Rightarrow> ipnetwork option \<Rightarrow> string option \<Rightarrow> unicode option \<Rightarrow> bool \<Rightarrow> uuid option \<Rightarrow>
   (app_error, login_result) svc" where
  "login st identifier password_plaintext ip user_agent device_name remember_me request_id =
     bnd (recent_failures_of st identifier ip) (\<lambda>recent.
     if reach recent (login_ceilings st) then throw RateLimitExceeded
     else bnd (map_err internal (user_find_by_identifier identifier)) (\<lambda>user_opt.
       bnd (reserve_attempt (map_option u_id user_opt) ip (identifier_ceiling st)) (\<lambda>reserved.
       bnd (check_password st identifier password_plaintext user_opt reserved (rf_by_identifier recent) ip user_agent request_id) (\<lambda>user.
       if u_status user = PendingVerification then refuse_pending st user identifier ip user_agent request_id
       else seq (ensure_status_allows_sign_in user)
         (first_factor_proven st user (Some identifier) ip user_agent device_name remember_me request_id (JObj []))))))"

section \<open>Signing in with a link\<close>

definition MAGIC_LINK_EXPIRY_SECS :: u64 where "MAGIC_LINK_EXPIRY_SECS = 900"
definition MAX_MAGIC_LINKS_BY_IP :: int where "MAX_MAGIC_LINKS_BY_IP = 5"
definition MAGIC_LINK_IP_WINDOW_SECS :: int where "MAGIC_LINK_IP_WINDOW_SECS = 900"

definition ensure_magic_links_enabled :: "app_state \<Rightarrow> (app_error, unit) svc" where
  "ensure_magic_links_enabled st = (if magic_links st then ret () else throw NotFound)"

definition send_link ::
  "app_state \<Rightarrow> user \<Rightarrow> ipnetwork option \<Rightarrow> string option \<Rightarrow> uuid option \<Rightarrow> (app_error, unit) svc" where
  "send_link st user ip user_agent request_id =
     bnd (mailbox_budget_exhausted ''ml_account'' (u_id user) ip (i64_of_u64 MAGIC_LINK_EXPIRY_SECS)) (\<lambda>over.
     if over then ret ()
     else bnd (draw (generate_token st)) (\<lambda>raw_token.
       bnd clock_now (\<lambda>now.
       seq (map_err internal (add_magic_link (u_id user) (crypto_sha256 st raw_token) (in_secs now MAGIC_LINK_EXPIRY_SECS) ip user_agent))
       (seq (map_err internal (audit_append Pool (Some (u_id user)) request_id MagicLinkSent ip (JObj [])))
       (send_mail \<lparr>m_kind = ''magic_link'', m_to = u_email user,
          m_args = [AStr (u_username user), AStr (u_preferred_locale user), AStr raw_token,
            ANum (i64_of_u64 MAGIC_LINK_EXPIRY_SECS div 60)]\<rparr>)))))"

definition request_magic_link ::
  "app_state \<Rightarrow> string \<Rightarrow> ipnetwork option \<Rightarrow> string option \<Rightarrow> uuid option \<Rightarrow> (app_error, unit) svc" where
  "request_magic_link st email ip user_agent request_id =
     seq (ensure_magic_links_enabled st)
     (bnd (case ip of
             None \<Rightarrow> ret False
           | Some ip \<Rightarrow> budget_exhausted (MagicLinkIp (ip_bucket (net_ip ip))) MAX_MAGIC_LINKS_BY_IP MAGIC_LINK_IP_WINDOW_SECS) (\<lambda>over.
      if over then throw RateLimitExceeded
      else bnd (gets real_now) (\<lambda>started.
        bnd (map_err internal (user_find_by_email email)) (\<lambda>found.
        bnd (attempt (case found of
               Some user \<Rightarrow> if u_status user = UserActive then send_link st user ip user_agent request_id else ret ()
             | None \<Rightarrow> ret ())) (\<lambda>result.
        seq (pad_since started) (of_sum result))))))"

definition complete_magic_link ::
  "app_state \<Rightarrow> string \<Rightarrow> ipnetwork option \<Rightarrow> string option \<Rightarrow> unicode option \<Rightarrow> bool \<Rightarrow> uuid option \<Rightarrow>
   (app_error, login_result) svc" where
  "complete_magic_link st raw_token ip user_agent device_name remember_me request_id =
     (let h = crypto_sha256 st raw_token in
      seq (ensure_magic_links_enabled st)
      (seq (guard_token_submission ''ml'' ip h)
      (bnd (check_one_time_token ml_used_at ml_expires_at (find_magic_link_by_hash h)) (\<lambda>record.
       bnd (map_err internal (consume_magic_link (ml_id record))) (\<lambda>took.
       if \<not> took then throw TokenInvalid
       else bnd (map_err internal (user_find_by_id Pool (ml_user_id record))) (\<lambda>found.
         bnd (ok_or TokenInvalid found) (\<lambda>user.
         seq (ensure_account_usable user)
         (first_factor_proven st user None ip user_agent device_name remember_me request_id
            (JObj [(''method'', JStr ''magic_link'')])))))))))"

section \<open>Frames\<close>

lemma keeps_drop_challenges [frame_intros]: "keeps same_db (drop_challenges st u n)"
  by (induction n) (auto intro!: sd.keeps_intros frame_intros split: sum.split option.split)

lemma keeps_login_calls [frame_intros]:
  "keeps same_db (notify_locked u t)" "keeps same_db (reserve_attempt account ip ceiling)"
  "keeps same_db (recent_failures_of st identifier ip)" "keeps same_db (open_challenge st u m remember)"
  "keeps same_db (ensure_magic_links_enabled st)"
  unfolding notify_locked_def reserve_attempt_def recent_failures_of_def open_challenge_def ensure_magic_links_enabled_def Let_def
  by (auto intro!: sd.keeps_intros frame_intros split: option.split sum.split)

lemma keeps_login_writes:
  assumes [simp]: "\<And>t x. f (t\<lparr>users := x\<rparr>) = f t" "\<And>t x. f (t\<lparr>login_attempts := x\<rparr>) = f t" "\<And>t x. f (t\<lparr>audit_log := x\<rparr>) = f t"
  shows "keeps (same_of f) (rehash_if_weaker st u pw)" "keeps (same_of f) (record_failure who identifier reason ip ua)"
    "keeps (same_of f) (apply_lockout st u ip req)" "keeps (same_of f) (record_second_factor_failure u ip ua req)"
    "keeps (same_of f) (refuse_locked u identifier n ip ua)" "keeps (same_of f) (refuse_unknown st identifier n ip ua)"
    "keeps (same_of f) (refuse_password st u identifier n ip ua req)"
    "keeps (same_of f) (check_password st identifier pw found reserved n ip ua req)"
  unfolding check_password_def refuse_password_def refuse_unknown_def refuse_locked_def apply_lockout_def rehash_if_weaker_def
    record_second_factor_failure_def record_failure_def record_attempt_def audit_append_def set_locked_until_def replace_password_hash_def
  by (auto intro!: so.keeps_intros keeps_same_of_stmt keeps_same_of_write frame_intros [THEN so.keeps_same_db]
      simp: Let_def checked_def update_users_def split: option.split sum.split)

lemmas login_frame [session_frame] = keeps_login_writes [where f = sessions, simplified]
lemmas login_link_frame [link_intros] = keeps_login_writes [where f = links, simplified, THEN keeps_mailbox_other]

lemma keeps_sign_in_links [link_intros]:
  "keeps mailbox_evolves (issue_tokens st u ip ua device remember ty client_id scopes si)"
  unfolding issue_tokens_def record_sign_in_def Let_def
  by (auto intro!: mb.keeps_in_tx mb.keeps_intros link_intros frame_intros [THEN mb.keeps_same_db] split: option.split prod.split)

lemma keeps_login_links [link_intros]:
  "keeps mailbox_evolves (refuse_pending st u identifier ip ua req)"
  "keeps mailbox_evolves (send_challenge_code st u m tok)"
  "keeps mailbox_evolves (first_factor_proven st u who ip ua device remember req md)"
  "keeps mailbox_evolves (login st identifier pw ip ua device remember req)"
  "keeps mailbox_evolves (send_link st u ip ua req)"
  "keeps mailbox_evolves (request_magic_link st email ip ua req)"
  "keeps mailbox_evolves (complete_magic_link st tok ip ua device remember req)"
  unfolding refuse_pending_def first_factor_proven_def login_def send_challenge_code_def send_link_def request_magic_link_def
    complete_magic_link_def Let_def
  by (auto intro!: mb.keeps_in_tx mb.keeps_intros link_intros frame_intros [THEN mb.keeps_same_db] keeps_link_reads split: option.split sum.split)

lemma pending_frame [session_frame]:
  "keeps (same_of sessions) (refuse_pending st u identifier ip ua req)"
  "keeps (same_of sessions) (send_challenge_code st u m tok)"
  "keeps (same_of sessions) (send_link st u ip ua req)"
  "keeps (same_of sessions) (request_magic_link st email ip ua req)"
  unfolding refuse_pending_def send_challenge_code_def send_link_def request_magic_link_def
  by (auto intro!: so.keeps_intros session_frame frame_intros [THEN so.keeps_same_db] split: option.split sum.split)

section \<open>Refinement of the session machine\<close>

lemma login_refines:
  "keeps (refines Pool) (first_factor_proven st u who ip ua device remember req md)"
  "keeps (refines Pool) (login st identifier pw ip ua device remember req)"
  "keeps (refines Pool) (complete_magic_link st tok ip ua device remember req)"
  unfolding first_factor_proven_def login_def complete_magic_link_def Let_def
  by (auto intro!: refines_intros issue_tokens_refines session_frame [THEN keeps_refines_other] frame_intros [THEN rf.keeps_same_db]
      keeps_link_reads split: option.split)

lemma login_rows:
  "keeps rows_kept (first_factor_proven st u who ip ua device remember req md)"
  "keeps rows_kept (login st identifier pw ip ua device remember req)"
  "keeps rows_kept (complete_magic_link st tok ip ua device remember req)"
  unfolding first_factor_proven_def login_def complete_magic_link_def Let_def
  by (auto intro!: rows_intros keeps_rows_tokens session_frame [THEN keeps_rows_other] frame_intros [THEN rk.keeps_same_db]
      keeps_link_reads split: option.split)

section \<open>The session of a sign-in\<close>

text \<open>The session the tokens are for: a new row of the account, live, with the strength of its
  sign-in.\<close>

definition session_of :: "app_state \<Rightarrow> uuid \<Rightarrow> bool \<Rightarrow> auth_tokens \<Rightarrow> tables \<Rightarrow> bool" where
  "session_of st u mfa tokens t \<longleftrightarrow>
     at_session tokens \<in> set (sessions t) \<and> s_user_id (at_session tokens) = u \<and> s_mfa (at_session tokens) = mfa \<and>
     s_revoked_at (at_session tokens) = None \<and> s_token_hash (at_session tokens) = crypto_sha256 st (at_refresh_token tokens)"

lemma create_wp:
  "wp (create ex n)
    (\<lambda>s w'. s \<in> set (sessions (tables w')) \<and> s_user_id s = ns_user_id n \<and> s_mfa s = ns_mfa n \<and> s_revoked_at s = None \<and>
       s_token_hash s = ns_token_hash n) (\<lambda>_ _. True) w"
  unfolding create_def wp_bnd wp_fresh_uuid wp_db_stmt
  by (auto simp: insert_session_def put_sessions_def inserted_row_def Let_def split: outcome.split if_splits)

lemma issue_tokens_wp:
  "wp (issue_tokens st u ip ua device remember ty cid scopes si)
    (\<lambda>tokens w'. session_of st u (case si of None \<Rightarrow> False | Some s \<Rightarrow> si_second_factor s) tokens (tables w')) (\<lambda>_ _. True) w"
proof -
  let ?mfa = "case si of None \<Rightarrow> False | Some s \<Rightarrow> si_second_factor s"
  let ?row = "\<lambda>raw s t. s \<in> set (sessions t) \<and> s_user_id s = u \<and> s_mfa s = ?mfa \<and> s_revoked_at s = None \<and>
    s_token_hash s = crypto_sha256 st raw"
  have sign: "keeps (same_of sessions) (case si of None \<Rightarrow> ret None | Some s \<Rightarrow> record_sign_in st tx i ip ua s)" for tx i
    by (auto intro!: so.keeps_intros keeps_record_sign_in split: option.split)
  have tx: "wp (in_tx internal (\<lambda>tx.
       bnd fresh_uuid (\<lambda>family_id.
       bnd (map_err internal (create tx (n family_id))) (\<lambda>session.
       bnd (case si of None \<Rightarrow> ret None | Some s \<Rightarrow> record_sign_in st tx u ip ua s) (\<lambda>new_device.
       ret (session, new_device)))))) (\<lambda>(s, _) w'. ?row raw s (tables w')) (\<lambda>_ _. True) v"
    if "\<And>f. ns_user_id (n f) = u \<and> ns_mfa (n f) = ?mfa \<and> ns_token_hash (n f) = crypto_sha256 st raw" for n raw v
  proof -
    have row: "wp (bnd (map_err internal (create tx (n f))) (\<lambda>session.
       bnd (case si of None \<Rightarrow> ret None | Some s \<Rightarrow> record_sign_in st tx u ip ua s) (\<lambda>new_device.
       ret (session, new_device)))) (\<lambda>(s, _) w'. ?row raw s (tables w')) (\<lambda>_ _. True) x" for tx f x
      by (rule wp_bnd_rule, unfold wp_map_err, rule create_wp)
        (use that in \<open>auto simp: wp_ret same_of_def intro!: wp_bnd_keeps [OF sign]\<close>)
    show ?thesis
      unfolding wp_in_tx wp_bnd [of fresh_uuid] wp_fresh_uuid
      by (auto intro!: wp_mono [OF row] split: outcome.split)
  qed
  show ?thesis
    unfolding issue_tokens_def wp_bnd [of "draw _"] wp_draw wp_bnd [of clock_now] wp_clock_now Let_def
    by (rule wp_bnd_rule [OF tx])
      (auto simp: session_of_def same_db_def wp_ret intro!: wp_seq_keeps [where R = same_db] wp_bnd_keeps [where R = same_db]
        sd.keeps_intros frame_intros)
qed

section \<open>What a sign-in proves\<close>

definition identified :: "string \<Rightarrow> tables \<Rightarrow> user option" where
  "identified identifier t =
     (if CHR ''@'' \<in> set identifier then find (\<lambda>u. lower (u_email u) = lower identifier) (users t)
      else find (\<lambda>u. lower (u_username u) = lower identifier) (users t))"

text \<open>The account the identifier names, its own password, no lock, and a verified address.\<close>

definition proven :: "app_state \<Rightarrow> string \<Rightarrow> string \<Rightarrow> tables \<Rightarrow> instant \<Rightarrow> user \<Rightarrow> bool" where
  "proven st identifier pw t now u \<longleftrightarrow>
     identified identifier t = Some u \<and> verify_async st pw (u_password_hash u) = Inr True \<and>
     \<not> is_locked u now \<and> u_status u \<noteq> PendingVerification"

text \<open>A session where no second factor is enrolled, otherwise a challenge of the primary method and
  no session at all.\<close>

definition signed_in :: "app_state \<Rightarrow> user \<Rightarrow> tables \<Rightarrow> login_result \<Rightarrow> tables \<Rightarrow> bool" where
  "signed_in st u t res t' \<longleftrightarrow>
     (case res of
        Complete tokens \<Rightarrow> primary_method (u_id u) t = None \<and> session_of st (u_id u) False tokens t'
      | TwoFactorRequired _ m \<Rightarrow> sessions t' = sessions t \<and>
          (\<exists>p. primary_method (u_id u) t = Some p \<and> m = challenge_method_as_str (challenge_of (tf_method_type p))))"

lemma wp_find_by_identifier:
  "wp (user_find_by_identifier identifier) Q E w =
     (if next_outcome w = Done then Q (identified identifier (tables w)) (tick w) else E SqlFailed (tick w))"
  by (simp add: user_find_by_identifier_def user_find_by_email_def user_find_by_username_def identified_def wp_simps)

lemma unlocked_later: "\<not> is_locked u now \<Longrightarrow> now \<le> now' \<Longrightarrow> \<not> is_locked u now'"
  by (auto simp: is_locked_def split: option.splits)

lemma first_factor_wp:
  "wp (first_factor_proven st u who ip ua device remember req md)
    (\<lambda>res w'. signed_in st u (tables w) res (tables w')) (\<lambda>_ _. True) w"
proof -
  have challenge: "keeps (same_of sessions) (bnd (open_challenge st u m remember) (\<lambda>tok.
      seq (send_challenge_code st u m tok) (ret (TwoFactorRequired tok s))))" for m s
    by (auto intro!: so.keeps_intros session_frame frame_intros [THEN so.keeps_same_db])
  have "wp (case primary_method (u_id u) (tables w) of
       Some p \<Rightarrow>
         (let m = challenge_of (tf_method_type p) in
          bnd (open_challenge st u m remember) (\<lambda>tok. seq (send_challenge_code st u m tok) (ret (TwoFactorRequired tok (challenge_method_as_str m)))))
     | None \<Rightarrow>
         bnd (issue_tokens st (u_id u) ip ua device remember Web None None
           (Some \<lparr>si_identifier = who, si_request_id = req, si_audit_metadata = md, si_second_factor = False\<rparr>)) (\<lambda>tokens. ret (Complete tokens)))
    (\<lambda>res w'. signed_in st u (tables w) res (tables w')) (\<lambda>_ _. True) v" if "tables v = tables w" for v
  proof (cases "primary_method (u_id u) (tables w)")
    case None
    show ?thesis
      unfolding None option.case
      by (rule wp_bnd_rule [OF issue_tokens_wp]) (simp_all add: wp_ret signed_in_def None)
  next
    case (Some p)
    have result: "wp (bnd (open_challenge st u m remember) (\<lambda>tok. seq (send_challenge_code st u m tok) (ret (TwoFactorRequired tok s))))
      (\<lambda>res _. \<exists>tok. res = TwoFactorRequired tok s) (\<lambda>_ _. True) v" for m s
      by (intro wp_whatever) (simp add: wp_ret)
    show ?thesis
      unfolding Some option.case Let_def
      by (rule wp_mono [OF wp_keeps [OF challenge result]]) (auto simp: signed_in_def Some same_of_def that)
  qed
  then show ?thesis
    unfolding first_factor_proven_def
    by (intro wp_bnd_rule [where P = "\<lambda>x v. x = primary_method (u_id u) (tables w) \<and> tables v = tables w" and F = "\<lambda>_ _. True"])
      (auto simp: find_primary_by_user_def wp_simps)
qed

lemma throws_login_calls:
  "throws S (apply_lockout st u ip req)" "throws S (rehash_if_weaker st u pw)" "throws S (notify_locked u t)"
  unfolding apply_lockout_def rehash_if_weaker_def notify_locked_def
  by (auto intro!: throws_intros split: option.split sum.split)

lemma check_password_wp:
  "wp (check_password st identifier pw found reserved n ip ua req)
    (\<lambda>u w'. found = Some u \<and> verify_async st pw (u_password_hash u) = Inr True \<and> \<not> is_locked u (app_now w'))
    (\<lambda>e _. e = Internal \<or> e = InvalidCredentials) w"
proof -
  have refused: "wp (refuse_unknown st identifier n ip ua) Q (\<lambda>e _. e = Internal \<or> e = InvalidCredentials) v"
    "wp (refuse_locked u identifier n ip ua) Q (\<lambda>e _. e = Internal \<or> e = InvalidCredentials) v"
    "wp (refuse_password st u identifier n ip ua req) Q (\<lambda>e _. e = Internal \<or> e = InvalidCredentials) v" for Q u v
    unfolding refuse_unknown_def refuse_locked_def refuse_password_def
    by (auto intro!: wp_seq_throws throws_intros throws_login_calls simp: wp_throw)
  have accepted: "wp (seq (release reserved) (seq (rehash_if_weaker st u pw) (ret u)))
      (\<lambda>x w'. x = u \<and> \<not> is_locked u (app_now w')) (\<lambda>e _. e = Internal \<or> e = InvalidCredentials) v" if "\<not> is_locked u (app_now v)" for u v
  proof -
    have "\<not> is_locked u (app_now y)" if "later v x" "later x y" for x y
      using unlocked_later [OF \<open>\<not> is_locked u (app_now v)\<close>] later_now [OF lt.trans [OF that]] by simp
    then show ?thesis
      by (intro wp_seq_total [where R = later])
        (auto intro!: throws_intros throws_login_calls frame_intros [THEN lt.keeps_same_db] login_frame [THEN so.keeps_later] simp: wp_ret)
  qed
  show ?thesis
    unfolding check_password_def
    by (auto simp: wp_bnd wp_map_err wp_of_sum wp_clock_now internal_def refused intro!: wp_mono [OF accepted]
        split: option.split sum.split)
qed

text \<open>The two halves of a password sign-in: nothing is answered but a refusal until the password is
  proven, and after that what is signed in is the account that proved it.\<close>

lemma login_wp:
  "wp (login st identifier pw ip ua device remember req)
    (\<lambda>res w'. \<exists>u. proven st identifier pw (tables w) (app_now w') u \<and> u_status u = UserActive \<and>
       signed_in st u (tables w) res (tables w'))
    (\<lambda>e w'. e \<in> {RateLimitExceeded, InvalidCredentials, Internal} \<or>
       (\<exists>u. proven st identifier pw (tables w) (app_now w') u)) w"
proof -
  let ?E = "\<lambda>e w'. e \<in> {RateLimitExceeded, InvalidCredentials, Internal} \<or>
    (\<exists>u. proven st identifier pw (tables w) (app_now w') u)"
  let ?Q = "\<lambda>res w'. \<exists>u. proven st identifier pw (tables w) (app_now w') u \<and> u_status u = UserActive \<and>
    signed_in st u (tables w) res (tables w')"
  let ?f = "\<lambda>t. (sessions t, two_factor_methods t)"
  have signed: "signed_in st u t res t' \<longleftrightarrow> signed_in st u (tables w) res t'" if "?f t = ?f (tables w)" for u t res t'
    using that by (simp add: signed_in_def primary_method_def split: login_result.split)
  have after: "wp (if u_status u = PendingVerification then refuse_pending st u identifier ip ua req
       else seq (ensure_status_allows_sign_in u) (first_factor_proven st u (Some identifier) ip ua device remember req (JObj []))) ?Q ?E v"
    if v: "?f (tables v) = ?f (tables w)" and u: "identified identifier (tables w) = Some u"
      "verify_async st pw (u_password_hash u) = Inr True" "\<not> is_locked u (app_now v)" for u v
  proof (cases "u_status u = PendingVerification")
    case True
    then show ?thesis
      unfolding refuse_pending_def
      by (auto intro!: wp_seq_throws throws_intros simp: wp_throw)
  next
    case False
    then have "proven st identifier pw (tables w) (app_now x) u" if "later v x" for x
      using u unlocked_later [OF u(3)] later_now [OF that] by (auto simp: proven_def)
    note proven = this this [OF lt.refl]
    have "keeps later (first_factor_proven st u (Some identifier) ip ua device remember req (JObj []))"
      by (rule rf.keeps_later [OF login_refines(1)])
    note first = wp_keeps [OF this first_factor_wp]
    show ?thesis
      using False proven
      by (cases "u_status u") (auto simp: ensure_status_allows_sign_in_def wp_simps signed [OF v] intro!: wp_mono [OF first] exI [of _ u])
  qed
  have password: "wp (bnd (check_password st identifier pw (identified identifier (tables w)) reserved n ip ua req) (\<lambda>u.
      if u_status u = PendingVerification then refuse_pending st u identifier ip ua req
      else seq (ensure_status_allows_sign_in u) (first_factor_proven st u (Some identifier) ip ua device remember req (JObj [])))) ?Q ?E v"
    if v: "tables v = tables w" for reserved n v
  proof -
    have "keeps (same_of ?f) (check_password st identifier pw (identified identifier (tables w)) reserved n ip ua req)"
      by (rule keeps_login_writes) simp_all
    note check = wp_keeps [OF this check_password_wp]
    show ?thesis
      by (rule wp_bnd_rule [OF check], rule after) (use v in \<open>auto simp: same_of_def\<close>)
  qed
  have recent: "throws (\<lambda>e. e = Internal) (recent_failures_of st identifier ip)"
    unfolding recent_failures_of_def by (auto intro!: throws_intros split: option.split sum.split)
  have reserve: "throws (\<lambda>e. e = RateLimitExceeded) (reserve_attempt account ip ceiling)" for account ceiling
    unfolding reserve_attempt_def Let_def by (auto intro!: throws_intros split: sum.split)
  show ?thesis
    unfolding login_def
    by (rule wp_bnd_frame [OF keeps_login_calls(3) recent])
      (auto simp: wp_throw wp_bnd [of "map_err internal (user_find_by_identifier identifier)"] wp_map_err wp_find_by_identifier internal_def
        dest!: same_dbD(1) intro!: wp_bnd_frame [OF keeps_login_calls(2) reserve] password [simplified])
qed

text \<open>C1: A sign-in is completed only by its account. Where a login answers anything but a refusal,
  the identifier names an account whose own password was typed, which is not locked, and which is
  active; a session is issued, for that account and marked as signed in without a second factor,
  only if none is enrolled, and otherwise the answer is a challenge of the account's primary method
  and no session exists that did not before.\<close>

theorem login_needs_the_password:
  assumes "login st identifier pw ip ua device remember req w = (Inr res, w')"
  shows "\<exists>u. proven st identifier pw (tables w) (app_now w') u \<and> u_status u = UserActive \<and>
    signed_in st u (tables w) res (tables w')"
  using wp_ok [OF login_wp assms] .

text \<open>C14: A refused sign-in tells nothing of the account. Whoever did not type the right password of
  an unlocked, verified account is answered with one of three errors, whether the identifier is
  unknown, the password wrong, the account locked or its address unverified; and no session is
  issued.\<close>

theorem refusals_do_not_tell:
  assumes "login st identifier pw ip ua device remember req w = (res, w')"
    and "\<And>u. \<not> proven st identifier pw (tables w) (app_now w') u"
  shows "res \<in> Inl ` {RateLimitExceeded, InvalidCredentials, Internal}"
proof (cases res)
  case (Inl e)
  then show ?thesis
    using wp_err [OF login_wp assms(1) [unfolded Inl]] assms(2) by auto
next
  case (Inr x)
  then show ?thesis
    using wp_ok [OF login_wp assms(1) [unfolded Inr]] assms(2) by auto
qed

definition demo_login_world :: world where
  "demo_login_world = initial_world demo_methods"

lemma demo_login_runs:
  "wp (login demo_state ''alice'' ''h'' None None None True None) (\<lambda>_ _. True) (\<lambda>_ _. False) demo_login_world"
proof -
  have st: "lockout_threshold demo_state = 5" "captcha_secret demo_state = None" "verify_async demo_state ''h'' ''h'' = Inr True"
    "\<not> needs_rehash demo_state ''h''"
    by (simp_all add: demo_state_def verify_async_def verify_def needs_rehash_def exceeds_configured_cost_def saturating_mul_u32_def
        MAX_VERIFIED_PASSWORD_BYTES_def STORED_COST_FACTOR_def)
  have t: "identified ''alice'' demo_methods = Some demo_user" "login_attempts demo_methods = []"
    "primary_method (Suc 0) demo_methods = Some (hd (two_factor_methods demo_methods))" "tf_method_type (hd (two_factor_methods demo_methods)) = Totp"
    by (simp_all add: demo_methods_def demo_tables_def demo_user_def identified_def empty_tables_def primary_method_def)
  have u: "u_status demo_user = UserActive" "u_id demo_user = 1" "u_password_hash demo_user = ''h''" "\<not> is_locked demo_user n" for n
    by (simp_all add: demo_user_def is_locked_def)
  show ?thesis
    by (simp add: login_def recent_failures_of_def wp_simps Let_def wp_find_by_identifier t st u demo_login_world_def initial_world_def
     count_recent_failures_by_identifier_def capped_count_def reach_def login_ceilings_def identifier_ceiling_def captcha_enforced_def
     reserve_attempt_def check_password_def release_def rehash_if_weaker_def ensure_status_allows_sign_in_def first_factor_proven_def find_primary_by_user_def
     open_challenge_def send_challenge_code_def MAX_OPEN_CHALLENGES_def
     hit_def rincr_by_def rexpire_def rget_def rexists_def as_int_def as_set_def redis_read_def redis_ignored_def rsmembers_def rset_ex_def
     user_pre_auth_index_key_def pre_auth_key_def MAX_FAILURES_BY_IDENTIFIER_def MAX_FAILURES_BY_IP_def CS_MAX_DISTINCT_IDENTIFIERS_def)
qed

theorem login_needs_the_password_witness:
  "\<exists>res w' u. login demo_state ''alice'' ''h'' None None None True None demo_login_world = (Inr res, w') \<and>
     u_status u = UserActive \<and> signed_in demo_state u demo_methods res (tables w')"
proof -
  obtain res w' where run: "login demo_state ''alice'' ''h'' None None None True None demo_login_world = (Inr res, w')"
    using demo_login_runs by (auto simp: wp_def split: prod.splits sum.splits)
  then show ?thesis
    using login_needs_the_password [OF run] by (auto simp: demo_login_world_def initial_world_def)
qed

theorem refusals_do_not_tell_witness:
  "fst (login demo_state ''nobody'' ''h'' None None None True None demo_login_world) \<in> Inl ` {RateLimitExceeded, InvalidCredentials, Internal}"
proof (rule refusals_do_not_tell)
  show "\<not> proven demo_state ''nobody'' ''h'' (tables demo_login_world) now u" for now u
    by (simp add: proven_def identified_def lower_def demo_login_world_def initial_world_def demo_methods_def demo_tables_def demo_user_def)
qed (simp add: prod_eq_iff)

section \<open>The lock comes at the threshold\<close>

lemma storable_identifier_not_blank: "list_ex (\<lambda>c. c \<noteq> CHR '' '') (storable_identifier s)"
proof -
  have at: "c \<in> set x" if "split_once c x = Some p" for c x p
    using that by (induction x arbitrary: p) (auto split: if_splits)
  have "list_ex (\<lambda>c. c \<noteq> CHR '' '') s" if "is_storable_email s"
    using that at [of "CHR ''@''" s] by (auto simp: is_storable_email_def list_ex_iff split: option.splits if_splits)
  moreover have "list_ex (\<lambda>c. c \<noteq> CHR '' '') s" if "is_valid_username s"
    using that by (cases s)
      (auto simp: is_valid_username_def ascii_alphanumeric_def ascii_alphabetic_def ascii_upper_def ascii_lower_def ascii_digit_def less_eq_char_def)
  ultimately show ?thesis
    using storable_identifier_shape [of s] by (auto simp: UNRECOGNIZED_IDENTIFIER_def)
qed

definition counts_toward_lock :: "uuid \<Rightarrow> instant \<Rightarrow> login_attempt \<Rightarrow> bool" where
  "counts_toward_lock i cutoff a \<longleftrightarrow>
     la_user_id a = Some i \<and> \<not> la_successful a \<and> la_failure_reason a = Some InvalidPassword \<and> cutoff < la_attempted_at a"

lemma find_user_update:
  assumes "find_user i t = Some u" "P u" "\<And>x. u_id (f x) = u_id x"
  shows "find_user i (t\<lparr>users := update_where P f (users t)\<rparr>) = Some (f u)"
  using assms find_update_where [of "\<lambda>u. u_id u = i" f P "users t"] by (simp add: find_user_def)

lemma one_account: "find_user i t = Some u \<Longrightarrow> distinct (map u_id (users t)) \<Longrightarrow> P u \<Longrightarrow>
    length (filter (\<lambda>x. u_id x = i \<and> P x) (users t)) = 1"
proof -
  have "length (filter (\<lambda>x. u_id x = i \<and> P x) rows) = (case find (\<lambda>u. u_id u = i) rows of None \<Rightarrow> 0 | Some u \<Rightarrow> if P u then 1 else 0)"
    if "distinct (map u_id rows)" for rows
    using that by (induction rows) (auto simp: filter_empty_conv split: option.splits dest!: find_Some_set)
  then show "find_user i t = Some u \<Longrightarrow> distinct (map u_id (users t)) \<Longrightarrow> P u \<Longrightarrow> ?thesis"
    by (simp add: find_user_def)
qed

lemma recorded_failure_counts:
  assumes "consecutive_cutoff i now t < now" "nl_user_id a = Some i" "\<not> nl_successful a" "nl_failure_reason a = Some InvalidPassword"
  shows "length (filter (counts_toward_lock i (consecutive_cutoff i now (t\<lparr>login_attempts := login_attempts t @ [attempt_row now a]\<rparr>)))
      (login_attempts t @ [attempt_row now a])) =
    Suc (length (filter (counts_toward_lock i (consecutive_cutoff i now t)) (login_attempts t)))"
proof -
  have "consecutive_cutoff i now (t\<lparr>login_attempts := login_attempts t @ [attempt_row now a]\<rparr>) = consecutive_cutoff i now t"
    using assms(3) by (simp add: consecutive_cutoff_def find_user_def attempt_row_def)
  then show ?thesis
    using assms by (simp add: counts_toward_lock_def attempt_row_def)
qed

lemma apply_lockout_locks:
  assumes idle: "sched w = []" and user: "find_user (u_id u) (tables w) = Some u" "distinct (map u_id (users (tables w)))"
    and threshold: "lockout_threshold st \<noteq> 0"
    and reached: "unat (lockout_threshold st) \<le>
      length (filter (counts_toward_lock (u_id u) (consecutive_cutoff (u_id u) (db_now w) (tables w))) (login_attempts (tables w)))"
    and unlocked: "case u_locked_until u of None \<Rightarrow> True | Some l \<Rightarrow> l \<le> db_now w"
  shows "wp (apply_lockout st u ip req) (\<lambda>_ w'. sched w' = [] \<and>
    map_option u_locked_until (find_user (u_id u) (tables w')) = Some (Some (saturating_add (app_now w) (lockout_duration (lockout_duration_secs st)))) \<and>
    (\<exists>m \<in> set (mails w'). m_kind m = ''account_locked'' \<and> m_to m = u_email u)) E w"
proof -
  let ?until = "saturating_add (app_now w) (lockout_duration (lockout_duration_secs st))"
  have lock: "lockout_until (capped_count (int (unat (lockout_threshold st))) (counts_toward_lock (u_id u)
      (consecutive_cutoff (u_id u) (db_now w) (tables w))) (login_attempts (tables w))) (lockout_threshold st) (lockout_duration_secs st) (app_now w) = Some ?until"
    using threshold of_nat_mono [OF reached, where ?'a = int] by (simp add: lockout_until_def capped_count_def)
  let ?P = "\<lambda>x. case u_locked_until x of None \<Rightarrow> True | Some l \<Rightarrow> l \<le> db_now w"
  let ?t = "(tables w)\<lparr>users := update_where (\<lambda>x. u_id x = u_id u \<and> ?P x) (\<lambda>x. x\<lparr>u_locked_until := Some ?until\<rparr>) (users (tables w))\<rparr>"
  have count: "count_consecutive_failures_by_user (u_id u) c w = (Inr (capped_count c (counts_toward_lock (u_id u)
      (consecutive_cutoff (u_id u) (db_now w) (tables w))) (login_attempts (tables w))), w)" for c
    by (simp add: count_consecutive_failures_by_user_def db_read_def db_stmt_def idle stmt_now_def counts_toward_lock_def [abs_def])
  have "set_locked_until (u_id u) ?until w = (Inr True, w\<lparr>tables := ?t\<rparr>)"
    using one_account [OF user, of ?P] unlocked
    by (simp add: set_locked_until_def bnd_def db_write_def db_stmt_def idle stmt_now_def update_users_def ret_def cong: option.case_cong)
  then have run: "apply_lockout st u ip req w = seq (ignore (audit_append Pool (Some (u_id u)) req AuditAccountSuspended ip
      (JObj [(''reason'', JStr ''lockout''), (''locked_until'', JNum (unix_timestamp ?until))]))) (notify_locked u ?until) (w\<lparr>tables := ?t\<rparr>)"
    by (simp add: apply_lockout_def bnd_def attempt_def count lock [simplified] clock_now_def idle)
  have "find_user (u_id u) ?t = Some (u\<lparr>u_locked_until := Some ?until\<rparr>)"
    by (rule find_user_update [OF user(1)]) (use unlocked in auto)
  then have "wp (seq (ignore (audit_append Pool (Some (u_id u)) req AuditAccountSuspended ip md)) (notify_locked u ?until)) (\<lambda>_ w'. sched w' = [] \<and>
    map_option u_locked_until (find_user (u_id u) (tables w')) = Some (Some ?until) \<and>
    (\<exists>m \<in> set (mails w'). m_kind m = ''account_locked'' \<and> m_to m = u_email u)) E (w\<lparr>tables := ?t\<rparr>)" for md
    by (auto simp: wp_simps audit_append_def wp_db_stmt checked_def notify_locked_def send_mail_def idle find_user_def)
  then show ?thesis
    unfolding wp_def run .
qed

lemma track_idle: "sched w = [] \<Longrightarrow> wp (track_credential_stuffing ip identifier) (\<lambda>_ v. \<exists>r. v = w\<lparr>redis := r\<rparr>) E w"
  by (cases ip) (auto simp: track_credential_stuffing_def wp_ret wp_redis_best_effort Let_def intro: exI [of _ "redis w"])

lemma refuse_password_locks:
  assumes idle: "sched w = []" and user: "find_user (u_id u) (tables w) = Some u" "distinct (map u_id (users (tables w)))"
    and threshold: "lockout_threshold st \<noteq> 0"
    and cutoff: "consecutive_cutoff (u_id u) (db_now w) (tables w) < db_now w"
    and reached: "unat (lockout_threshold st) \<le>
      Suc (length (filter (counts_toward_lock (u_id u) (consecutive_cutoff (u_id u) (db_now w) (tables w))) (login_attempts (tables w))))"
    and unlocked: "case u_locked_until u of None \<Rightarrow> True | Some l \<Rightarrow> l \<le> db_now w"
  shows "wp (refuse_password st u identifier n ip ua req) (\<lambda>_ _. False) (\<lambda>e w'. e = InvalidCredentials \<and>
    map_option u_locked_until (find_user (u_id u) (tables w')) =
      Some (Some (saturating_add (app_now w) (lockout_duration (lockout_duration_secs st)))) \<and>
    (\<exists>m \<in> set (mails w'). m_kind m = ''account_locked'' \<and> m_to m = u_email u)) w"
proof -
  let ?a = "\<lparr>nl_user_id = Some (u_id u), nl_identifier = storable_identifier identifier, nl_successful = False,
        nl_failure_reason = Some InvalidPassword, nl_request_ip = ip, nl_user_agent = ua\<rparr>"
  let ?w = "w\<lparr>tables := (tables w)\<lparr>login_attempts := login_attempts (tables w) @ [attempt_row (db_now w) ?a]\<rparr>\<rparr>"
  have here: "refers_to_user (Some (u_id u)) (tables w)"
    using user by (auto simp: refers_to_user_def find_user_def list_ex_iff dest: find_Some_set)
  have recorded: "record_failure (Some (u_id u)) identifier InvalidPassword ip ua w = (Inr (), ?w)"
    using idle here storable_identifier_not_blank
    by (simp add: record_failure_def record_attempt_def ignore_def db_stmt_def checked_def attempt_checks_def stmt_now_def)
  have lock: "wp (apply_lockout st u ip req) (\<lambda>_ w'. sched w' = [] \<and>
    map_option u_locked_until (find_user (u_id u) (tables w')) = Some (Some (saturating_add (app_now w) (lockout_duration (lockout_duration_secs st)))) \<and>
    (\<exists>m \<in> set (mails w'). m_kind m = ''account_locked'' \<and> m_to m = u_email u)) (\<lambda>_ _. False) (?w\<lparr>redis := r\<rparr>)" for r
    by (rule wp_mono [OF apply_lockout_locks])
      (use idle user threshold unlocked reached recorded_failure_counts [OF cutoff, of ?a] in \<open>simp_all add: find_user_def cong: option.case_cong\<close>)
  have "wp (seq (apply_lockout st u ip req) (seq (apply_backoff (n + 1)) (throw InvalidCredentials))) (\<lambda>_ _. False) (\<lambda>e w'. e = InvalidCredentials \<and>
    map_option u_locked_until (find_user (u_id u) (tables w')) =
      Some (Some (saturating_add (app_now w) (lockout_duration (lockout_duration_secs st)))) \<and>
    (\<exists>m \<in> set (mails w'). m_kind m = ''account_locked'' \<and> m_to m = u_email u)) (?w\<lparr>redis := r\<rparr>)" for r
    by (rule wp_seq_rule [OF lock]) (auto simp: wp_simps apply_backoff_def sleep_secs_def)
  note rest = this
  have "wp (track_credential_stuffing ip identifier) (\<lambda>_ v. \<exists>r. v = ?w\<lparr>redis := r\<rparr>) (\<lambda>_ _. False) ?w"
    by (rule track_idle) (simp add: idle)
  then have "wp (seq (track_credential_stuffing ip identifier) (seq (apply_lockout st u ip req) (seq (apply_backoff (n + 1)) (throw InvalidCredentials))))
    (\<lambda>_ _. False) (\<lambda>e w'. e = InvalidCredentials \<and> map_option u_locked_until (find_user (u_id u) (tables w')) =
      Some (Some (saturating_add (app_now w) (lockout_duration (lockout_duration_secs st)))) \<and>
    (\<exists>m \<in> set (mails w'). m_kind m = ''account_locked'' \<and> m_to m = u_email u)) ?w"
    by (rule wp_seq_rule) (use rest in blast)+
  then show ?thesis
    unfolding refuse_password_def wp_seq [of "record_failure _ _ _ _ _"] wp_def [of "record_failure _ _ _ _ _"] recorded prod.case sum.case .
qed

text \<open>C15: Guessing locks the account. When nothing fails, the wrong password that brings the
  consecutive failures of an unlocked account to the configured threshold sets its lock, for the
  configured duration from then (the far end of time for a duration beyond it), and its owner is told
  by mail; the answer is that of any wrong password.\<close>

theorem lock_comes_at_the_threshold:
  assumes "refuse_password st u identifier n ip ua req w = (res, w')" "sched w = []"
    and "find_user (u_id u) (tables w) = Some u" "distinct (map u_id (users (tables w)))"
    and "lockout_threshold st \<noteq> 0" "consecutive_cutoff (u_id u) (db_now w) (tables w) < db_now w"
    and "unat (lockout_threshold st) \<le>
      Suc (length (filter (counts_toward_lock (u_id u) (consecutive_cutoff (u_id u) (db_now w) (tables w))) (login_attempts (tables w))))"
    and "case u_locked_until u of None \<Rightarrow> True | Some l \<Rightarrow> l \<le> db_now w"
  shows "res = Inl InvalidCredentials \<and>
    map_option u_locked_until (find_user (u_id u) (tables w')) =
      Some (Some (saturating_add (app_now w) (lockout_duration (lockout_duration_secs st)))) \<and>
    (\<exists>m \<in> set (mails w'). m_kind m = ''account_locked'' \<and> m_to m = u_email u)"
proof -
  have "wp (refuse_password st u identifier n ip ua req) (\<lambda>_ _. False) (\<lambda>e w'. e = InvalidCredentials \<and>
    map_option u_locked_until (find_user (u_id u) (tables w')) =
      Some (Some (saturating_add (app_now w) (lockout_duration (lockout_duration_secs st)))) \<and>
    (\<exists>m \<in> set (mails w'). m_kind m = ''account_locked'' \<and> m_to m = u_email u)) w"
    by (rule refuse_password_locks) (use assms in simp_all)
  then show ?thesis
    using assms(1) by (simp add: wp_def split: sum.splits)
qed

definition demo_lock_world :: world where
  "demo_lock_world = (initial_world demo_tables)\<lparr>real_now := 5\<rparr>"

theorem lock_comes_at_the_threshold_witness:
  "fst (refuse_password (demo_state\<lparr>lockout_threshold := 1\<rparr>) demo_user ''alice'' 0 None None None demo_lock_world) = Inl InvalidCredentials"
proof -
  have w: "sched demo_lock_world = []" "find_user (u_id demo_user) (tables demo_lock_world) = Some demo_user"
    "distinct (map u_id (users (tables demo_lock_world)))" "u_locked_until demo_user = None"
    "consecutive_cutoff (u_id demo_user) (db_now demo_lock_world) (tables demo_lock_world) < db_now demo_lock_world"
    by (simp_all add: demo_lock_world_def initial_world_def demo_tables_def demo_user_def empty_tables_def find_user_def consecutive_cutoff_def
        greatest_def max_instant_of_def db_now_def seconds_def ns_per_sec_def)
  show ?thesis
    by (rule lock_comes_at_the_threshold [THEN conjunct1, OF prod.collapse [symmetric]]) (simp_all add: w)
qed

end
