(* ===== verification/Second_Factor.thy ===== *)
theory Second_Factor
  imports Login
begin

text \<open>
  Completing a sign-in paused for its second factor (\<^verbatim>\<open>services/auth/second_factor.rs\<close>): with a
  TOTP code, a mailed code or a recovery code. The challenge is removed before its session is
  issued, so it completes one sign-in.
\<close>

section \<open>Shared steps\<close>

definition take_pre_auth ::
  "app_state \<Rightarrow> rkey \<Rightarrow> uuid \<Rightarrow> string \<Rightarrow> rkey list \<Rightarrow> (app_error, unit) svc" where
  "take_pre_auth st redis_key user_id pre_auth_token budgets =
     seq (map_err redis_unavailable redis_conn)
     (bnd (map_err redis_unavailable (redis_cmd (\<lambda>now r. rdel now redis_key r))) (\<lambda>removed.
      if removed \<noteq> 1 then throw TokenInvalid
      else seq (for_each budgets (\<lambda>key. redis_ignored (\<lambda>_ r. rdel_all [key] r)))
        (redis_ignored (\<lambda>now r. rsrem now (user_pre_auth_index_key user_id) (challenge_id st pre_auth_token) r))))"

definition second_factor_budgets :: "rkey \<Rightarrow> int \<Rightarrow> (rkey \<times> int) list \<Rightarrow> int \<Rightarrow> budget list" where
  "second_factor_budgets fail_key limit account_keys window =
     \<lparr>b_key = fail_key, b_limit = limit, b_window_secs = PRE_AUTH_TTL_SECS\<rparr> #
     map (\<lambda>(key, n). \<lparr>b_key = key, b_limit = n, b_window_secs = window\<rparr>) account_keys"

text \<open>The attempt is counted before the code is looked at; the answer is the count of the
  challenge.\<close>

definition reserve_second_factor ::
  "rkey \<Rightarrow> int \<Rightarrow> (rkey \<times> int) list \<Rightarrow> int \<Rightarrow> uuid \<Rightarrow> (app_error, int) svc" where
  "reserve_second_factor fail_key limit account_keys window user_id =
     bnd (consume (second_factor_budgets fail_key limit account_keys window)) (\<lambda>att.
     if exceeded att then
       seq (when_do (account_budget_exceeded (counts att) (snd (hd account_keys))) (notify_second_factor_pressure user_id))
       (throw RateLimitExceeded)
     else ret (hd (counts att)))"

definition challenged_user :: "uuid \<Rightarrow> (app_error, user) svc" where
  "challenged_user user_id =
     bnd (map_err internal (user_find_by_id Pool user_id)) (\<lambda>found.
     bnd (ok_or Unauthorized found) (\<lambda>user.
     seq (ensure_account_usable user) (ret user)))"

definition refuse_second_factor ::
  "user \<Rightarrow> int \<Rightarrow> ipnetwork option \<Rightarrow> string option \<Rightarrow> uuid option \<Rightarrow> (app_error, 'a) svc" where
  "refuse_second_factor user n ip user_agent request_id =
     seq (record_second_factor_failure user ip user_agent request_id)
     (seq (apply_backoff n) (throw TwoFactorFailed))"

definition second_factor_sign_in :: "uuid option \<Rightarrow> json \<Rightarrow> sign_in" where
  "second_factor_sign_in request_id kind =
     \<lparr>si_identifier = None, si_request_id = request_id, si_audit_metadata = JObj [(''two_factor'', kind)], si_second_factor = True\<rparr>"

section \<open>TOTP\<close>

definition totp_method :: "uuid \<Rightarrow> (app_error, string) svc" where
  "totp_method user_id =
     bnd (map_err internal (find_primary_by_user user_id)) (\<lambda>primary.
     bnd (ok_or TokenInvalid (case primary of
            Some m \<Rightarrow> if tf_method_type m = Totp then Some m else None
          | None \<Rightarrow> None)) (\<lambda>m.
     ok_or Unauthorized (tf_totp_secret m)))"

text \<open>The replay guard: Redis is a fast path, the table decides.\<close>

definition consume_totp :: "app_state \<Rightarrow> uuid \<Rightarrow> string \<Rightarrow> (app_error, bool) svc" where
  "consume_totp st user_id code =
     bnd (attempt redis_conn) (\<lambda>conn.
     bnd (case conn of
            Inr _ \<Rightarrow> redis_read (\<lambda>now r. rexists now r (TotpUsed user_id code)) False
          | Inl _ \<Rightarrow> ret False) (\<lambda>cached_replay.
     if cached_replay then ret False
     else bnd clock_now (\<lambda>now.
       bnd (map_err internal (try_consume_totp_code user_id (crypto_sha256 st code) now)) (\<lambda>consumed.
       seq (when_do consumed (redis_best_effort (\<lambda>now r. rset_ex now (TotpUsed user_id code) (RInt 1) 60 r)))
       (ret consumed)))))"

definition complete_two_factor_login ::
  "app_state \<Rightarrow> string \<Rightarrow> string \<Rightarrow> ipnetwork option \<Rightarrow> string option \<Rightarrow> unicode option \<Rightarrow> uuid option \<Rightarrow> (app_error, auth_tokens) svc" where
  "complete_two_factor_login st pre_auth_token code ip user_agent device_name request_id =
     (let fail_key = TotpFail (challenge_id st pre_auth_token) in
      bnd (resolve_pre_auth st pre_auth_token) (\<lambda>pre_auth.
      seq (expect_method pre_auth ChallengeTotp)
      (let user_id = pa_user_id pre_auth;
           account_keys = second_factor_budget_keys TOTP_USER_FAIL_PREFIX user_id ip MAX_TOTP_FAILURES_BY_USER in
       bnd (reserve_second_factor fail_key MAX_TOTP_FAILURES account_keys SECOND_FACTOR_USER_WINDOW_SECS user_id) (\<lambda>n.
       bnd (challenged_user user_id) (\<lambda>user.
       bnd (totp_method (u_id user)) (\<lambda>encrypted_secret.
       bnd clock_now (\<lambda>now.
       bnd (map_err internal (of_sum (totp_verify_code st encrypted_secret user_id code (unix_timestamp now)))) (\<lambda>valid.
       bnd (if valid then consume_totp st user_id code else ret False) (\<lambda>consumed.
       if \<not> consumed then refuse_second_factor user n ip user_agent request_id
       else seq (reset (map fst account_keys))
         (seq (take_pre_auth st (pre_auth_key st pre_auth_token) user_id pre_auth_token [fail_key])
         (issue_tokens st (u_id user) ip user_agent device_name (pa_remember_me pre_auth) Web None None
            (Some (second_factor_sign_in request_id (JBool True))))))))))))))"

section \<open>A mailed code\<close>

definition complete_email_2fa_login ::
  "app_state \<Rightarrow> string \<Rightarrow> string \<Rightarrow> ipnetwork option \<Rightarrow> string option \<Rightarrow> unicode option \<Rightarrow> uuid option \<Rightarrow> (app_error, auth_tokens) svc" where
  "complete_email_2fa_login st pre_auth_token code ip user_agent device_name request_id =
     bnd (resolve_pre_auth st pre_auth_token) (\<lambda>pre_auth.
     seq (expect_method pre_auth ChallengeEmail)
     (let user_id = pa_user_id pre_auth in
      bnd (challenged_user user_id) (\<lambda>user.
      bnd (attempt (verify_login_code st user_id pre_auth_token code ip)) (\<lambda>verified.
      case verified of
        Inl e \<Rightarrow>
          seq (when_do (e = TwoFactorFailed) (record_second_factor_failure user ip user_agent request_id)) (throw e)
      | Inr _ \<Rightarrow>
          seq (take_pre_auth st (pre_auth_key st pre_auth_token) user_id pre_auth_token [])
          (issue_tokens st (u_id user) ip user_agent device_name (pa_remember_me pre_auth) Web None None
             (Some (second_factor_sign_in request_id (JStr ''email''))))))))"

section \<open>A recovery code\<close>

definition complete_login_with_recovery ::
  "app_state \<Rightarrow> string \<Rightarrow> string \<Rightarrow> ipnetwork option \<Rightarrow> string option \<Rightarrow> uuid option \<Rightarrow> (app_error, auth_tokens) svc" where
  "complete_login_with_recovery st pre_auth_token recovery_code_plaintext ip user_agent request_id =
     (let fail_key = RcFail (challenge_id st pre_auth_token) in
      bnd (resolve_pre_auth st pre_auth_token) (\<lambda>pre_auth.
      if pa_method pre_auth = None then throw TokenInvalid
      else let user_id = pa_user_id pre_auth;
               account_keys = second_factor_budget_keys RC_USER_FAIL_PREFIX user_id ip MAX_RECOVERY_FAILURES_BY_USER in
       bnd (reserve_second_factor fail_key MAX_RECOVERY_FAILURES account_keys RECOVERY_FAILURE_USER_WINDOW_SECS user_id) (\<lambda>n.
       bnd (challenged_user user_id) (\<lambda>user.
       bnd (map_err internal (rc_find_by_hash (crypto_sha256 st recovery_code_plaintext))) (\<lambda>found.
       bnd (case found of
              Some record \<Rightarrow> if rc_user_id record = user_id then map_err internal (rc_consume (rc_id record)) else ret False
            | None \<Rightarrow> ret False) (\<lambda>consumed.
       if \<not> consumed then refuse_second_factor user n ip user_agent request_id
       else seq (take_pre_auth st (pre_auth_key st pre_auth_token) user_id pre_auth_token [fail_key])
         (seq (reset (map fst account_keys))
         (bnd (issue_tokens st (u_id user) ip user_agent None (pa_remember_me pre_auth) Web None None
            (Some (second_factor_sign_in request_id (JStr ''recovery_code'')))) (\<lambda>tokens.
         seq (send_mail \<lparr>m_kind = ''recovery_code_used'', m_to = u_email user,
                m_args = [AStr (u_username user), AStr (u_preferred_locale user)]\<rparr>)
         (ret tokens))))))))))"

section \<open>Frames\<close>

lemma keeps_second_factor_calls [frame_intros]:
  "keeps same_db (take_pre_auth st k u tok ks)" "keeps same_db (reserve_second_factor k n bs win u)"
  "keeps same_db (challenged_user u)" "keeps same_db (totp_method u)"
  unfolding take_pre_auth_def reserve_second_factor_def challenged_user_def totp_method_def
  by (auto intro!: sd.keeps_intros frame_intros split: option.split)

lemma keeps_second_factor_writes:
  assumes "\<And>t x. f (t\<lparr>two_factor_methods := x\<rparr>) = f t" "\<And>t x. f (t\<lparr>recovery_codes := x\<rparr>) = f t"
    "\<And>t x. f (t\<lparr>used_totp_codes := x\<rparr>) = f t" "\<And>t x. f (t\<lparr>email_2fa_codes := x\<rparr>) = f t"
    and [simp]: "\<And>t x. f (t\<lparr>users := x\<rparr>) = f t" "\<And>t x. f (t\<lparr>login_attempts := x\<rparr>) = f t" "\<And>t x. f (t\<lparr>audit_log := x\<rparr>) = f t"
  shows "keeps (same_of f) (consume_totp st u code)" "keeps (same_of f) (refuse_second_factor user n ip ua req)"
  unfolding consume_totp_def refuse_second_factor_def
  by (auto intro!: so.keeps_intros keeps_factor_writes [of f, OF assms(1-4)] keeps_login_writes frame_intros [THEN so.keeps_same_db] split: sum.split)

lemmas second_factor_frame [session_frame] = keeps_second_factor_writes [where f = sessions, simplified]
lemmas second_factor_links [link_intros] = keeps_second_factor_writes [where f = links, simplified, THEN keeps_mailbox_other]

lemma keeps_completion_links [link_intros]:
  "keeps mailbox_evolves (complete_two_factor_login st tok code ip ua device req)"
  "keeps mailbox_evolves (complete_email_2fa_login st tok code ip ua device req)"
  "keeps mailbox_evolves (complete_login_with_recovery st tok code ip ua req)"
  unfolding complete_two_factor_login_def complete_email_2fa_login_def complete_login_with_recovery_def Let_def
  by (auto intro!: mb.keeps_intros link_intros frame_intros [THEN mb.keeps_same_db] split: option.split sum.split)

section \<open>Refinement of the session machine\<close>

lemma completion_refines:
  "keeps (refines Pool) (complete_two_factor_login st tok code ip ua device req)"
  "keeps (refines Pool) (complete_email_2fa_login st tok code ip ua device req)"
  "keeps (refines Pool) (complete_login_with_recovery st tok code ip ua req)"
  unfolding complete_two_factor_login_def complete_email_2fa_login_def complete_login_with_recovery_def Let_def
  by (auto intro!: refines_intros issue_tokens_refines session_frame [THEN keeps_refines_other] frame_intros [THEN rf.keeps_same_db]
      split: option.split sum.split)

lemma completion_rows:
  "keeps rows_kept (complete_two_factor_login st tok code ip ua device req)"
  "keeps rows_kept (complete_email_2fa_login st tok code ip ua device req)"
  "keeps rows_kept (complete_login_with_recovery st tok code ip ua req)"
  unfolding complete_two_factor_login_def complete_email_2fa_login_def complete_login_with_recovery_def Let_def
  by (auto intro!: rows_intros keeps_rows_tokens session_frame [THEN keeps_rows_other] frame_intros [THEN rk.keeps_same_db]
      split: option.split sum.split)

section \<open>A key that is gone stays gone\<close>

definition unset :: "rkey \<Rightarrow> world \<Rightarrow> world \<Rightarrow> bool" where
  "unset k w w' \<longleftrightarrow> (redis w k = None \<longrightarrow> redis w' k = None)"

interpretation us: step_relation "unset k" for k
  by unfold_locales (auto simp: unset_def)

lemma unset_db:
  "keeps (unset k) (db_stmt ex f)" "keeps (unset k) (db_read ex g)" "keeps (unset k) (db_write ex h)"
  "(\<And>tx. keeps (unset k) (body tx)) \<Longrightarrow> keeps (unset k) (in_tx err body)"
proof -
  show stmt: "keeps (unset k) (db_stmt ex f)" for ex and f :: "instant \<Rightarrow> tables \<Rightarrow> (sql_error + 'x) \<times> tables"
    by (auto simp: keeps_def unset_def db_stmt_def Let_def split: prod.split sum.split outcome.split)
  show "keeps (unset k) (db_read ex g)" "keeps (unset k) (db_write ex h)"
    by (simp_all add: db_read_def db_write_def stmt)
  show "keeps (unset k) (in_tx err body)" if "\<And>tx. keeps (unset k) (body tx)"
  proof -
    have "unset k w (snd (body tx w))" for tx w
      using that by (simp add: keeps_def)
    then show ?thesis
      unfolding keeps_def unset_def in_tx_def Let_def
      by (auto split: prod.split sum.split outcome.split) (metis snd_conv tick_simps(2))+
  qed
qed

lemma unset_calls:
  "keeps (unset k) clock_now" "keeps (unset k) fresh_uuid" "keeps (unset k) (draw g)" "keeps (unset k) (send_mail m)"
  "keeps (unset k) (sleep_secs n)" "keeps (unset k) redis_conn"
  "(\<And>now r. r k = None \<Longrightarrow> snd (f now r) k = None) \<Longrightarrow> keeps (unset k) (redis_cmd f)"
  by (auto simp: keeps_def unset_def clock_now_def fresh_uuid_def draw_def send_mail_def modify_def sleep_secs_def redis_conn_def
      redis_cmd_def Let_def split: outcome.split prod.split) (metis snd_conv)+

lemmas unset_intros = us.keeps_intros unset_db unset_calls

lemma rdel_all_other: "r k = None \<Longrightarrow> rdel_all ks r k = None"
  by (induction ks arbitrary: r) auto

lemma unset_redis:
  "(\<And>now r. r k = None \<Longrightarrow> g now r k = None) \<Longrightarrow> keeps (unset k) (redis_ignored g)" "keeps (unset k) (redis_read f d)"
  "(\<And>now r. r k = None \<Longrightarrow> g now r k = None) \<Longrightarrow> keeps (unset k) (redis_best_effort g)"
  "keeps (unset k) (reset ks)" "k' \<noteq> k \<Longrightarrow> keeps (unset k) (claim_cooldown k' n)"
  unfolding redis_ignored_def redis_read_def redis_best_effort_def reset_def claim_cooldown_def
  by (auto intro!: unset_intros simp: rdel_all_other rset_nx_ex_def rset_ex_def split: sum.split)

lemma unset_consume: "k \<notin> b_key ` set bs \<Longrightarrow> keeps (unset k) (consume bs)"
  unfolding consume_def run_script_def
  by (auto intro!: unset_intros) (metis consume_script_other prod.collapse)

lemma unset_factor_calls:
  "keeps (unset (PreAuth i)) (apply_backoff n)" "keeps (unset (PreAuth i)) (notify_second_factor_pressure u)"
  "keeps (unset (PreAuth i)) (reserve_second_factor (TotpFail c) n (second_factor_budget_keys prefix u ip m) win u)"
  "keeps (unset (PreAuth i)) (reserve_second_factor (RcFail c) n (second_factor_budget_keys prefix u ip m) win u)"
  "keeps (unset (PreAuth i)) (challenged_user u)" "keeps (unset (PreAuth i)) (totp_method u)"
  "keeps (unset (PreAuth i)) (consume_totp st u code)" "keeps (unset (PreAuth i)) (refuse_second_factor user n ip ua req)"
  "keeps (unset (PreAuth i)) (record_second_factor_failure user ip ua req)"
  "keeps (unset (PreAuth i)) (verify_login_code st u tok code ip)"
  "keeps (unset (PreAuth i)) (take_pre_auth st k u tok ks)" "keeps (unset (PreAuth i)) (resolve_pre_auth st tok)"
  "keeps (unset (PreAuth i)) (expect_method s method)"
  unfolding apply_backoff_def notify_second_factor_pressure_def reserve_second_factor_def challenged_user_def totp_method_def consume_totp_def
    refuse_second_factor_def record_second_factor_failure_def record_failure_def verify_login_code_def verify_otp_def take_pre_auth_def
    resolve_pre_auth_def load_pre_auth_state_from_redis_def expect_method_def user_find_by_id_def ensure_account_usable_def
    ensure_status_allows_sign_in_def find_primary_by_user_def try_consume_totp_code_def record_attempt_def audit_append_def
    find_active_by_user_and_hash_def email_code_consume_def Let_def
  by (auto intro!: unset_intros unset_redis unset_consume
      simp: second_factor_budgets_def second_factor_budget_keys_def otp_budgets_def rset_ex_def rsrem_def rput_set_def
        user_pre_auth_index_key_def rdel_def rdel_all_other split: option.splits sum.split user_status.split prod.splits)

lemma unset_issue_tokens: "keeps (unset k) (issue_tokens st u ip ua device remember ty cid scopes si)"
  unfolding issue_tokens_def record_sign_in_def alert_new_device_def build_access_token_def create_def known_device_record_def audit_append_def
    user_record_sign_in_def record_attempt_def find_rbac_names_def client_find_by_id_def user_find_by_id_def Let_def
  by (auto intro!: unset_intros split: option.splits sum.split prod.splits)

section \<open>A challenge completes one sign-in\<close>

datatype completion =
    ByTotp string string "ipnetwork option" "string option" "unicode option" "uuid option"
  | ByMail string string "ipnetwork option" "string option" "unicode option" "uuid option"
  | ByRecovery string string "ipnetwork option" "string option" "uuid option"

fun completes :: "app_state \<Rightarrow> completion \<Rightarrow> (app_error, auth_tokens) svc" where
  "completes st (ByTotp tok code ip ua device req) = complete_two_factor_login st tok code ip ua device req"
| "completes st (ByMail tok code ip ua device req) = complete_email_2fa_login st tok code ip ua device req"
| "completes st (ByRecovery tok code ip ua req) = complete_login_with_recovery st tok code ip ua req"

fun answered :: "completion \<Rightarrow> string" where
  "answered (ByTotp tok code ip ua device req) = tok"
| "answered (ByMail tok code ip ua device req) = tok"
| "answered (ByRecovery tok code ip ua req) = tok"

lemma take_removes:
  "wp (take_pre_auth st (PreAuth i) u tok ks) (\<lambda>_ w'. redis w' (PreAuth i) = None) (\<lambda>_ _. True) w"
proof -
  have rest: "keeps (unset (PreAuth i)) (seq (for_each ks (\<lambda>key. redis_ignored (\<lambda>_ r. rdel_all [key] r)))
      (redis_ignored (\<lambda>now r. rsrem now (user_pre_auth_index_key u) (challenge_id st tok) r)))"
    by (auto intro!: unset_intros unset_redis simp: rdel_all_other rsrem_def rput_set_def user_pre_auth_index_key_def)
  have removed: "wp (map_err redis_unavailable (redis_cmd (\<lambda>now r. rdel now (PreAuth i) r)))
      (\<lambda>_ v. redis v (PreAuth i) = None) (\<lambda>_ _. True) v" for v
    by (auto simp: wp_simps rdel_def Let_def split: outcome.split)
  show ?thesis
    unfolding take_pre_auth_def
    by (rule wp_whatever, rule wp_bnd_rule [OF removed]) (auto simp: wp_throw unset_def intro!: keeps_wp [OF rest])
qed

text \<open>What follows the removal does not bring the challenge back.\<close>

lemma taken_then:
  assumes "keeps (unset (PreAuth i)) m"
  shows "wp (seq (take_pre_auth st (PreAuth i) u tok ks) m) (\<lambda>_ w'. redis w' (PreAuth i) = None) (\<lambda>_ _. True) w"
  by (rule wp_seq_rule [OF take_removes]) (auto simp: unset_def intro!: keeps_wp [OF assms])

lemma never_returns:
  "wp (refuse_second_factor user n ip ua req) Q (\<lambda>_ _. True) w" "wp (throw e) Q (\<lambda>_ _. True) w"
  by (simp_all add: refuse_second_factor_def wp_throw wp_whatever)

lemma completion_unset: "keeps (unset (PreAuth i)) (completes st c)"
  by (cases c; simp only: completes.simps complete_two_factor_login_def complete_email_2fa_login_def complete_login_with_recovery_def Let_def)
    (auto simp: rc_find_by_hash_def rc_consume_def intro!: unset_intros unset_factor_calls unset_issue_tokens unset_redis split: sum.split option.split)

lemma completion_takes:
  "wp (completes st c) (\<lambda>_ w'. redis w' (pre_auth_key st (answered c)) = None) (\<lambda>_ _. True) w"
  by (cases c; simp only: completes.simps answered.simps pre_auth_key_def complete_two_factor_login_def complete_email_2fa_login_def
      complete_login_with_recovery_def Let_def)
    (rule never_returns | rule taken_then | rule wp_whatever | rule wp_cases | assumption
      | (auto intro!: unset_intros unset_redis unset_issue_tokens; fail))+

lemma completion_needs_state:
  assumes "redis w (pre_auth_key st (answered c)) = None"
  shows "wp (completes st c) (\<lambda>_ _. False) (\<lambda>_ _. True) w"
proof -
  have "wp (bnd (resolve_pre_auth st tok) k) (\<lambda>_ _. False) (\<lambda>_ _. True) w" if "redis w (pre_auth_key st tok) = None"
    for tok and k :: "pre_auth_state \<Rightarrow> (app_error, auth_tokens) svc"
    using that by (simp add: resolve_pre_auth_def load_pre_auth_state_from_redis_def wp_simps rget_def Let_def split: outcome.split)
  then show ?thesis
    using assms by (cases c) (simp_all add: complete_two_factor_login_def complete_email_2fa_login_def complete_login_with_recovery_def Let_def)
qed

text \<open>C3: A challenge completes at most one sign-in. Over any sequence of completions (by TOTP,
  mailed code or recovery code, of any challenges) and any failures of Redis and the database, at
  most one of those that answer a given challenge returns tokens: the challenge is removed before
  its session is issued, and none of them brings it back.\<close>

theorem challenge_completes_once:
  assumes "i < j" "j < length calls"
    and "challenge_id st (answered (calls ! i)) = challenge_id st (answered (calls ! j))"
    and "fst (history (completes st) calls w) ! i = Inr tokens"
  shows "fst (history (completes st) calls w) ! j \<noteq> Inr tokens'"
proof -
  let ?k = "pre_auth_key st (answered (calls ! i))"
  let ?P = "\<lambda>c r. pre_auth_key st (answered c) = ?k \<and> (\<exists>x :: auth_tokens. r = Inr x)"
  have "\<not> ?P (calls ! j) (fst (history (completes st) calls w) ! j)"
  proof (rule history_once [where I = "\<lambda>w. redis w ?k = None" and J = "\<lambda>_. True"])
    fix c w
    show "redis (snd (completes st c w)) ?k = None" if "?P c (fst (completes st c w))"
      using that completion_takes [of st c w] by (auto simp: wp_def split: prod.splits)
    show "redis (snd (completes st c w)) ?k = None \<and> \<not> ?P c (fst (completes st c w))" if "redis w ?k = None"
      using that keepsD [OF completion_unset [of "challenge_id st (answered (calls ! i))" st c], of w] completion_needs_state [of w st c]
      by (auto simp: unset_def pre_auth_key_def wp_def split: prod.splits)
  qed (use assms in auto)
  then show ?thesis
    using assms(3) by (auto simp: pre_auth_key_def)
qed

section \<open>A completion shows the second factor\<close>

fun method_fits :: "completion \<Rightarrow> pre_auth_state \<Rightarrow> bool" where
  "method_fits (ByTotp tok code ip ua device req) pre \<longleftrightarrow> pa_method pre = Some ChallengeTotp"
| "method_fits (ByMail tok code ip ua device req) pre \<longleftrightarrow> pa_method pre = Some ChallengeEmail"
| "method_fits (ByRecovery tok code ip ua req) pre \<longleftrightarrow> pa_method pre \<noteq> None"

fun factor_shown :: "app_state \<Rightarrow> completion \<Rightarrow> uuid \<Rightarrow> tables \<Rightarrow> bool" where
  "factor_shown st (ByTotp tok code ip ua device req) u t \<longleftrightarrow>
     (\<exists>m secret now. primary_method u t = Some m \<and> tf_method_type m = Totp \<and> tf_totp_secret m = Some secret \<and>
        totp_verify_code st secret u code now = Inr True)"
| "factor_shown st (ByMail tok code ip ua device req) u t \<longleftrightarrow>
     (\<exists>c \<in> set (email_2fa_codes t). ec_user_id c = u \<and> ec_used_at c = None \<and>
        ec_code_hash c \<in> set (otp_digests (crypto st) (keyring_of st) OTP_PURPOSE (code_subject st u (Some tok)) code))"
| "factor_shown st (ByRecovery tok code ip ua req) u t \<longleftrightarrow>
     (\<exists>r \<in> set (recovery_codes t). rc_user_id r = u \<and> rc_used_at r = None \<and> rc_code_hash r = crypto_sha256 st code)"

definition completed :: "app_state \<Rightarrow> completion \<Rightarrow> world \<Rightarrow> auth_tokens \<Rightarrow> world \<Rightarrow> bool" where
  "completed st c w tokens w' \<longleftrightarrow>
     (\<exists>pre expiry u. redis w (pre_auth_key st (answered c)) = Some (RState pre, expiry) \<and> method_fits c pre \<and>
        find_user (pa_user_id pre) (tables w) = Some u \<and> u_status u = UserActive \<and> factor_shown st c (u_id u) (tables w) \<and>
        session_of st (u_id u) True tokens (tables w'))"

definition loaded :: "app_state \<Rightarrow> string \<Rightarrow> world \<Rightarrow> pre_auth_state \<Rightarrow> bool" where
  "loaded st tok w pre \<longleftrightarrow>
     (\<exists>raw expiry. redis w (pre_auth_key st tok) = Some (raw, expiry) \<and> parse_pre_auth_state raw = Inr pre)"

lemma resolve_wp:
  "wp (resolve_pre_auth st tok) (\<lambda>pre v. tables v = tables w \<and> loaded st tok w pre) (\<lambda>_ _. True) w"
  by (auto simp: resolve_pre_auth_def load_pre_auth_state_from_redis_def loaded_def wp_simps rget_def Let_def
      split: outcome.split option.splits sum.split prod.splits if_splits)

lemma parsed_method: "parse_pre_auth_state raw = Inr pre \<Longrightarrow> pa_method pre \<noteq> None \<Longrightarrow> raw = RState pre"
  by (cases raw) auto

lemma challenged_user_wp:
  "wp (challenged_user i) (\<lambda>u v. tables v = tables w \<and> find_user i (tables w) = Some u \<and> u_status u = UserActive) (\<lambda>_ _. True) w"
  by (auto simp: challenged_user_def user_find_by_id_def ensure_account_usable_def ensure_status_allows_sign_in_def wp_simps
      split: option.split user_status.split)

lemma totp_method_wp:
  "wp (totp_method i) (\<lambda>secret v. tables v = tables w \<and>
     (\<exists>m. primary_method i (tables w) = Some m \<and> tf_method_type m = Totp \<and> tf_totp_secret m = Some secret)) (\<lambda>_ _. True) w"
  by (auto simp: totp_method_def find_primary_by_user_def wp_simps split: option.split)

lemma found_id: "find_user i t = Some u \<Longrightarrow> u_id u = i"
  by (auto simp: find_user_def find_Some_iff)

lemma issued:
  "wp (issue_tokens st u ip ua device remember ty cid scopes (Some (second_factor_sign_in req kind)))
    (\<lambda>tokens w'. session_of st u True tokens (tables w')) (\<lambda>_ _. True) w"
  by (rule wp_mono [OF issue_tokens_wp]) (simp_all add: second_factor_sign_in_def)

text \<open>The account of a loaded challenge is read and usable; the rest is the business of the factor.\<close>

lemma completedI:
  assumes "loaded st (answered c) w pre" "method_fits c pre"
    "find_user (pa_user_id pre) (tables w) = Some u" "u_status u = UserActive" "factor_shown st c (pa_user_id pre) (tables w)"
    "session_of st (u_id u) True tokens (tables w')"
  shows "completed st c w tokens w'"
proof -
  have "pa_method pre \<noteq> None"
    using assms(2) by (cases c) auto
  then have "\<exists>expiry. redis w (pre_auth_key st (answered c)) = Some (RState pre, expiry)"
    using assms(1) parsed_method by (fastforce simp: loaded_def)
  then show ?thesis
    using assms found_id [OF assms(3)] by (auto simp: completed_def)
qed

lemma expect_then:
  assumes "pa_method pre = Some m \<Longrightarrow> wp k Q (\<lambda>_ _. True) v"
  shows "wp (seq (expect_method pre m) k) Q (\<lambda>_ _. True) v"
  using assms by (simp add: expect_method_def wp_seq wp_ret wp_throw)

lemma totp_completion:
  "wp (complete_two_factor_login st tok code ip ua device req)
    (\<lambda>tokens w'. completed st (ByTotp tok code ip ua device req) w tokens w') (\<lambda>_ _. True) w"
proof -
  let ?c = "ByTotp tok code ip ua device req"
  let ?Q = "\<lambda>tokens w'. completed st ?c w tokens w'"
  have verified: "wp (bnd (totp_method (u_id user)) (\<lambda>secret. bnd clock_now (\<lambda>now.
       bnd (map_err internal (of_sum (totp_verify_code st secret (pa_user_id pre) code (unix_timestamp now)))) (\<lambda>valid.
       bnd (if valid then consume_totp st (pa_user_id pre) code else ret False) (\<lambda>consumed.
       if \<not> consumed then refuse_second_factor user n ip ua req
       else seq m (seq (take_pre_auth st k i tok ks) (issue_tokens st (u_id user) ip ua device r Web None None
            (Some (second_factor_sign_in req kind)))))))))
      ?Q (\<lambda>_ _. True) v"
    if v: "tables v = tables w" and pre: "loaded st tok w pre" "pa_method pre = Some ChallengeTotp" and user: "find_user (pa_user_id pre) (tables w) = Some user" "u_status user = UserActive"
    for v pre user n k i ks r kind and m :: "(app_error, unit) svc"
  proof -
    have issue: "wp (seq m (seq (take_pre_auth st k i tok ks) (issue_tokens st (u_id user) ip ua device r Web None None
            (Some (second_factor_sign_in req kind))))) ?Q (\<lambda>_ _. True) x"
      if "factor_shown st ?c (pa_user_id pre) (tables w)" for x
      by (intro wp_whatever wp_mono [OF issued]) (use pre user that in \<open>auto intro!: completedI\<close>)
    have consumed: "wp (bnd (if valid then consume_totp st (pa_user_id pre) code else ret False) (\<lambda>consumed.
       if \<not> consumed then refuse_second_factor user n ip ua req
       else seq m (seq (take_pre_auth st k i tok ks) (issue_tokens st (u_id user) ip ua device r Web None None
            (Some (second_factor_sign_in req kind)))))) ?Q (\<lambda>_ _. True) x"
      if "valid \<Longrightarrow> factor_shown st ?c (pa_user_id pre) (tables w)" for valid x
    proof (cases valid)
      case True
      then show ?thesis
        by (intro wp_whatever wp_cases never_returns issue that)
    next
      case False
      then show ?thesis
        by (simp add: wp_bnd wp_ret never_returns)
    qed
    show ?thesis
      by (rule wp_bnd_rule [OF totp_method_wp])
        (use v found_id [OF user(1)] in \<open>auto simp: wp_bnd [of clock_now] wp_clock_now wp_bnd [of "map_err _ _"] wp_map_err wp_of_sum
          intro!: consumed [of True, simplified] consumed [of False, simplified] split: sum.split\<close>)
  qed
  show ?thesis
    unfolding complete_two_factor_login_def Let_def
    by (rule wp_bnd_rule [OF resolve_wp], rule expect_then, rule wp_bnd_keeps [OF keeps_second_factor_calls(2)],
        rule wp_bnd_rule [OF challenged_user_wp], rule verified)
      (auto dest!: same_dbD(1))
qed

lemma mail_completion:
  assumes "distinct (map ec_id (email_2fa_codes (tables w)))"
  shows "wp (complete_email_2fa_login st tok code ip ua device req)
    (\<lambda>tokens w'. completed st (ByMail tok code ip ua device req) w tokens w') (\<lambda>_ _. True) w"
proof -
  let ?c = "ByMail tok code ip ua device req"
  have verified: "wp (bnd (attempt (verify_login_code st (pa_user_id pre) tok code ip)) (\<lambda>verified.
      case verified of
        Inl e \<Rightarrow> seq (when_do (e = TwoFactorFailed) (record_second_factor_failure user ip ua req)) (throw e)
      | Inr _ \<Rightarrow> seq (take_pre_auth st k i tok ks) (issue_tokens st (u_id user) ip ua device r Web None None
             (Some (second_factor_sign_in req kind)))))
      (\<lambda>tokens w'. completed st ?c w tokens w') (\<lambda>_ _. True) v"
    if v: "tables v = tables w" and pre: "loaded st tok w pre" "pa_method pre = Some ChallengeEmail"
      and user: "find_user (pa_user_id pre) (tables w) = Some user" "u_status user = UserActive" for v pre user k i ks r kind
  proof -
    have code: "wp (verify_login_code st (pa_user_id pre) tok code ip) (\<lambda>_ _. factor_shown st ?c (pa_user_id pre) (tables w)) (\<lambda>_ _. True) v"
      unfolding verify_login_code_def
      by (rule wp_mono [OF verify_otp_wp]) (use assms v in \<open>auto simp: answers_def email_code_live_def\<close>)
    show ?thesis
      unfolding wp_bnd wp_attempt
      by (rule wp_mono [OF code]) (use pre user in \<open>auto intro!: wp_whatever wp_mono [OF issued] completedI simp del: factor_shown.simps\<close>)
  qed
  show ?thesis
    unfolding complete_email_2fa_login_def Let_def
    by (rule wp_bnd_rule [OF resolve_wp], rule expect_then, rule wp_bnd_rule [OF challenged_user_wp], rule verified) auto
qed

lemma recovery_completion:
  "wp (complete_login_with_recovery st tok code ip ua req)
    (\<lambda>tokens w'. completed st (ByRecovery tok code ip ua req) w tokens w') (\<lambda>_ _. True) w"
proof -
  let ?c = "ByRecovery tok code ip ua req"
  let ?Q = "\<lambda>tokens w'. completed st ?c w tokens w'"
  have verified: "wp (bnd (map_err internal (rc_find_by_hash (crypto_sha256 st code))) (\<lambda>found.
       bnd (case found of
              Some record \<Rightarrow> if rc_user_id record = pa_user_id pre then map_err internal (rc_consume (rc_id record)) else ret False
            | None \<Rightarrow> ret False) (\<lambda>consumed.
       if \<not> consumed then refuse_second_factor user n ip ua req
       else seq (take_pre_auth st k i tok ks) (seq m
         (bnd (issue_tokens st (u_id user) ip ua None r Web None None (Some (second_factor_sign_in req kind))) (\<lambda>tokens.
         seq (send_mail mail) (ret tokens))))))) ?Q (\<lambda>_ _. True) v"
    if v: "tables v = tables w" and pre: "loaded st tok w pre" "pa_method pre \<noteq> None"
      and user: "find_user (pa_user_id pre) (tables w) = Some user" "u_status user = UserActive"
    for v pre user n k i ks r kind mail and m :: "(app_error, unit) svc"
  proof -
    have issue: "wp (seq (take_pre_auth st k i tok ks) (seq m
         (bnd (issue_tokens st (u_id user) ip ua None r Web None None (Some (second_factor_sign_in req kind))) (\<lambda>tokens.
         seq (send_mail mail) (ret tokens))))) ?Q (\<lambda>_ _. True) x" if "factor_shown st ?c (pa_user_id pre) (tables w)" for x
      by (rule wp_whatever(2), rule wp_whatever(2), rule wp_bnd_rule [OF issued])
        (use pre user that in \<open>auto simp: wp_seq wp_ret send_mail_def wp_modify intro!: completedI simp del: factor_shown.simps\<close>)
    have shown: "factor_shown st ?c (pa_user_id pre) (tables w)"
      if "find (\<lambda>c. rc_code_hash c = crypto_sha256 st code \<and> recovery_usable now c) (recovery_codes (tables w)) = Some found"
        "rc_user_id found = pa_user_id pre" for now found
      using that find_Some_set [OF that(1)] by (auto simp: recovery_usable_def)
    have none: "wp (bnd (ret False) (\<lambda>consumed. if \<not> consumed then refuse_second_factor user n ip ua req else z)) ?Q (\<lambda>_ _. True) x" for x z
      by (simp add: wp_bnd wp_ret never_returns)
    have "wp (bnd (case found of
              Some r \<Rightarrow> if rc_user_id r = pa_user_id pre then map_err internal (rc_consume (rc_id r)) else ret False
            | None \<Rightarrow> ret False) (\<lambda>consumed.
       if \<not> consumed then refuse_second_factor user n ip ua req
       else seq (take_pre_auth st k i tok ks) (seq m
         (bnd (issue_tokens st (u_id user) ip ua None r Web None None (Some (second_factor_sign_in req kind))) (\<lambda>tokens.
         seq (send_mail mail) (ret tokens)))))) ?Q (\<lambda>_ _. True) x"
      if "\<And>r. found = Some r \<Longrightarrow> rc_user_id r = pa_user_id pre \<Longrightarrow> factor_shown st ?c (pa_user_id pre) (tables w)" for found x
    proof (cases "\<exists>r. found = Some r \<and> rc_user_id r = pa_user_id pre")
      case True
      then show ?thesis
        by (intro wp_whatever(1), intro wp_cases(1), intro never_returns(1), intro issue) (use that in blast)
    next
      case False
      then have "(case found of
              Some r \<Rightarrow> if rc_user_id r = pa_user_id pre then map_err internal (rc_consume (rc_id r)) else ret False
            | None \<Rightarrow> ret False) = (ret False :: (app_error, bool) svc)"
        by (auto split: option.split)
      then show ?thesis
        by (simp only: none)
    qed
    note after = this
    have found: "wp (map_err internal (rc_find_by_hash (crypto_sha256 st code)))
      (\<lambda>found _. \<forall>r. found = Some r \<longrightarrow> rc_user_id r = pa_user_id pre \<longrightarrow> factor_shown st ?c (pa_user_id pre) (tables w)) (\<lambda>_ _. True) v"
      using shown by (simp add: wp_map_err rc_find_by_hash_def wp_db_read v del: factor_shown.simps)
    show ?thesis
      by (rule wp_bnd_rule [OF found], rule after) blast+
  qed
  show ?thesis
    unfolding complete_login_with_recovery_def Let_def
    by (rule wp_bnd_rule [OF resolve_wp], rule wp_cases(1), rule never_returns, rule wp_bnd_keeps [OF keeps_second_factor_calls(2)],
        rule wp_bnd_rule [OF challenged_user_wp], rule verified)
      (auto dest!: same_dbD(1))
qed

text \<open>C2: A paused sign-in is completed only with the second factor it asks for. Where a completion
  returns tokens, the challenge was open and issued for the method answered (a recovery code stands
  in for any), its account is active, and the factor was shown: a code its TOTP secret verifies, an
  unused mailed code for this very challenge, or an unused recovery code of the account; the session
  belongs to that account and is marked as signed in with two factors.\<close>

theorem completion_shows_the_factor:
  assumes "completes st c w = (Inr tokens, w')" "email_codes_known w"
  shows "completed st c w tokens w'"
proof -
  have "wp (completes st c) (\<lambda>tokens w'. completed st c w tokens w') (\<lambda>_ _. True) w"
    using totp_completion mail_completion recovery_completion assms(2) by (cases c) (simp_all add: email_codes_known_def)
  then show ?thesis
    using assms(1) by (rule wp_ok)
qed

definition demo_recovery :: "instant option \<Rightarrow> tables" where
  "demo_recovery used = demo_tables\<lparr>recovery_codes :=
     [\<lparr>rc_id = 7, rc_user_id = 1, rc_created_at = 0, rc_expires_at = None, rc_used_at = used,
       rc_code_position = 1, rc_code_hash = replicate 32 6\<rparr>]\<rparr>"

definition demo_challenge_world :: world where
  "demo_challenge_world = (initial_world (demo_recovery None))
     \<lparr>redis := (\<lambda>k. if k = pre_auth_key demo_refresh_state ''tok'' then
        Some (RState \<lparr>pa_user_id = 1, pa_remember_me = False, pa_method = Some ChallengeTotp\<rparr>, None) else None)\<rparr>"

lemma demo_issues:
  "wp (issue_tokens demo_refresh_state 1 None None None False Web None None (Some (second_factor_sign_in None (JStr ''recovery_code''))))
     (\<lambda>_ _. True) (\<lambda>_ _. False) ((initial_world (demo_recovery (Some 0)))\<lparr>redis := r\<rparr>)"
  by code_simp

lemma demo_completion_runs:
  "wp (completes demo_refresh_state (ByRecovery ''tok'' ''backup'' None None None)) (\<lambda>_ _. True) (\<lambda>_ _. False) demo_challenge_world"
proof -
  let ?w = "\<lambda>used r. (initial_world (demo_recovery used))\<lparr>redis := r\<rparr>"
  let ?row = "hd (recovery_codes (demo_recovery None))"
  have user: "find_user (Suc 0) (demo_recovery None) = Some demo_user" "u_status demo_user = UserActive" "u_id demo_user = 1" "\<not> is_locked demo_user n" for n
    by (simp_all add: demo_recovery_def demo_tables_def empty_tables_def demo_user_def find_user_def is_locked_def)
  have "rc_find_by_hash (crypto_sha256 demo_refresh_state ''backup'') (?w None r) = (Inr (Some ?row), ?w None r)"
      "rc_consume (rc_id ?row) (?w None r) = (Inr True, ?w (Some 0) r)" and row: "rc_user_id ?row = Suc 0" for r
    by (simp_all add: rc_find_by_hash_def db_read_def db_stmt_def demo_recovery_def demo_refresh_state_def recovery_usable_def initial_world_def
       rc_consume_def put_recovery_def update_where_def Let_def db_now_def next_outcome_def checked_def recovery_ok_def recovery_checks_def tick_def)
  then have found: "wp (rc_find_by_hash (crypto_sha256 demo_refresh_state ''backup'')) Q E (?w None r) = Q (Some ?row) (?w None r)"
      "wp (rc_consume (rc_id ?row)) Q' E (?w None r) = Q' True (?w (Some 0) r)" for Q Q' E r
    by (simp_all add: wp_def)
  have w: "sched (initial_world t) = []" "tables (initial_world t) = t" "real_now (initial_world t) = 0" for t
    by (simp_all add: initial_world_def)
  have issue: "wp (issue_tokens demo_refresh_state (Suc 0) None None None False Web None None
      (Some (second_factor_sign_in None (JStr ''recovery_code'')))) Q (\<lambda>_ _. False) (?w (Some 0) r)" if "\<And>x v. Q x v" for Q r
    using wp_mono [OF demo_issues] that by fastforce
  show ?thesis
    by (simp add: complete_login_with_recovery_def Let_def resolve_pre_auth_def load_pre_auth_state_from_redis_def found w user row reserve_second_factor_def
     challenged_user_def ensure_account_usable_def ensure_status_allows_sign_in_def wp_simps demo_challenge_world_def rget_def pre_auth_key_def take_pre_auth_def
     second_factor_budgets_def second_factor_budget_keys_def account_budget_exceeded_def hit_def rincr_by_def rexpire_def as_int_def rdel_def
     MAX_RECOVERY_FAILURES_def MAX_RECOVERY_FAILURES_BY_USER_def SECOND_FACTOR_ACCOUNT_FACTOR_def redis_ignored_def rsrem_def user_pre_auth_index_key_def
     rsmembers_def rexists_def as_set_def reset_def rput_set_def redis_best_effort_def)
      (rule issue, simp add: wp_simps send_mail_def)
qed

theorem completion_shows_the_factor_witness:
  "\<exists>tokens w'. completed demo_refresh_state (ByRecovery ''tok'' ''backup'' None None None) demo_challenge_world tokens w'"
proof -
  obtain tokens w' where "completes demo_refresh_state (ByRecovery ''tok'' ''backup'' None None None) demo_challenge_world = (Inr tokens, w')"
    using demo_completion_runs by (auto simp: wp_def split: prod.splits sum.splits)
  from completion_shows_the_factor [OF this] show ?thesis
    by (auto simp: email_codes_known_def demo_challenge_world_def demo_recovery_def initial_world_def demo_tables_def empty_tables_def)
qed

theorem challenge_completes_once_witness:
  "\<exists>tokens answer. fst (history (completes demo_refresh_state)
      [ByRecovery ''tok'' ''backup'' None None None, ByTotp ''tok'' ''123456'' None None None None] demo_challenge_world) = [Inr tokens, Inl answer]"
proof -
  let ?calls = "[ByRecovery ''tok'' ''backup'' None None None, ByTotp ''tok'' ''123456'' None None None None]"
  let ?h = "fst (history (completes demo_refresh_state) ?calls demo_challenge_world)"
  obtain tokens where first: "?h ! 0 = Inr tokens"
    using demo_completion_runs by (auto simp: wp_def case_prod_beta split: sum.splits)
  then have "?h ! 1 \<noteq> Inr x" for x
    by (intro challenge_completes_once [where i = 0]) simp_all
  then obtain answer where "?h ! 1 = Inl answer"
    by (cases "?h ! 1") auto
  then show ?thesis
    using first by (auto simp: case_prod_beta)
qed

end
