(* ===== verification/Admin_Roles.thy ===== *)
theory Admin_Roles
  imports Register
begin

text \<open>
  Administration of roles (\<^verbatim>\<open>services/admin/roles.rs\<close>, \<^verbatim>\<open>services/admin/mod.rs\<close>): nobody grants or
  withdraws a permission they do not hold, and an active account able to manage roles remains.
\<close>

section \<open>The administrator\<close>

record actor =
  by_user_id :: uuid
  by_session_id :: uuid
  by_ip :: "ipnetwork option"
  by_request_id :: "uuid option"

text \<open>The fields of \<open>extra\<close> replace those of the same name.\<close>

definition actor_metadata :: "actor \<Rightarrow> json \<Rightarrow> json" where
  "actor_metadata actor extra =
     (let fields = [(''by'', JStr ''administrator''), (''administrator_id'', JUuid (by_user_id actor))] in
      case extra of
        JObj xs \<Rightarrow> JObj (filter (\<lambda>(k, _). k \<notin> fst ` set xs) fields @ xs)
      | _ \<Rightarrow> JObj fields)"

definition record_read :: "actor \<Rightarrow> json \<Rightarrow> (app_error, unit) svc" where
  "record_read actor extra =
     map_err internal (audit_append Pool (Some (by_user_id actor)) (by_request_id actor) AdminDataRead (by_ip actor)
       (actor_metadata actor extra))"

definition notify_owner :: "uuid \<Rightarrow> string \<Rightarrow> string option \<Rightarrow> ('e, unit) svc" where
  "notify_owner user_id change role_name =
     bnd (attempt (user_find_by_id Pool user_id)) (\<lambda>found.
     case found of
       Inr (Some user) \<Rightarrow>
         send_mail \<lparr>m_kind = ''changed_by_administrator'', m_to = u_email user,
           m_args = [AStr (u_username user), AStr (u_preferred_locale user), AStr change] @
             (case role_name of None \<Rightarrow> [] | Some r \<Rightarrow> [AStr r])\<rparr>
     | _ \<Rightarrow> ret ())"

section \<open>Guards\<close>

definition refuse_own_account :: "actor \<Rightarrow> uuid \<Rightarrow> (app_error, unit) svc" where
  "refuse_own_account actor user_id = (if by_user_id actor = user_id then throw Forbidden else ret ())"

definition ensure_can_administer :: "executor \<Rightarrow> user \<Rightarrow> role \<Rightarrow> (app_error, unit) svc" where
  "ensure_can_administer tx user r =
     bnd (map_err internal (grants_administration tx (ro_id r))) (\<lambda>grants.
     if \<not> grants then ret ()
     else bnd (if u_status user \<noteq> UserActive then ret True
               else bnd (map_err internal (has_second_factor tx (u_id user))) (\<lambda>has. ret (\<not> has))) (\<lambda>refused.
       if refused then throw (Conflict ''administrator_without_second_factor'') else ret ()))"

definition ensure_actor_holds :: "executor \<Rightarrow> actor \<Rightarrow> string list \<Rightarrow> (app_error, unit) svc" where
  "ensure_actor_holds tx actor names =
     for_each names (\<lambda>p.
       bnd (map_err internal (user_has_permission tx (by_user_id actor) p)) (\<lambda>holds.
       if holds then ret () else throw Forbidden))"

definition role_find :: "string \<Rightarrow> (app_error, role) svc" where
  "role_find name = bnd (map_err internal (role_find_by_name name)) (ok_or NotFound)"

fun join_with :: "string \<Rightarrow> string list \<Rightarrow> string" where
  "join_with sep [] = []"
| "join_with sep [x] = x"
| "join_with sep (x # y # xs) = x @ sep @ join_with sep (y # xs)"

definition known_permissions :: "string list \<Rightarrow> (app_error, string list) svc" where
  "known_permissions requested =
     (let names = remdups_adj (sort requested) in
      bnd (map_err internal (unknown_permissions names)) (\<lambda>unknown.
      if unknown \<noteq> [] then throw (Validation (''unknown permissions: '' @ join_with '', '' unknown))
      else ret names))"

definition require_reauth :: "app_state \<Rightarrow> actor \<Rightarrow> string \<Rightarrow> (app_error, unit) svc" where
  "require_reauth st actor reason =
     require_recent_reauth_or_password st (by_user_id actor) (by_session_id actor) None (by_ip actor) (by_request_id actor) reason"

text \<open>The advisory lock of the transaction, then the check.\<close>

definition keep_an_administrator :: "executor \<Rightarrow> (app_error, unit) svc" where
  "keep_an_administrator tx =
     seq (map_err internal (db_read tx (\<lambda>_ _. ())))
     (bnd (map_err internal (permission_held tx ROLES_MANAGE)) (\<lambda>held.
      if held then ret () else throw (Conflict ''last_administrator'')))"

definition own_entry :: "executor \<Rightarrow> actor \<Rightarrow> audit_action \<Rightarrow> json \<Rightarrow> (app_error, unit) svc" where
  "own_entry tx actor action extra =
     map_err internal (audit_append tx (Some (by_user_id actor)) (by_request_id actor) action (by_ip actor) (actor_metadata actor extra))"

definition target_entry :: "executor \<Rightarrow> actor \<Rightarrow> uuid \<Rightarrow> audit_action \<Rightarrow> json \<Rightarrow> (app_error, unit) svc" where
  "target_entry tx actor user_id action extra =
     map_err internal (audit_append tx (Some user_id) (by_request_id actor) action (by_ip actor) (actor_metadata actor extra))"

section \<open>Roles\<close>

definition list_roles :: "(app_error, (role \<times> string list) list) svc" where
  "list_roles = map_err internal find_all_with_permissions"

definition create_role_tx ::
  "actor \<Rightarrow> string \<Rightarrow> string option \<Rightarrow> string list \<Rightarrow> executor \<Rightarrow> (app_error, role) svc" where
  "create_role_tx actor name description names tx =
     seq (ensure_actor_holds tx actor names)
     (bnd (map_err (from_unique_violation [(''roles_name_key'', ''role_exists'')]) (role_create tx name description)) (\<lambda>r.
      seq (map_err internal (role_set_permissions tx (ro_id r) names))
      (seq (own_entry tx actor RoleCreated (JObj [(''role'', JStr (ro_name r)), (''permissions'', JArr (map JStr names))]))
      (ret r))))"

definition create_role ::
  "app_state \<Rightarrow> actor \<Rightarrow> string \<Rightarrow> string option \<Rightarrow> string list \<Rightarrow> (app_error, role \<times> string list) svc" where
  "create_role st actor name description requested =
     (if \<not> is_valid_role_name name then
        throw (Validation ''role name must be 2 to 50 lower-case letters, digits or underscores, starting with a letter'')
      else if (case description of None \<Rightarrow> False | Some d \<Rightarrow> 500 < length d) then
        throw (Validation ''description must be at most 500 characters'')
      else bnd (known_permissions requested) (\<lambda>names.
        seq (require_reauth st actor ''admin_create_role'')
        (bnd (in_tx internal (create_role_tx actor name description names)) (\<lambda>r. ret (r, names)))))"

text \<open>The holders of a role that gains administration must meet what granting it asks.\<close>

definition holder_can_administer :: "executor \<Rightarrow> uuid \<Rightarrow> (app_error, unit) svc" where
  "holder_can_administer tx holder =
     seq (map_err internal (lock_row tx holder))
     (bnd (bnd (map_err internal (user_find_by_id tx holder)) (ok_or NotFound)) (\<lambda>user.
      bnd (if u_status user \<noteq> UserActive then ret True
           else bnd (map_err internal (has_second_factor tx (u_id user))) (\<lambda>has. ret (\<not> has))) (\<lambda>refused.
      if refused then throw (Conflict ''holders_without_second_factor'') else ret ())))"

definition set_permissions_tx :: "actor \<Rightarrow> role \<Rightarrow> string list \<Rightarrow> executor \<Rightarrow> (app_error, uuid list \<times> bool) svc" where
  "set_permissions_tx actor r names tx =
     bnd (map_err internal (lock_permissions tx (ro_id r))) (\<lambda>current.
     let added = filter (\<lambda>p. p \<notin> set current) names; removed = filter (\<lambda>p. p \<notin> set names) current in
     seq (ensure_actor_holds tx actor (added @ removed))
     (bnd (map_err internal (holders tx (ro_id r))) (\<lambda>hs.
      seq (when_do (list_ex is_admin_permission added) (for_each hs (holder_can_administer tx)))
      (seq (map_err internal (role_set_permissions tx (ro_id r) names))
      (seq (keep_an_administrator tx)
      (seq (own_entry tx actor RolePermissionsChanged
              (JObj [(''role'', JStr (ro_name r)), (''permissions'', JArr (map JStr names))]))
      (seq (when_do (added \<noteq> [] \<or> removed \<noteq> []) (for_each hs (\<lambda>h.
              target_entry tx actor h RolePermissionsChanged
                (JObj [(''role'', JStr (ro_name r)), (''added'', JArr (map JStr added)), (''removed'', JArr (map JStr removed))]))))
      (ret (hs, list_ex is_admin_permission added)))))))))"

definition set_permissions ::
  "app_state \<Rightarrow> actor \<Rightarrow> string \<Rightarrow> string list \<Rightarrow> (app_error, role \<times> string list) svc" where
  "set_permissions st actor name requested =
     bnd (role_find name) (\<lambda>r.
     bnd (known_permissions requested) (\<lambda>names.
     if ro_is_default r \<and> list_ex is_admin_permission names then throw (Conflict ''default_role_administration'')
     else seq (require_reauth st actor ''admin_change_role'')
       (bnd (in_tx internal (set_permissions_tx actor r names)) (\<lambda>(hs, grants).
        seq (when_do grants (for_each hs (\<lambda>h. notify_owner h ''role_extended'' (Some (ro_name r)))))
        (ret (r, names))))))"

definition delete_role_tx :: "actor \<Rightarrow> role \<Rightarrow> executor \<Rightarrow> (app_error, uuid list) svc" where
  "delete_role_tx actor r tx =
     bnd (map_err internal (lock_permissions tx (ro_id r))) (\<lambda>granted.
     seq (ensure_actor_holds tx actor granted)
     (bnd (map_err internal (holders tx (ro_id r))) (\<lambda>hs.
      seq (map_err internal (role_delete tx (ro_id r)))
      (seq (keep_an_administrator tx)
      (seq (own_entry tx actor RoleDeleted (JObj [(''role'', JStr (ro_name r)), (''holders'', JNum (int (length hs)))]))
      (seq (for_each hs (\<lambda>h. target_entry tx actor h RoleRevoked (JObj [(''role'', JStr (ro_name r))])))
      (ret hs)))))))"

definition delete_role :: "app_state \<Rightarrow> actor \<Rightarrow> string \<Rightarrow> (app_error, unit) svc" where
  "delete_role st actor name =
     bnd (role_find name) (\<lambda>r.
     if ro_is_default r then throw (Conflict ''default_role'')
     else seq (require_reauth st actor ''admin_delete_role'')
       (bnd (in_tx internal (delete_role_tx actor r)) (\<lambda>hs.
        for_each hs (\<lambda>h. notify_owner h ''role_revoked'' (Some (ro_name r))))))"

section \<open>Who holds a role\<close>

text \<open>\<^verbatim>\<open>return Ok(())\<close> out of a transaction drops it: an \<open>Inl\<close> of the errors.\<close>

definition assign_role_tx :: "actor \<Rightarrow> uuid \<Rightarrow> role \<Rightarrow> executor \<Rightarrow> (unit + app_error, unit) svc" where
  "assign_role_tx actor user_id r tx =
     seq (map_err (Inr \<circ> internal) (lock_row tx user_id))
     (bnd (map_err Inr (bnd (map_err internal (user_find_by_id tx user_id)) (ok_or NotFound))) (\<lambda>user.
      bnd (map_err (Inr \<circ> internal) (lock_permissions tx (ro_id r))) (\<lambda>granted.
      seq (map_err Inr (ensure_actor_holds tx actor granted))
      (seq (map_err Inr (ensure_can_administer tx user r))
      (bnd (attempt (assign_to_user tx user_id (ro_id r) (Some (by_user_id actor)))) (\<lambda>assigned.
       case assigned of
         Inl RowNotFound \<Rightarrow> throw (Inl ())
       | Inl e \<Rightarrow> throw (Inr (internal e))
       | Inr _ \<Rightarrow> map_err Inr (target_entry tx actor user_id RoleAssigned (JObj [(''role'', JStr (ro_name r))]))))))))"

definition assign_role :: "app_state \<Rightarrow> actor \<Rightarrow> uuid \<Rightarrow> string \<Rightarrow> (app_error, unit) svc" where
  "assign_role st actor user_id name =
     seq (refuse_own_account actor user_id)
     (bnd (role_find name) (\<lambda>r.
      seq (bnd (map_err internal (user_find_by_id Pool user_id)) (ok_or NotFound))
      (seq (require_reauth st actor ''admin_assign_role'')
      (early
        (seq (in_tx (Inr \<circ> internal) (assign_role_tx actor user_id r))
        (notify_owner user_id ''role_granted'' (Some (ro_name r))))))))"

definition unassign_tx :: "actor \<Rightarrow> uuid \<Rightarrow> role \<Rightarrow> executor \<Rightarrow> (unit + app_error, unit) svc" where
  "unassign_tx actor user_id r tx =
     bnd (map_err (Inr \<circ> internal) (lock_permissions tx (ro_id r))) (\<lambda>granted.
     seq (map_err Inr (ensure_actor_holds tx actor granted))
     (bnd (map_err (Inr \<circ> internal) (unassign_role tx user_id (ro_id r))) (\<lambda>held.
      if \<not> held then throw (Inl ())
      else map_err Inr
        (seq (keep_an_administrator tx)
        (target_entry tx actor user_id RoleRevoked (JObj [(''role'', JStr (ro_name r))]))))))"

definition unassign :: "app_state \<Rightarrow> actor \<Rightarrow> uuid \<Rightarrow> string \<Rightarrow> (app_error, unit) svc" where
  "unassign st actor user_id name =
     bnd (role_find name) (\<lambda>r.
     seq (require_reauth st actor ''admin_revoke_role'')
     (early
       (seq (in_tx (Inr \<circ> internal) (unassign_tx actor user_id r))
       (when_do (by_user_id actor \<noteq> user_id) (notify_owner user_id ''role_revoked'' (Some (ro_name r)))))))"

section \<open>What an operation leaves in the database\<close>

text \<open>\<open>settles w P m\<close>: run with the database of \<open>w\<close>, whether \<open>m\<close> succeeds or fails, it leaves tables that
  satisfy \<open>P\<close>. An operation settles \<open>P\<close> where its one transaction does; what surrounds it leaves
  the database alone.\<close>

definition settles :: "world \<Rightarrow> (tables \<Rightarrow> bool) \<Rightarrow> ('e, 'a) svc \<Rightarrow> bool" where
  "settles w P m \<longleftrightarrow> (\<forall>v. same_db w v \<longrightarrow> P (tables (snd (m v))))"

lemma settlesD: "settles w P m \<Longrightarrow> P (tables (snd (m w)))"
  by (simp add: settles_def)

lemma settles_wp: "settles w P m \<longleftrightarrow> (\<forall>v. same_db w v \<longrightarrow> wp m (\<lambda>_ v. P (tables v)) (\<lambda>_ v. P (tables v)) v)"
  by (simp add: settles_def wp_def case_prod_beta split: sum.split)

lemma settles_same: "keeps same_db m \<Longrightarrow> P (tables w) \<Longrightarrow> settles w P m"
  by (auto simp: settles_def keeps_def same_db_def)

lemma settles_read:
  assumes "keeps same_db m" "P (tables w)" "\<And>x. settles w P (k x)"
  shows "settles w P (bnd m k)"
  unfolding settles_wp
proof (intro allI impI, rule wp_bnd_keeps [OF assms(1)])
  fix v x v' assume "same_db w v" "same_db v v'"
  then show "wp (k x) (\<lambda>_ v. P (tables v)) (\<lambda>_ v. P (tables v)) v'"
    using assms(3) by (auto simp: settles_wp intro: sd.trans)
next
  fix v e v' assume "same_db w v" "same_db v v'"
  then show "P (tables v')"
    using assms(2) by (simp add: same_dbD)
qed

lemma settles_then:
  assumes "settles w P m" "\<And>x. keeps same_db (k x)"
  shows "settles w P (bnd m k)"
  unfolding settles_wp
proof (intro allI impI)
  fix v assume "same_db w v"
  then show "wp (bnd m k) (\<lambda>_ v. P (tables v)) (\<lambda>_ v. P (tables v)) v"
    using assms(1) by (intro wp_bnd_rule [where P = "\<lambda>_ v. P (tables v)" and F = "\<lambda>_ v. P (tables v)"] keeps_wp [OF assms(2)])
      (auto simp: settles_wp same_dbD)
qed

lemma settles_seq:
  "keeps same_db m \<Longrightarrow> P (tables w) \<Longrightarrow> settles w P k \<Longrightarrow> settles w P (seq m k)"
  "settles w P m' \<Longrightarrow> keeps same_db k' \<Longrightarrow> settles w P (seq m' k')"
  by (simp_all add: seq_def settles_read settles_then)

lemmas settles_first = settles_read settles_seq(1)
lemmas settles_last = settles_then settles_seq(2)

lemma settles_early: "settles w P m \<Longrightarrow> settles w P (early m)"
  unfolding settles_wp wp_early by (auto elim!: wp_mono split: sum.split)

text \<open>A transaction: what its body establishes where it returns, or what held before.\<close>

lemma settles_tx:
  assumes "P (tables w)" "\<And>tx v. same_db w v \<Longrightarrow> wp (body tx) (\<lambda>_ v'. P (tables v')) (\<lambda>_ _. True) v"
  shows "settles w P (in_tx err body)"
  unfolding settles_wp wp_in_tx
proof (intro allI impI)
  fix v assume v: "same_db w v"
  show "if next_outcome v \<noteq> Done then P (tables (tick v))
      else wp (body (Tx (db_now (tick v)))) (\<lambda>x w'. case next_outcome w' of Done \<Rightarrow> P (tables (tick w'))
          | Refused \<Rightarrow> P (tables ((tick w')\<lparr>tables := tables v\<rparr>)) | Lost \<Rightarrow> P (tables (tick w')))
        (\<lambda>e w'. P (tables (w'\<lparr>tables := tables v\<rparr>))) (tick v)"
    using assms(1) same_dbD(1) [OF v] by (auto intro!: wp_mono [OF assms(2) [OF same_db_then_tick [OF v]]] split: outcome.split)
qed

lemma settles_cases:
  "(b \<Longrightarrow> settles w P m) \<Longrightarrow> (\<not> b \<Longrightarrow> settles w P m') \<Longrightarrow> settles w P (if b then m else m')"
  "(\<And>x y. p = (x, y) \<Longrightarrow> settles w P (f x y)) \<Longrightarrow> settles w P (case p of (x, y) \<Rightarrow> f x y)"
  by (auto split: prod.split)

section \<open>The tables of roles\<close>

definition rbac :: "tables \<Rightarrow> permission list \<times> (uuid \<times> uuid) list \<times> user_role list" where
  "rbac t = (permissions t, role_permissions t, user_roles t)"

text \<open>Identifiers come from the supply.\<close>

definition role_ids :: "tables \<Rightarrow> uuid set" where
  "role_ids t = ro_id ` set (roles t) \<union> fst ` set (role_permissions t) \<union> ur_role_id ` set (user_roles t)"

definition rbac_ok :: "world \<Rightarrow> bool" where
  "rbac_ok w \<longleftrightarrow> distinct (map pe_id (permissions (tables w))) \<and> (\<forall>r \<in> role_ids (tables w). r < uuids w)"

definition grant_exactly :: "uuid \<Rightarrow> string list \<Rightarrow> tables \<Rightarrow> tables" where
  "grant_exactly r names t = t\<lparr>role_permissions := filter (\<lambda>(x, _). x \<noteq> r) (role_permissions t) @
     map (\<lambda>p. (r, pe_id p)) (filter (\<lambda>p. permission_name p \<in> set names) (permissions t))\<rparr>"

lemma map_filter_append: "List.map_filter f (xs @ ys) = List.map_filter f xs @ List.map_filter f ys"
  by (simp add: List.map_filter_def)

lemma find_by_id: "distinct (map pe_id ps) \<Longrightarrow> p \<in> set ps \<Longrightarrow> find (\<lambda>q. pe_id q = pe_id p) ps = Some p"
  by (induction ps) (auto simp: image_iff)

lemma grants_iff:
  "role_grants t r p \<longleftrightarrow> (\<exists>q perm. (r, q) \<in> set (role_permissions t) \<and> find (\<lambda>x. pe_id x = q) (permissions t) = Some perm \<and> permission_name perm = p)"
  by (force simp: role_grants_def permissions_of_role_def List.map_filter_def image_iff)

lemma grants_exactly:
  assumes "distinct (map pe_id (permissions t))"
  shows "role_grants (grant_exactly r names t) r p \<longleftrightarrow> p \<in> set names \<and> p \<in> permission_name ` set (permissions t)"
    "x \<noteq> r \<Longrightarrow> role_grants (grant_exactly r names t) x p \<longleftrightarrow> role_grants t x p"
  using find_by_id [OF assms] by (fastforce simp: grants_iff grant_exactly_def image_iff)+

lemma grants_known: "role_grants t r p \<Longrightarrow> p \<in> permission_name ` set (permissions t)"
  by (auto simp: grants_iff find_Some_iff)

lemma user_holds_iff: "user_holds t u p \<longleftrightarrow> (\<exists>ur \<in> set (user_roles t). ur_user_id ur = u \<and> role_grants t (ur_role_id ur) p)"
  by (simp add: user_holds_def list_ex_iff)

lemma rbac_grants: "rbac t' = rbac t \<Longrightarrow> role_grants t' r p = role_grants t r p" "rbac t' = rbac t \<Longrightarrow> user_holds t' u p = user_holds t u p"
  by (simp_all add: rbac_def grants_iff user_holds_iff)

section \<open>Frames\<close>

definition standing :: "tables \<Rightarrow> (permission list \<times> (uuid \<times> uuid) list \<times> user_role list) \<times> user list" where
  "standing t = (rbac t, users t)"

lemma standing_other [simp]:
  "standing (t\<lparr>audit_log := a\<rparr>) = standing t" "standing (t\<lparr>sessions := s\<rparr>) = standing t" "standing (t\<lparr>roles := r\<rparr>) = standing t"
  by (simp_all add: standing_def rbac_def)

lemma standing_same:
  assumes "standing t' = standing t"
  shows "user_holds t' u p = user_holds t u p" "held_by_active t' p = held_by_active t p"
  using assms rbac_grants [of t' t] by (simp_all add: standing_def held_by_active_def) (simp_all add: rbac_def)

lemma keeps_admin_calls [frame_intros]:
  "keeps same_db (notify_owner u change r)" "keeps same_db (refuse_own_account a u)" "keeps same_db (ensure_can_administer ex u' ro)"
  "keeps same_db (ensure_actor_holds ex a ns)" "keeps same_db (role_find n)" "keeps same_db (known_permissions ns)"
  "keeps same_db (require_reauth st a reason)" "keeps same_db (keep_an_administrator ex)" "keeps same_db (holder_can_administer ex h)"
  unfolding notify_owner_def refuse_own_account_def ensure_can_administer_def ensure_actor_holds_def role_find_def known_permissions_def
    require_reauth_def require_recent_reauth_or_password_def keep_an_administrator_def holder_can_administer_def
  by (auto intro!: sd.keeps_intros frame_intros split: sum.split option.split)

lemma keeps_entries:
  assumes "\<And>t x. f (t\<lparr>audit_log := x\<rparr>) = f t"
  shows "keeps (same_of f) (own_entry ex a action extra)" "keeps (same_of f) (target_entry ex a u action extra)"
  unfolding own_entry_def target_entry_def audit_append_def
  by (auto intro!: so.keeps_intros keeps_same_of_stmt simp: assms checked_def)

lemmas entry_frame = keeps_entries [where f = standing, simplified]

section \<open>Contracts\<close>

lemma actor_holds_wp:
  "wp (ensure_actor_holds tx a ns) (\<lambda>_ v. same_db w v \<and> (\<forall>p \<in> set ns. user_holds (tables w) (by_user_id a) p)) (\<lambda>_ _. True) w"
proof (induction ns arbitrary: w)
  case (Cons p ns)
  show ?case
    using wp_mono [OF Cons.IH [of "tick w"], of "\<lambda>_ v. same_db w v \<and> (\<forall>p \<in> set ns. user_holds (tables w) (by_user_id a) p)"]
      sd.trans [OF same_db_tick, of w]
    by (auto simp: ensure_actor_holds_def user_has_permission_def wp_simps)
qed (simp add: ensure_actor_holds_def wp_simps)

lemma lock_permissions_wp:
  "wp (map_err f (lock_permissions tx r)) (\<lambda>ps v. same_db w v \<and> (\<forall>p. p \<in> set ps \<longleftrightarrow> role_grants (tables w) r p)) (\<lambda>_ _. True) w"
  by (auto simp: lock_permissions_def wp_simps role_grants_def intro: same_db_then_tick)

lemma set_permissions_wp:
  "wp (map_err f (role_set_permissions tx r ns)) (\<lambda>_ v. tables v = grant_exactly r ns (tables w)) (\<lambda>_ _. True) w"
  by (auto simp: role_set_permissions_def wp_simps wp_db_stmt checked_def grant_exactly_def split: outcome.split)

lemma keep_administrator_wp:
  "wp (keep_an_administrator tx) (\<lambda>_ v. same_db w v \<and> held_by_active (tables w) ROLES_MANAGE) (\<lambda>_ _. True) w"
  by (auto simp: keep_an_administrator_def permission_held_def wp_simps intro: same_db_then_tick)

section \<open>Nobody grants what they do not hold\<close>

text \<open>The change of an administrator \<open>a\<close>: a permission that an account gains or loses is one that \<open>a\<close>
  held, and an active account able to manage roles remains.\<close>

definition governed :: "uuid \<Rightarrow> tables \<Rightarrow> tables \<Rightarrow> bool" where
  "governed a t t' \<longleftrightarrow> (\<forall>u p. user_holds t' u p \<noteq> user_holds t u p \<longrightarrow> user_holds t a p) \<and>
     (held_by_active t ROLES_MANAGE \<longrightarrow> held_by_active t' ROLES_MANAGE)"

lemma governed_refl [simp]: "governed a t t"
  by (simp add: governed_def)

lemma governed_standing: "standing t' = standing t'' \<Longrightarrow> governed a t t' = governed a t t''"
  using standing_same [of t' t''] by (simp add: governed_def)

lemma governed_rest:
  assumes "governed a t (tables v)" "keeps (same_of standing) m"
  shows "wp m (\<lambda>_ v'. governed a t (tables v')) (\<lambda>_ _. True) v"
proof (rule keeps_wp [OF assms(2)])
  fix v' assume "same_of standing v v'"
  then show "governed a t (tables v')"
    using assms(1) governed_standing [of "tables v'" "tables v" a t] by (simp add: same_of_def)
qed simp

lemma held_iff:
  "held_by_active t p \<longleftrightarrow> (\<exists>ur \<in> set (user_roles t). role_grants t (ur_role_id ur) p \<and>
     (\<exists>u \<in> set (users t). u_id u = ur_user_id ur \<and> u_status u = UserActive))"
  by (simp add: held_by_active_def list_ex_iff)

text \<open>Where only the role \<open>r\<close> and its holders change, so do only the permissions it grants.\<close>

lemma holds_changes:
  assumes "\<And>x. x \<noteq> r \<Longrightarrow> role_grants t' x p = role_grants t x p"
    and "\<And>ur. ur_role_id ur \<noteq> r \<Longrightarrow> ur \<in> set (user_roles t') \<longleftrightarrow> ur \<in> set (user_roles t)"
    and "user_holds t' u p \<noteq> user_holds t u p"
  shows "role_grants t r p \<or> role_grants t' r p"
proof (rule ccontr)
  assume "\<not> ?thesis"
  then have "ur \<in> set (user_roles t') \<and> role_grants t' (ur_role_id ur) p \<longleftrightarrow>
      ur \<in> set (user_roles t) \<and> role_grants t (ur_role_id ur) p" for ur
    using assms(1,2) by (cases "ur_role_id ur = r") simp_all
  then show False
    using assms(3) unfolding user_holds_iff by blast
qed

lemma holds_changes_same:
  assumes "\<And>x. role_grants t' x p = role_grants t x p"
    and "\<And>ur. ur_role_id ur \<noteq> r \<Longrightarrow> ur \<in> set (user_roles t') \<longleftrightarrow> ur \<in> set (user_roles t)"
    and "user_holds t' u p \<noteq> user_holds t u p"
  shows "role_grants t r p"
  using holds_changes [OF _ assms(2,3)] assms(1) by blast

lemma exactly_changes:
  assumes "distinct (map pe_id (permissions t))" "\<And>p. p \<in> set names \<Longrightarrow> \<not> role_grants t r p \<Longrightarrow> user_holds t a p"
    and "\<And>p. role_grants t r p \<Longrightarrow> p \<notin> set names \<Longrightarrow> user_holds t a p"
    and "user_holds (grant_exactly r names t) u p \<noteq> user_holds t u p"
  shows "user_holds t a p"
proof -
  have same: "user_roles (grant_exactly r names t) = user_roles t"
    by (simp add: grant_exactly_def)
  have "role_grants (grant_exactly r names t) r p \<noteq> role_grants t r p"
    using assms(4) grants_exactly(2) [OF assms(1), of _ r names p] unfolding user_holds_iff same by metis
  then show ?thesis
    using grants_exactly(1) [OF assms(1), of r names p] grants_known [of t r p] assms(2,3) by blast
qed

definition without_role :: "uuid \<Rightarrow> tables \<Rightarrow> tables" where
  "without_role r t = t\<lparr>roles := filter (\<lambda>x. ro_id x \<noteq> r) (roles t),
     role_permissions := filter (\<lambda>(x, _). x \<noteq> r) (role_permissions t), user_roles := filter (\<lambda>ur. ur_role_id ur \<noteq> r) (user_roles t)\<rparr>"

lemma without_role_changes:
  assumes "user_holds (without_role r t) u p \<noteq> user_holds t u p"
  shows "role_grants t r p"
proof -
  have "\<not> role_grants (without_role r t) r p"
    by (simp add: grants_iff without_role_def)
  moreover have "role_grants t r p \<or> role_grants (without_role r t) r p"
    by (rule holds_changes [OF _ _ assms]) (simp_all add: grants_iff without_role_def)
  ultimately show ?thesis
    by blast
qed

lemma user_roles_changes:
  assumes "\<And>ur. ur_role_id ur \<noteq> r \<Longrightarrow> ur \<in> set rows \<longleftrightarrow> ur \<in> set (user_roles t)"
    and "user_holds (t\<lparr>user_roles := rows\<rparr>) u p \<noteq> user_holds t u p"
  shows "role_grants t r p"
  by (rule holds_changes_same [OF _ _ assms(2)]) (simp_all add: grants_iff assms(1))

lemma holders_frame: "keeps same_db (map_err f (holders tx r))" "keeps same_db (when_do b (for_each hs (holder_can_administer tx)))"
  by (auto intro!: sd.keeps_intros frame_intros)

lemma set_permissions_tx_governed:
  assumes "tables v = t" "distinct (map pe_id (permissions t))"
  shows "wp (set_permissions_tx a r names tx) (\<lambda>_ v'. governed (by_user_id a) t (tables v')) (\<lambda>_ _. True) v"
  unfolding set_permissions_tx_def Let_def
proof (rule wp_bnd_rule [OF lock_permissions_wp], elim conjE, rule wp_seq_rule [OF actor_holds_wp], elim conjE,
    rule wp_bnd_keeps [OF holders_frame(1)], rule wp_seq_keeps [OF holders_frame(2)], rule wp_seq_rule [OF set_permissions_wp],
    rule wp_seq_rule [OF keep_administrator_wp], elim conjE, rule governed_rest)
  fix current v1 u1 v2 hs v3 v4 u2 v5 u3 v6
  assume same: "same_db v v1" "same_db v1 v2" "same_db v2 v3" "same_db v3 v4"
    and current: "\<forall>p. (p \<in> set current) = role_grants (tables v) (ro_id r) p"
    and holds: "\<forall>p \<in> set (filter (\<lambda>p. p \<notin> set current) names @ filter (\<lambda>p. p \<notin> set names) current). user_holds (tables v1) (by_user_id a) p"
    and set: "tables v5 = grant_exactly (ro_id r) names (tables v4)"
    and held: "same_db v5 v6" "held_by_active (tables v5) ROLES_MANAGE"
  have t: "tables v4 = t" "tables v1 = t" "tables v6 = tables v5"
    using same held(1) assms(1) by (simp_all add: same_dbD)
  show "governed (by_user_id a) t (tables v6)"
    using exactly_changes [OF assms(2), of names "ro_id r" "by_user_id a"] current holds held(2)
    by (auto simp: governed_def t set assms(1))
qed (auto intro!: so.keeps_intros entry_frame)

lemma role_delete_wp: "wp (map_err f (role_delete tx r)) (\<lambda>_ v. tables v = without_role r (tables w)) (\<lambda>_ _. True) w"
  by (simp add: role_delete_def wp_simps without_role_def split: outcome.split)

lemma delete_role_tx_governed:
  assumes "tables v = t"
  shows "wp (delete_role_tx a r tx) (\<lambda>_ v'. governed (by_user_id a) t (tables v')) (\<lambda>_ _. True) v"
  unfolding delete_role_tx_def
proof (rule wp_bnd_rule [OF lock_permissions_wp], elim conjE, rule wp_seq_rule [OF actor_holds_wp], elim conjE,
    rule wp_bnd_keeps [OF holders_frame(1)], rule wp_seq_rule [OF role_delete_wp], rule wp_seq_rule [OF keep_administrator_wp],
    elim conjE, rule governed_rest)
  fix granted v1 u1 v2 hs v3 u2 v4 u3 v5
  assume same: "same_db v v1" "same_db v1 v2" "same_db v2 v3"
    and granted: "\<forall>p. (p \<in> set granted) = role_grants (tables v) (ro_id r) p"
    and holds: "\<forall>p \<in> set granted. user_holds (tables v1) (by_user_id a) p"
    and gone: "tables v4 = without_role (ro_id r) (tables v3)" and held: "same_db v4 v5" "held_by_active (tables v4) ROLES_MANAGE"
  have t: "tables v3 = t" "tables v1 = t" "tables v5 = tables v4"
    using same held(1) assms by (simp_all add: same_dbD)
  show "governed (by_user_id a) t (tables v5)"
    using without_role_changes [of "ro_id r" t] granted holds held(2) by (auto simp: governed_def t gone assms)
qed (auto intro!: so.keeps_intros entry_frame)

lemma assign_wp:
  "wp (attempt (assign_to_user tx u r g)) (\<lambda>x v. case x of Inl _ \<Rightarrow> True
     | Inr _ \<Rightarrow> \<exists>row. ur_role_id row = r \<and> tables v = (tables w)\<lparr>user_roles := user_roles (tables w) @ [row]\<rparr>) (\<lambda>_ _. True) w"
  by (auto simp: assign_to_user_def wp_simps wp_db_stmt Let_def split: outcome.split prod.split sum.split if_splits)
    (rule exI [of _ "\<lparr>ur_user_id = u, ur_role_id = r, ur_granted_by = g, ur_granted_at = stmt_now tx (tick w)\<rparr>"], simp)

lemma assign_frames:
  "keeps same_db (map_err f (lock_row tx u))" "keeps same_db (map_err g (bnd (map_err internal (user_find_by_id tx u)) (ok_or e)))"
  "keeps same_db (map_err h (ensure_can_administer tx user r))"
  by (auto intro!: sd.keeps_intros frame_intros)

lemma assign_role_tx_governed:
  assumes "tables v = t"
  shows "wp (assign_role_tx a u r tx) (\<lambda>_ v'. governed (by_user_id a) t (tables v')) (\<lambda>_ _. True) v"
  unfolding assign_role_tx_def
proof (rule wp_seq_keeps [OF assign_frames(1)], rule wp_bnd_keeps [OF assign_frames(2)], rule wp_bnd_rule [OF lock_permissions_wp], elim conjE,
    rule wp_seq_rule [OF actor_holds_wp [THEN wp_mapped]], elim conjE, rule wp_seq_keeps [OF assign_frames(3)], rule wp_bnd_rule [OF assign_wp])
  fix v1 user v2 granted v3 u1 v4 and v5 v6 :: world and x :: "sql_error + user_role"
  assume same: "same_db v v1" "same_db v1 v2" "same_db v2 v3" "same_db v3 v4" "same_db v4 v5"
    and granted: "\<forall>p. (p \<in> set granted) = role_grants (tables v2) (ro_id r) p"
    and holds: "\<forall>p \<in> set granted. user_holds (tables v3) (by_user_id a) p"
    and assigned: "case x of Inl _ \<Rightarrow> True | Inr _ \<Rightarrow>
      \<exists>row. ur_role_id row = ro_id r \<and> tables v6 = (tables v5)\<lparr>user_roles := user_roles (tables v5) @ [row]\<rparr>"
  have t: "tables v2 = t" "tables v3 = t" "tables v5 = t"
    using same assms by (simp_all add: same_dbD)
  have "governed (by_user_id a) t (tables v6)" if x: "x = Inr y" for y
  proof -
    obtain row where row: "ur_role_id row = ro_id r" "tables v6 = t\<lparr>user_roles := user_roles t @ [row]\<rparr>"
      using assigned x by (auto simp: t(3))
    have "role_grants t (ro_id r) p" if "user_holds (tables v6) u p \<noteq> user_holds t u p" for u p
      by (rule user_roles_changes [OF _ that [unfolded row(2)]]) (auto simp: row(1))
    moreover have "role_grants (tables v6) x p = role_grants t x p" for x p
      by (simp add: grants_iff row(2))
    then have "held_by_active t ROLES_MANAGE \<longrightarrow> held_by_active (tables v6) ROLES_MANAGE"
      by (auto simp: held_iff row(2))
    ultimately show ?thesis
      using granted holds by (auto simp: governed_def t)
  qed
  then show "wp (case x of Inl RowNotFound \<Rightarrow> throw (Inl ()) | Inl e \<Rightarrow> throw (Inr (internal e))
      | Inr _ \<Rightarrow> map_err Inr (target_entry tx a u RoleAssigned (JObj [(''role'', JStr (ro_name r))])))
      (\<lambda>_ v'. governed (by_user_id a) t (tables v')) (\<lambda>_ _. True) v6"
    by (auto simp: wp_throw intro!: governed_rest so.keeps_intros entry_frame split: sum.split sql_error.split)
qed simp_all

lemma unassign_wp:
  "wp (map_err f (unassign_role tx u r)) (\<lambda>_ v. tables v =
     (tables w)\<lparr>user_roles := filter (\<lambda>ur. \<not> (ur_user_id ur = u \<and> ur_role_id ur = r)) (user_roles (tables w))\<rparr>) (\<lambda>_ _. True) w"
  by (simp add: unassign_role_def wp_simps Let_def split: outcome.split)

lemma unassign_tx_governed:
  assumes "tables v = t"
  shows "wp (unassign_tx a u r tx) (\<lambda>_ v'. governed (by_user_id a) t (tables v')) (\<lambda>_ _. True) v"
  unfolding unassign_tx_def
proof (rule wp_bnd_rule [OF lock_permissions_wp], elim conjE, rule wp_seq_rule [OF actor_holds_wp [THEN wp_mapped]], elim conjE,
    rule wp_bnd_rule [OF unassign_wp], rule wp_cases, simp add: wp_throw, rule wp_mapped, rule wp_seq_rule [OF keep_administrator_wp], elim conjE,
    rule governed_rest)
  fix granted v1 u1 v2 held v3 u2 v4
  let ?rows = "filter (\<lambda>ur. \<not> (ur_user_id ur = u \<and> ur_role_id ur = ro_id r)) (user_roles t)"
  assume same: "same_db v v1" "same_db v1 v2"
    and granted: "\<forall>p. (p \<in> set granted) = role_grants (tables v) (ro_id r) p"
    and holds: "\<forall>p \<in> set granted. user_holds (tables v1) (by_user_id a) p"
    and gone: "tables v3 = (tables v2)\<lparr>user_roles := filter (\<lambda>ur. \<not> (ur_user_id ur = u \<and> ur_role_id ur = ro_id r)) (user_roles (tables v2))\<rparr>"
    and kept: "same_db v3 v4" "held_by_active (tables v3) ROLES_MANAGE"
  have t: "tables v1 = t" "tables v2 = t" "tables v4 = tables v3"
    using same kept(1) assms by (simp_all add: same_dbD)
  show "governed (by_user_id a) t (tables v4)"
    using user_roles_changes [of "ro_id r" ?rows t] granted holds kept(2) by (auto simp: governed_def t gone assms)
qed (auto intro!: so.keeps_intros entry_frame)

lemma role_create_wp:
  "wp (map_err f (role_create tx name d)) (\<lambda>r v. uuids w \<le> ro_id r \<and> tables v = (tables w)\<lparr>roles := roles (tables w) @ [r]\<rparr>) (\<lambda>_ _. True) w"
  by (auto simp: role_create_def wp_simps wp_db_stmt Let_def checked_def split: outcome.split)

lemma create_role_tx_governed:
  assumes "tables v = t" "distinct (map pe_id (permissions t))" "\<And>ur. ur \<in> set (user_roles t) \<Longrightarrow> ur_role_id ur < uuids v"
  shows "wp (create_role_tx a name d names tx) (\<lambda>_ v'. governed (by_user_id a) t (tables v')) (\<lambda>_ _. True) v"
  unfolding create_role_tx_def
proof (rule wp_seq_rule [OF actor_holds_wp], elim conjE, rule wp_bnd_rule [OF role_create_wp], elim conjE, rule wp_seq_rule [OF set_permissions_wp],
    rule governed_rest)
  fix u1 v1 r v2 u2 v3
  assume same: "same_db v v1" and r: "uuids v1 \<le> ro_id r" "tables v2 = (tables v1)\<lparr>roles := roles (tables v1) @ [r]\<rparr>"
    and set: "tables v3 = grant_exactly (ro_id r) names (tables v2)"
  have t: "tables v1 = t" "uuids v \<le> uuids v1"
    using same assms by (simp_all add: same_db_def later_def)
  have other: "ur_role_id ur \<noteq> ro_id r" if "ur \<in> set (user_roles t)" for ur
    using assms(3) [OF that] t(2) r(1) by simp
  have rows: "user_roles (tables v3) = user_roles t" "users (tables v3) = users t"
    by (simp_all add: set r(2) t(1) grant_exactly_def)
  have "role_grants (tables v3) x p = role_grants t x p" if "x \<noteq> ro_id r" for x p
    using that grants_exactly(2) [of "tables v2" x "ro_id r" names p] assms(2)
    by (simp add: set r(2) t(1)) (simp add: grants_iff)
  then have "user_holds (tables v3) u p = user_holds t u p" "held_by_active (tables v3) p = held_by_active t p" for u p
    using other unfolding user_holds_iff held_iff rows by metis+
  then show "governed (by_user_id a) t (tables v3)"
    by (simp add: governed_def)
qed (auto intro!: so.keeps_intros entry_frame)

section \<open>The supply of identifiers\<close>

definition rbac_kept :: "world \<Rightarrow> world \<Rightarrow> bool" where
  "rbac_kept w w' \<longleftrightarrow> later w w' \<and> (rbac_ok w \<longrightarrow> rbac_ok w')"

lemma rbac_keptI:
  "later w w' \<Longrightarrow> permissions (tables w') = permissions (tables w) \<Longrightarrow> role_ids (tables w') \<subseteq> role_ids (tables w) \<Longrightarrow> rbac_kept w w'"
  by (fastforce simp: rbac_kept_def rbac_ok_def later_def)

interpretation bk: db_relation rbac_kept
proof
  show "rbac_kept u w" if "rbac_kept u v" "rbac_kept v w" for u v w
    using that lt.trans [of u v w] by (auto simp: rbac_kept_def)
qed (auto simp: rbac_kept_def rbac_ok_def same_db_def later_def)

definition rbac_rows :: "tables \<Rightarrow> role list \<times> permission list \<times> (uuid \<times> uuid) list \<times> user_role list" where
  "rbac_rows t = (roles t, rbac t)"

lemma keeps_rbac_other: "keeps (same_of rbac_rows) m \<Longrightarrow> keeps rbac_kept m"
  by (auto simp: keeps_def same_of_def rbac_rows_def rbac_def role_ids_def intro!: rbac_keptI)

lemma keeps_rbac_writes:
  "keeps rbac_kept (role_create ex n d)" "keeps rbac_kept (role_set_permissions ex r ns)" "keeps rbac_kept (role_delete ex r)"
  "keeps rbac_kept (assign_to_user ex u r g)" "keeps rbac_kept (unassign_role ex u r)"
proof -
  have stays: "rbac_kept w (w\<lparr>tables := t\<rparr>)" if "permissions t = permissions (tables w)" "role_ids t \<subseteq> role_ids (tables w)" for w t
    by (rule rbac_keptI) (simp_all add: that later_def)
  show "keeps rbac_kept (role_create ex n d)"
    by (auto simp: keeps_iff_wp role_create_def wp_simps wp_db_stmt Let_def checked_def rbac_kept_def rbac_ok_def later_def role_ids_def less_Suc_eq
        split: outcome.split)
  show "keeps rbac_kept (role_set_permissions ex r ns)"
    unfolding role_set_permissions_def
    by (auto intro!: bk.keeps_intros bk.keeps_write bk.keeps_stmt stays simp: checked_def list_ex_iff role_ids_def image_iff split: if_splits; force)
  show "keeps rbac_kept (role_delete ex r)"
    unfolding role_delete_def by (rule bk.keeps_write, rule stays) (simp, force simp: role_ids_def)
  show "keeps rbac_kept (assign_to_user ex u r g)" "keeps rbac_kept (unassign_role ex u r)"
    unfolding assign_to_user_def unassign_role_def
    by (auto intro!: bk.keeps_write bk.keeps_stmt stays simp: Let_def list_ex_iff role_ids_def split: if_splits)
qed

lemmas entry_rbac = keeps_entries [where f = rbac_rows, THEN keeps_rbac_other]

lemma admin_keeps_rbac:
  "keeps rbac_kept (create_role st a n d ns)" "keeps rbac_kept (set_permissions st a n ns)" "keeps rbac_kept (delete_role st a n)"
  "keeps rbac_kept (assign_role st a u n)" "keeps rbac_kept (unassign st a u n)"
  unfolding create_role_def create_role_tx_def set_permissions_def set_permissions_tx_def delete_role_def delete_role_tx_def assign_role_def
    assign_role_tx_def unassign_def unassign_tx_def Let_def
  by (auto intro!: bk.keeps_in_tx bk.keeps_intros keeps_rbac_writes entry_rbac frame_intros [THEN bk.keeps_same_db] simp: rbac_rows_def rbac_def
      split: sum.split sql_error.split)

section \<open>Role operations\<close>

datatype role_call =
    CreateRole string "string option" "string list"
  | SetPermissions string "string list"
  | DeleteRole string
  | AssignRole uuid string
  | UnassignRole uuid string

fun role_op :: "app_state \<Rightarrow> actor \<times> role_call \<Rightarrow> (app_error, unit) svc" where
  "role_op st (a, CreateRole n d ns) = seq (create_role st a n d ns) (ret ())"
| "role_op st (a, SetPermissions n ns) = seq (set_permissions st a n ns) (ret ())"
| "role_op st (a, DeleteRole n) = delete_role st a n"
| "role_op st (a, AssignRole u n) = assign_role st a u n"
| "role_op st (a, UnassignRole u n) = unassign st a u n"

lemma role_op_rbac: "keeps rbac_kept (role_op st c)"
  by (cases "(st, c)" rule: role_op.cases) (auto intro!: admin_keeps_rbac bk.keeps_intros)

lemma role_op_governed:
  assumes "rbac_ok w"
  shows "settles w (governed (by_user_id (fst c)) (tables w)) (role_op st c)"
proof -
  have ids: "distinct (map pe_id (permissions (tables w)))" "\<And>ur. ur \<in> set (user_roles (tables w)) \<Longrightarrow> ur_role_id ur < uuids w"
    using assms by (simp_all add: rbac_ok_def role_ids_def)
  have fresh: "ur_role_id ur < uuids v" if "same_db w v" "ur \<in> set (user_roles (tables w))" for ur v
    using ids(2) [OF that(2)] that(1) by (simp add: same_db_def later_def)
  note bodies = set_permissions_tx_governed delete_role_tx_governed assign_role_tx_governed unassign_tx_governed create_role_tx_governed
  have "settles w (governed (by_user_id a) (tables w)) (role_op st (a, call))" for a call
    by (cases call; simp only: role_op.simps create_role_def set_permissions_def delete_role_def assign_role_def unassign_def)
      ((rule settles_cases settles_early settles_tx | (rule bodies, simp add: same_dbD; simp add: ids fresh; fail)
        | (rule settles_same, (auto intro!: sd.keeps_intros frame_intros; fail)[1])
        | (rule settles_first, (auto intro!: sd.keeps_intros frame_intros; fail)[1])
        | rule settles_last | (auto intro!: sd.keeps_intros frame_intros; fail))+)
  then show ?thesis
    by (cases c) simp
qed


definition demo_rbac :: tables where
  "demo_rbac = demo_tables\<lparr>
     permissions := [\<lparr>pe_id = 2, pe_resource = ''roles'', pe_action = ''manage''\<rparr>],
     roles := [\<lparr>ro_id = 3, ro_created_at = 0, ro_is_default = False, ro_name = ''admin'', ro_description = None\<rparr>],
     role_permissions := [(3, 2)],
     user_roles := [\<lparr>ur_user_id = 1, ur_role_id = 3, ur_granted_by = None, ur_granted_at = 0\<rparr>]\<rparr>"

definition demo_actor :: actor where
  "demo_actor = \<lparr>by_user_id = 9, by_session_id = 10, by_ip = None, by_request_id = None\<rparr>"


section \<open>Sessions and links are left alone\<close>

lemma keeps_role_ops:
  assumes [simp]: "\<And>t x. f (t\<lparr>roles := x\<rparr>) = f t" "\<And>t x. f (t\<lparr>role_permissions := x\<rparr>) = f t" "\<And>t x. f (t\<lparr>user_roles := x\<rparr>) = f t"
    "\<And>t x. f (t\<lparr>audit_log := x\<rparr>) = f t"
  shows "keeps (same_of f) (role_op st c)"
proof -
  note writes = keeps_role_writes [of f, simplified] keeps_entries [of f, simplified]
  have bodies: "keeps (same_of f) (create_role_tx a n d ns ex)" "keeps (same_of f) (set_permissions_tx a r ns ex)"
    "keeps (same_of f) (delete_role_tx a r ex)" "keeps (same_of f) (assign_role_tx a u r ex)" "keeps (same_of f) (unassign_tx a u r ex)" for a n d ns r u ex
    unfolding create_role_tx_def set_permissions_tx_def delete_role_tx_def assign_role_tx_def unassign_tx_def Let_def
    by (auto intro!: so.keeps_intros writes frame_intros [THEN so.keeps_same_db] split: sum.split sql_error.split)
  have "keeps (same_of f) (role_op st (a, call))" for a call
    by (cases call; simp only: role_op.simps create_role_def set_permissions_def delete_role_def assign_role_def unassign_def)
      (auto intro!: so.keeps_in_tx so.keeps_intros bodies frame_intros [THEN so.keeps_same_db])
  then show ?thesis
    by (cases c) simp
qed

lemmas role_op_frame [session_frame] = keeps_role_ops [where f = sessions, simplified]
lemmas role_op_links [link_intros] = keeps_role_ops [where f = links, simplified, THEN keeps_mailbox_other]

end
