(* ===== verification/Spec2Isabelle.thy ===== *)
theory Spec2Isabelle
  imports Sessions Second_Factor Admin_Roles
begin

text \<open>
  A verification of \<^verbatim>\<open>auth-api\<close>, an authentication service written in Rust: accounts, passwords, second
  factors, sessions with rotating refresh tokens, roles and permissions. The crate keeps its rules
  in \<^verbatim>\<open>src/domain\<close>, its SQL in \<^verbatim>\<open>src/repositories\<close> (over the schema of \<^verbatim>\<open>migrations\<close>), and the
  operations behind its routes in \<^verbatim>\<open>src/services\<close>; PostgreSQL holds the durable state, Redis the
  budgets, caches and challenges.

  \<^bold>\<open>How the program is modelled.\<close> An operation is a function of a world, which it returns changed:
  \<^verbatim>\<open>('e, 'a) svc\<close> is \<^verbatim>\<open>world \<Rightarrow> ('e + 'a) \<times> world\<close>, the left summand the error the Rust function
  returns. The world (theory \<^verbatim>\<open>World\<close>) holds the tables, the Redis store with its expiries, the clock with
  the skews of the service and the database, the mails sent, the draws from the random generator,
  the identifiers handed out, and a schedule: each call to the outside takes the next entry of it,
  which says how much time passes and whether the call succeeds, is refused, or is lost (the effect
  happens and the answer does not arrive). Every theorem over an arbitrary world is therefore about
  every pattern of delays and outages. A transaction (\<^verbatim>\<open>in_tx\<close>) keeps its writes only where its body
  returns and the commit succeeds. Two requests interleave between statements only where a theorem
  says so (the session machine, the budgets); a locking read is a read.

  \<^bold>\<open>Parameters.\<close> Argon2, AES-GCM, HMAC, SHA-256, JWT signing, the random generator, the range service of
  breached passwords and the settings are fields of \<^verbatim>\<open>app_state\<close>; what a theorem needs of one of them
  is a hypothesis named in it.

  \<^bold>\<open>Theories.\<close>
  \<^item> \<^verbatim>\<open>Prelude\<close>: lists, options, words. \<^verbatim>\<open>Svc\<close>: the error monad over a state, its weakest preconditions
    (\<^verbatim>\<open>wp\<close>, collection \<^verbatim>\<open>wp_simps\<close>), relations kept by an action (\<^verbatim>\<open>keeps\<close>; locale \<^verbatim>\<open>step_relation\<close>), the
    errors an action may raise (\<^verbatim>\<open>throws\<close>), histories of calls and what holds along them.
  \<^item> \<^verbatim>\<open>Net\<close>, \<^verbatim>\<open>Session_Domain\<close>, \<^verbatim>\<open>Domain\<close>: address buckets (\<^verbatim>\<open>middleware/rate_limit.rs\<close>) and the rules and
    rows of \<^verbatim>\<open>domain\<close>. \<^verbatim>\<open>Keyring\<close>: sealed secrets, code digests and sampling (\<^verbatim>\<open>utils/crypto.rs\<close>).
  \<^item> \<^verbatim>\<open>World\<close>: tables, Redis, calls, transactions; locale \<^verbatim>\<open>db_relation\<close> for the relations on worlds that
    single calls keep, interpreted for the frames every later theory uses.
  \<^item> \<^verbatim>\<open>Redis_Counter\<close>: budgets (\<^verbatim>\<open>utils/redis_counter.rs\<close>), both Lua scripts. \<^verbatim>\<open>Credentials\<close>, \<^verbatim>\<open>Pwned\<close>: password
    hashes, TOTP, delays, breached passwords.
  \<^item> \<^verbatim>\<open>Session_Repo\<close>: the sessions table with its constraints and every statement on it, as a machine
    (\<^verbatim>\<open>session_step\<close>) whose invariant gives one live session per family. \<^verbatim>\<open>Session_Machine\<close>: the services
    refine that machine (\<^verbatim>\<open>refines\<close>), whatever fails.
  \<^item> \<^verbatim>\<open>Repos\<close>, \<^verbatim>\<open>Factors_Repo\<close>, \<^verbatim>\<open>Accounts_Repo\<close>, \<^verbatim>\<open>Link_Repo\<close>, \<^verbatim>\<open>Roles_Repo\<close>: the other repositories: sign-in
    attempts, audit log, events, known devices, clients; second factors and recovery codes; accounts
    and their erasure; one-time links; roles.
  \<^item> \<^verbatim>\<open>Tokens\<close> (\<^verbatim>\<open>services/auth/tokens.rs\<close>), \<^verbatim>\<open>Reauth\<close> (\<^verbatim>\<open>services/reauth.rs\<close>), \<^verbatim>\<open>Guards\<close> (\<^verbatim>\<open>services/auth/guards.rs\<close>),
    \<^verbatim>\<open>Refresh\<close> (\<^verbatim>\<open>services/auth/session.rs\<close>), \<^verbatim>\<open>Sessions\<close> (\<^verbatim>\<open>services/session.rs\<close>), \<^verbatim>\<open>Challenge\<close>
    (\<^verbatim>\<open>services/auth/pre_auth.rs\<close>, the codes of \<^verbatim>\<open>services/email_2fa.rs\<close>), \<^verbatim>\<open>Register\<close>, \<^verbatim>\<open>Login\<close> (with
    \<^verbatim>\<open>magic_link.rs\<close>), \<^verbatim>\<open>Second_Factor\<close>: the services, each operation with its guards, early returns, writes,
    audit entries, events and mails in the order of the code.

  \<^bold>\<open>What the theorems show.\<close> Signing in takes the password of an active, unlocked account, and the second
  factor where one is enrolled; refusals do not tell accounts apart; a challenge, a mailed code, a
  TOTP code, a recovery code and a link work once; a refresh continues one live session, and a replay
  ends its family; what ends a session reaches its tokens; a token carries no more than the account
  and the client hold; budgets are never overrun; sealed secrets round-trip and code sampling ends.
  Safety theorems hold for every schedule of failures; those that promise an effect say what they
  need of the schedule.

  \<^bold>\<open>Bounds.\<close> No operation needs fuel: loops run over finite lists, and the rejection sampling of
  \<^verbatim>\<open>Keyring\<close> is a function of the stream of draws, proved to end on every stream in which an accepted
  draw occurs. Instants are integers of nanoseconds; machine integers are words where a width
  matters.

  \<^bold>\<open>Not modelled.\<close> HTTP (axum handlers, middleware, cookies), the rendering and delivery of mails, the
  relay of events to NATS and webhooks, configuration parsing, metrics, logs, benchmarks and tests:
  they hold no state the services decide on. Work a handler spawns in the background runs at the
  point where it is spawned. Concurrent transactions are not interleaved statement by statement; the
  row locks and advisory locks of the code are what makes that faithful for the writes they guard.
\<close>

end
